(* ===== verification/Nexa_Prelude.thy ===== *)
theory Nexa_Prelude
  imports Main "HOL-Library.Word"
begin

text \<open>
  Shared vocabulary of the development: octets and the fixed-width integers of the source,
  big- and little-endian encodings (\<open>to_be_bytes\<close>, \<open>from_be_bytes\<close>, \<open>BufMut::put_u16\<close> and
  friends), strings as octet sequences, UTF-8 validation as performed by
  \<open>std::str::from_utf8\<close>, results as sums with the error on the left, bounded channels
  (\<open>tokio::sync::mpsc\<close>) and the list facts used by several components.
\<close>

section \<open>Collections of facts\<close>

named_theorems wire_simps \<open>lengths, take/drop and decoding of encoded values\<close>
named_theorems chan_simps \<open>behaviour of bounded channels\<close>

section \<open>Octets and machine integers\<close>

type_synonym byte = "8 word"
type_synonym bytes = "byte list"
type_synonym u8 = "8 word"
type_synonym u16 = "16 word"
type_synonym u32 = "32 word"
type_synonym u64 = "64 word"

text \<open>Durations and instants are counts of nanoseconds.\<close>

type_synonym duration = nat
type_synonym instant = nat

definition from_secs :: "nat \<Rightarrow> duration" where
  "from_secs s = s * 1000000000"

definition from_millis :: "nat \<Rightarrow> duration" where
  "from_millis ms = ms * 1000000"

definition as_millis :: "duration \<Rightarrow> nat" where
  "as_millis d = d div 1000000"

lemma as_millis_from_millis [simp]: "as_millis (from_millis ms) = ms"
  by (simp add: as_millis_def from_millis_def)

lemma as_millis_le: "d \<le> d' \<Longrightarrow> as_millis d \<le> as_millis d'"
  by (simp add: as_millis_def div_le_mono)

section \<open>Results\<close>

text \<open>
  \<open>Result<T, E>\<close> is \<open>'e + 't\<close>: \<open>Inl\<close> is \<open>Err\<close>, \<open>Inr\<close> is \<open>Ok\<close>. The operator \<open>?\<close> is \<open>and_then\<close>.
\<close>

fun and_then :: "'e + 'a \<Rightarrow> ('a \<Rightarrow> 'e + 'b) \<Rightarrow> 'e + 'b" where
  "and_then (Inl e) f = Inl e"
| "and_then (Inr a) f = f a"

fun map_err :: "('e \<Rightarrow> 'f) \<Rightarrow> 'e + 'a \<Rightarrow> 'f + 'a" where
  "map_err f (Inl e) = Inl (f e)"
| "map_err f (Inr a) = Inr a"

fun ok_or :: "'e \<Rightarrow> 'a option \<Rightarrow> 'e + 'a" where
  "ok_or e None = Inl e"
| "ok_or e (Some a) = Inr a"

fun is_ok :: "'e + 'a \<Rightarrow> bool" where
  "is_ok (Inl e) = False"
| "is_ok (Inr a) = True"

lemma and_then_Inr_iff [simp]:
  "and_then r f = Inr b \<longleftrightarrow> (\<exists>a. r = Inr a \<and> f a = Inr b)"
  by (cases r) auto

lemma and_then_Inl_iff:
  "and_then r f = Inl e \<longleftrightarrow> r = Inl e \<or> (\<exists>a. r = Inr a \<and> f a = Inl e)"
  by (cases r) auto

lemma map_err_Inr_iff [simp]: "map_err f r = Inr a \<longleftrightarrow> r = Inr a"
  by (cases r) auto

lemma ok_or_Inr_iff [simp]: "ok_or e r = Inr a \<longleftrightarrow> r = Some a"
  by (cases r) auto

lemma is_ok_iff: "is_ok r \<longleftrightarrow> (\<exists>a. r = Inr a)"
  by (cases r) auto

section \<open>Big-endian encodings\<close>

primrec be_bytes :: "nat \<Rightarrow> nat \<Rightarrow> bytes" where
  "be_bytes 0 n = []"
| "be_bytes (Suc k) n = of_nat (n div 256 ^ k) # be_bytes k n"

definition be_value :: "bytes \<Rightarrow> nat" where
  "be_value bs = foldl (\<lambda>a b. a * 256 + unat b) 0 bs"

lemma length_be_bytes [simp, wire_simps]: "length (be_bytes k n) = k"
  by (induction k) auto

lemma foldl_be_acc:
  "foldl (\<lambda>a b. a * 256 + unat b) acc bs
     = acc * 256 ^ length bs + foldl (\<lambda>a b. a * 256 + unat b) 0 (bs :: bytes)"
proof (induction bs arbitrary: acc)
  case (Cons b bs)
  show ?case
    unfolding foldl_Cons
    by (subst Cons.IH, subst (2) Cons.IH) (simp add: distrib_right)
qed simp

lemma be_value_Nil [simp]: "be_value [] = 0"
  by (simp add: be_value_def)

lemma be_value_Cons [simp]: "be_value (b # bs) = unat b * 256 ^ length bs + be_value bs"
  using foldl_be_acc [of "unat b" bs] by (simp add: be_value_def)

lemma unat_of_nat_byte: "unat (of_nat n :: byte) = n mod 256"
  by (simp add: unat_of_nat)

lemma unat_byte_less [simp]: "unat (b :: byte) < 256"
proof -
  have "unat b < 2 ^ LENGTH(8)" by (rule unsigned_less)
  then show ?thesis by simp
qed

lemma be_value_be_bytes_mod: "be_value (be_bytes k n) = n mod 256 ^ k"
proof (induction k)
  case (Suc k)
  have "n mod 256 ^ Suc k = (n div 256 ^ k) mod 256 * 256 ^ k + n mod 256 ^ k"
    by (metis mod_mult2_eq mult.commute power_Suc)
  then show ?case
    by (simp add: Suc.IH unat_of_nat_byte)
qed simp

lemma be_value_be_bytes [simp]: "n < 256 ^ k \<Longrightarrow> be_value (be_bytes k n) = n"
  by (simp add: be_value_be_bytes_mod)

lemma be_value_bound: "be_value bs < 256 ^ length bs"
proof (induction bs)
  case (Cons b bs)
  have "unat b \<le> 255"
    using unat_byte_less [of b] by linarith
  then have "unat b * 256 ^ length bs + be_value bs < 255 * 256 ^ length bs + 256 ^ length bs"
    using Cons.IH by (meson add_le_less_mono mult_le_mono1)
  then show ?case by simp
qed simp

lemma be_bytes_mod: "be_bytes k (n mod 256 ^ k) = be_bytes k n"
proof -
  have "k \<le> m \<Longrightarrow> be_bytes k (n mod 256 ^ m) = be_bytes k n" for m
  proof (induction k)
    case (Suc k)
    have split: "(256 :: nat) ^ m = 256 ^ k * 256 ^ (m - k)"
      using Suc.prems by (simp add: power_add [symmetric])
    have "n mod 256 ^ m div 256 ^ k = (n div 256 ^ k) mod 256 ^ (m - k)"
      by (simp add: split mod_mult2_eq)
    then have "unat (of_nat (n mod 256 ^ m div 256 ^ k) :: byte)
        = unat (of_nat (n div 256 ^ k) :: byte)"
      using Suc.prems
      by (simp add: unat_of_nat_byte mod_mod_cancel dvd_power_le [of 256 256 1, simplified]
          less_imp_Suc_add)
    then have "(of_nat (n mod 256 ^ m div 256 ^ k) :: byte) = of_nat (n div 256 ^ k)"
      by (simp only: word_unat_eq_iff)
    then show ?case
      using Suc by simp
  qed simp
  then show ?thesis by blast
qed

lemma be_bytes_be_value [simp]: "be_bytes (length bs) (be_value bs) = bs"
proof (induction bs)
  case (Cons b bs)
  let ?n = "unat b * 256 ^ length bs + be_value bs"
  have "?n div 256 ^ length bs = unat b"
    using be_value_bound [of bs] by simp
  moreover have "be_bytes (length bs) ?n = be_bytes (length bs) (be_value bs)"
    using be_bytes_mod [of "length bs" ?n] be_value_bound [of bs] by simp
  ultimately show ?case
    by (simp add: Cons.IH)
qed simp

text \<open>The fixed-width encodings the source uses: \<open>put_u16\<close>, \<open>put_u32\<close>, \<open>to_be_bytes\<close> and \<open>to_le_bytes\<close>.\<close>

definition u16_to_be :: "u16 \<Rightarrow> bytes" where "u16_to_be w = be_bytes 2 (unat w)"
definition u16_of_be :: "bytes \<Rightarrow> u16" where "u16_of_be bs = of_nat (be_value bs)"
definition u32_to_be :: "u32 \<Rightarrow> bytes" where "u32_to_be w = be_bytes 4 (unat w)"
definition u32_of_be :: "bytes \<Rightarrow> u32" where "u32_of_be bs = of_nat (be_value bs)"
definition u64_to_be :: "u64 \<Rightarrow> bytes" where "u64_to_be w = be_bytes 8 (unat w)"
definition u64_of_be :: "bytes \<Rightarrow> u64" where "u64_of_be bs = of_nat (be_value bs)"
definition u64_to_le :: "u64 \<Rightarrow> bytes" where "u64_to_le w = rev (be_bytes 8 (unat w))"
definition u64_of_le :: "bytes \<Rightarrow> u64" where "u64_of_le bs = of_nat (be_value (rev bs))"

lemma unat_word_pow256:
  fixes w :: "'a :: len word"
  assumes "LENGTH('a) = 8 * k"
  shows "unat w < 256 ^ k"
proof -
  have "unat w < 2 ^ LENGTH('a)" by (rule unsigned_less)
  then show ?thesis by (simp add: assms power_mult)
qed

lemma length_u_to_be [simp, wire_simps]:
  "length (u16_to_be a) = 2" "length (u32_to_be b) = 4" "length (u64_to_be c) = 8"
  "length (u64_to_le c) = 8"
  by (simp_all add: u16_to_be_def u32_to_be_def u64_to_be_def u64_to_le_def)

lemma u16_of_to_be [simp, wire_simps]: "u16_of_be (u16_to_be w) = w"
  using unat_word_pow256 [of 2 w] by (simp add: u16_of_be_def u16_to_be_def)

lemma u32_of_to_be [simp, wire_simps]: "u32_of_be (u32_to_be w) = w"
  using unat_word_pow256 [of 4 w] by (simp add: u32_of_be_def u32_to_be_def)

lemma u64_of_to_be [simp, wire_simps]: "u64_of_be (u64_to_be w) = w"
  using unat_word_pow256 [of 8 w] by (simp add: u64_of_be_def u64_to_be_def)

lemma u64_of_to_le [simp, wire_simps]: "u64_of_le (u64_to_le w) = w"
  using unat_word_pow256 [of 8 w] by (simp add: u64_of_le_def u64_to_le_def)

lemma u64_to_of_be [wire_simps]:
  assumes "length bs = 8"
  shows "u64_to_be (u64_of_be bs) = bs"
proof -
  have "be_value bs < 2 ^ 64"
    using be_value_bound [of bs] assms by simp
  then have "unat (of_nat (be_value bs) :: u64) = be_value bs"
    by (simp add: unat_of_nat)
  then show ?thesis
    using be_bytes_be_value [of bs] assms by (simp add: u64_to_be_def u64_of_be_def)
qed

lemma u64_to_of_le [wire_simps]:
  assumes "length bs = 8"
  shows "u64_to_le (u64_of_le bs) = bs"
proof -
  have "u64_to_be (u64_of_be (rev bs)) = rev bs"
    using assms by (simp add: u64_to_of_be)
  then show ?thesis
    by (simp add: u64_to_le_def u64_of_le_def u64_to_be_def u64_of_be_def)
qed

lemma u64_to_be_inj: "u64_to_be a = u64_to_be b \<longleftrightarrow> a = b"
  by (metis u64_of_to_be)

section \<open>Strings\<close>

text \<open>
  A Rust \<open>String\<close> is a sequence of octets that is valid UTF-8. The development uses
  \<open>string\<close>, one character per octet; \<open>string_bytes\<close> is \<open>as_bytes\<close>.
\<close>

definition byte_of_char :: "char \<Rightarrow> byte" where "byte_of_char c = of_nat (of_char c)"
definition char_of_byte :: "byte \<Rightarrow> char" where "char_of_byte b = char_of (unat b)"
definition string_bytes :: "string \<Rightarrow> bytes" where "string_bytes s = map byte_of_char s"
definition bytes_string :: "bytes \<Rightarrow> string" where "bytes_string bs = map char_of_byte bs"

lemma char_of_byte_of_char [simp]: "char_of_byte (byte_of_char c) = c"
proof -
  have "(of_char c :: nat) < 256" by simp
  then show ?thesis by (simp add: char_of_byte_def byte_of_char_def unat_of_nat)
qed

lemma byte_of_char_of_byte [simp]: "byte_of_char (char_of_byte b) = b"
  by (simp add: char_of_byte_def byte_of_char_def)

lemma length_bytes_string [simp]: "length (bytes_string bs) = length bs"
  by (simp add: bytes_string_def)

lemma bytes_string_bytes [simp, wire_simps]: "bytes_string (string_bytes s) = s"
  by (simp add: bytes_string_def string_bytes_def comp_def)

lemma string_bytes_string [simp, wire_simps]: "string_bytes (bytes_string bs) = bs"
  by (simp add: bytes_string_def string_bytes_def comp_def)

lemma length_string_bytes [simp, wire_simps]: "length (string_bytes s) = length s"
  by (simp add: string_bytes_def)

text \<open>Decimal digits, as \<open>Display\<close> writes an unsigned integer.\<close>

fun show_nat :: "nat \<Rightarrow> string" where
  "show_nat n = (if n < 10 then [char_of (48 + n)] else show_nat (n div 10) @ [char_of (48 + n mod 10)])"

declare show_nat.simps [simp del]

text \<open>UTF-8 validity, the acceptance condition of \<open>std::str::from_utf8\<close> (RFC 3629).\<close>

definition utf8_cont :: "byte \<Rightarrow> bool" where
  "utf8_cont b \<longleftrightarrow> 0x80 \<le> b \<and> b \<le> 0xBF"

fun utf8_valid :: "bytes \<Rightarrow> bool" where
  "utf8_valid [] = True"
| "utf8_valid (b0 # bs) =
    (if b0 < 0x80 then utf8_valid bs
     else if 0xC2 \<le> b0 \<and> b0 \<le> 0xDF then
       (case bs of b1 # r \<Rightarrow> utf8_cont b1 \<and> utf8_valid r | _ \<Rightarrow> False)
     else if 0xE0 \<le> b0 \<and> b0 \<le> 0xEF then
       (case bs of b1 # b2 # r \<Rightarrow>
            (if b0 = 0xE0 then 0xA0 \<le> b1 \<and> b1 \<le> 0xBF
             else if b0 = 0xED then 0x80 \<le> b1 \<and> b1 \<le> 0x9F
             else utf8_cont b1) \<and> utf8_cont b2 \<and> utf8_valid r
        | _ \<Rightarrow> False)
     else if 0xF0 \<le> b0 \<and> b0 \<le> 0xF4 then
       (case bs of b1 # b2 # b3 # r \<Rightarrow>
            (if b0 = 0xF0 then 0x90 \<le> b1 \<and> b1 \<le> 0xBF
             else if b0 = 0xF4 then 0x80 \<le> b1 \<and> b1 \<le> 0x8F
             else utf8_cont b1) \<and> utf8_cont b2 \<and> utf8_cont b3 \<and> utf8_valid r
        | _ \<Rightarrow> False)
     else False)"

lemma utf8_valid_ascii: "\<forall>b \<in> set bs. b < 0x80 \<Longrightarrow> utf8_valid bs"
  by (induction bs) auto

section \<open>Bounded channels\<close>

text \<open>
  A \<open>tokio::sync::mpsc\<close> channel: the queued items, the capacity given at creation and whether
  the receiving half is still open. \<open>try_send\<close> never blocks.
\<close>

record 'a chan =
  chan_items :: "'a list"
  chan_cap :: nat
  chan_open :: bool

datatype try_send_error = TrySendFull | TrySendClosed

definition chan_new :: "nat \<Rightarrow> 'a chan" where
  "chan_new n = \<lparr>chan_items = [], chan_cap = n, chan_open = True\<rparr>"

definition try_send :: "'a \<Rightarrow> 'a chan \<Rightarrow> (try_send_error + unit) \<times> 'a chan" where
  "try_send x c =
     (if \<not> chan_open c then (Inl TrySendClosed, c)
      else if chan_cap c \<le> length (chan_items c) then (Inl TrySendFull, c)
      else (Inr (), c\<lparr>chan_items := chan_items c @ [x]\<rparr>))"

definition recv :: "'a chan \<Rightarrow> 'a option \<times> 'a chan" where
  "recv c = (case chan_items c of [] \<Rightarrow> (None, c) | x # xs \<Rightarrow> (Some x, c\<lparr>chan_items := xs\<rparr>))"

definition chan_ok :: "'a chan \<Rightarrow> bool" where
  "chan_ok c \<longleftrightarrow> length (chan_items c) \<le> chan_cap c"

lemma chan_ok_new [simp, chan_simps]: "chan_ok (chan_new n)"
  by (simp add: chan_ok_def chan_new_def)

lemma chan_ok_try_send [simp, chan_simps]: "chan_ok c \<Longrightarrow> chan_ok (snd (try_send x c))"
  by (auto simp: chan_ok_def try_send_def)

lemma chan_ok_recv [simp, chan_simps]: "chan_ok c \<Longrightarrow> chan_ok (snd (recv c))"
  by (auto simp: chan_ok_def recv_def split: list.splits)

lemma try_send_items [chan_simps]:
  "chan_items (snd (try_send x c)) =
     chan_items c @ (if fst (try_send x c) = Inr () then [x] else [])"
  by (simp add: try_send_def)

lemma try_send_Inr_iff [chan_simps]:
  "fst (try_send x c) = Inr () \<longleftrightarrow> chan_open c \<and> length (chan_items c) < chan_cap c"
  by (auto simp: try_send_def)

section \<open>Association lists\<close>

text \<open>
  Hash maps and ordered maps whose iteration the source observes are association lists with
  distinct keys; \<open>map_of\<close> is the lookup.
\<close>

fun al_update :: "'k \<Rightarrow> 'v \<Rightarrow> ('k \<times> 'v) list \<Rightarrow> ('k \<times> 'v) list" where
  "al_update k v [] = [(k, v)]"
| "al_update k v ((k', v') # m) = (if k' = k then (k, v) # m else (k', v') # al_update k v m)"

definition al_remove :: "'k \<Rightarrow> ('k \<times> 'v) list \<Rightarrow> ('k \<times> 'v) list" where
  "al_remove k m = filter (\<lambda>(k', _). k' \<noteq> k) m"

abbreviation al_keys :: "('k \<times> 'v) list \<Rightarrow> 'k list" where
  "al_keys m \<equiv> map fst m"

lemma map_of_al_update [simp]: "map_of (al_update k v m) = (map_of m)(k \<mapsto> v)"
  by (induction m) (auto simp: fun_eq_iff)

lemma map_of_al_remove [simp]: "map_of (al_remove k m) = (map_of m)(k := None)"
  by (induction m) (auto simp: al_remove_def fun_eq_iff)

lemma set_al_keys_update [simp]: "fst ` set (al_update k v m) = insert k (fst ` set m)"
  by (induction k v m rule: al_update.induct) (simp_all add: insert_commute)

lemma distinct_al_update [simp]: "distinct (al_keys m) \<Longrightarrow> distinct (al_keys (al_update k v m))"
  by (induction k v m rule: al_update.induct) auto

lemma distinct_al_remove [simp]: "distinct (al_keys m) \<Longrightarrow> distinct (al_keys (al_remove k m))"
  by (induction m) (auto simp: al_remove_def)

lemma length_al_update:
  "length (al_update k v m) = (if k \<in> fst ` set m then length m else Suc (length m))"
  by (induction k v m rule: al_update.induct) simp_all

lemma al_update_entries: "set (al_update k v m) \<subseteq> insert (k, v) (set m)"
  by (induction k v m rule: al_update.induct) auto

lemma al_update_entries_distinct:
  "distinct (al_keys m) \<Longrightarrow> set (al_update k v m) = insert (k, v) {p \<in> set m. fst p \<noteq> k}"
  by (induction k v m rule: al_update.induct) (auto simp: rev_image_eqI)

lemma sum_al_update:
  fixes g :: "'v \<Rightarrow> nat"
  shows "sum_list (map (\<lambda>p. g (snd p)) (al_update k v m)) + (case map_of m k of None \<Rightarrow> 0 | Some u \<Rightarrow> g u)
     = sum_list (map (\<lambda>p. g (snd p)) m) + g v"
  by (induction k v m rule: al_update.induct) auto

lemma al_remove_absent: "k \<notin> fst ` set m \<Longrightarrow> al_remove k m = m"
  by (induction m) (auto simp: al_remove_def)

lemma sum_al_remove:
  fixes g :: "'v \<Rightarrow> nat"
  assumes "distinct (al_keys m)"
  shows "sum_list (map (\<lambda>p. g (snd p)) (al_remove k m)) + (case map_of m k of None \<Rightarrow> 0 | Some u \<Rightarrow> g u)
     = sum_list (map (\<lambda>p. g (snd p)) m)"
  using assms
proof (induction m)
  case (Cons p m)
  then show ?case
    using al_remove_absent [of k m] by (cases p) (auto simp: al_remove_def)
qed (simp add: al_remove_def)

lemma find_Some_iff_mem:
  "distinct (map f xs) \<Longrightarrow> find (\<lambda>x. f x = k) xs = Some y \<longleftrightarrow> y \<in> set xs \<and> f y = k"
  by (induction xs) (auto simp: image_iff)

lemma al_entries_split:
  assumes "distinct (al_keys m)" "map_of m k = Some v"
  shows "set m = insert (k, v) {p \<in> set m. fst p \<noteq> k}"
proof -
  have "p = (k, v)" if "p \<in> set m" "fst p = k" for p
    using that assms by (metis map_of_is_SomeI option.inject prod.collapse)
  moreover have "(k, v) \<in> set m" using assms(2) by (rule map_of_SomeD)
  ultimately show ?thesis by blast
qed

lemma al_remove_entries: "set (al_remove k m) = {p \<in> set m. fst p \<noteq> k}"
  by (auto simp: al_remove_def)

lemma length_al_remove:
  "distinct (al_keys m) \<Longrightarrow> map_of m k = Some v \<Longrightarrow> length m = Suc (length (al_remove k m))"
proof (induction m)
  case (Cons p m)
  then show ?case using al_remove_absent [of k m] by (cases p) (auto simp: al_remove_def)
qed simp

end
