(* ===== verification/Frame_Type.thy ===== *)
theory Frame_Type
  imports Nexa_Prelude
begin

text \<open>
  The frame types shared by the handshake and the send/recv protocol of the relay
  (\<open>iroh-relay/src/protos/common.rs\<close>) and the relay protocol versions
  (\<open>iroh-relay/src/http.rs\<close>). The QUIC variable-length integer codec belongs to \<open>noq_proto\<close>:
  it is a parameter, a record of an encoder and a decoder.
\<close>

section \<open>The variable-length integer codec\<close>

record varint_lib =
  vi_encode :: "u64 \<Rightarrow> bytes"
  vi_decode :: "bytes \<Rightarrow> (u64 \<times> bytes) option"

text \<open>
  What RFC 9000, section 16, documents: values below $2^{62}$ are written in 1, 2, 4 or 8
  octets, the shortest that fits, and reading what was written gives the value back and leaves
  the rest of the buffer untouched; an empty buffer cannot be decoded.
\<close>

definition varint_size :: "u64 \<Rightarrow> nat" where
  "varint_size v = (if unat v < 2 ^ 6 then 1 else if unat v < 2 ^ 14 then 2
                    else if unat v < 2 ^ 30 then 4 else 8)"

definition varint_ok :: "varint_lib \<Rightarrow> bool" where
  "varint_ok V \<longleftrightarrow>
     (\<forall>v rest. unat v < 2 ^ 62 \<longrightarrow> vi_decode V (vi_encode V v @ rest) = Some (v, rest)) \<and>
     (\<forall>v. unat v < 2 ^ 62 \<longrightarrow> length (vi_encode V v) = varint_size v) \<and>
     vi_decode V [] = None"

lemma varint_ok_roundtrip [wire_simps]:
  "varint_ok V \<Longrightarrow> unat v < 2 ^ 62 \<Longrightarrow> vi_decode V (vi_encode V v @ rest) = Some (v, rest)"
  by (simp add: varint_ok_def)

lemma varint_ok_size [wire_simps]:
  "varint_ok V \<Longrightarrow> unat v < 2 ^ 62 \<Longrightarrow> length (vi_encode V v) = varint_size v"
  by (simp add: varint_ok_def)

lemma varint_ok_empty: "varint_ok V \<Longrightarrow> vi_decode V [] = None"
  by (simp add: varint_ok_def)

text \<open>
  The RFC's encoding as a concrete instance of the parameter: the two most significant bits
  of the first octet give the length, the rest is the value in network byte order.
\<close>

definition rfc9000_encode :: "u64 \<Rightarrow> bytes" where
  "rfc9000_encode v =
     (let n = unat v in
      if n < 2 ^ 6 then be_bytes 1 n
      else if n < 2 ^ 14 then be_bytes 2 (n + 1 * 2 ^ 14)
      else if n < 2 ^ 30 then be_bytes 4 (n + 2 * 2 ^ 30)
      else be_bytes 8 (n + 3 * 2 ^ 62))"

definition rfc9000_decode :: "bytes \<Rightarrow> (u64 \<times> bytes) option" where
  "rfc9000_decode bs =
     (case bs of [] \<Rightarrow> None
      | b # _ \<Rightarrow>
        (let tag = unat b div 64; k = 2 ^ tag in
         if length bs < k then None
         else Some (of_nat (be_value (take k bs) mod 2 ^ (8 * k - 2)), drop k bs)))"

definition rfc9000_varint :: varint_lib where
  "rfc9000_varint = \<lparr>vi_encode = rfc9000_encode, vi_decode = rfc9000_decode\<rparr>"

lemma rfc9000_decode_append:
  assumes tag: "unat b div 64 = tag" and len: "length (b # bs) = 2 ^ tag"
  shows "rfc9000_decode ((b # bs) @ rest)
           = Some (of_nat (be_value (b # bs) mod 2 ^ (8 * 2 ^ tag - 2)), rest)"
proof -
  have "take (2 ^ tag) ((b # bs) @ rest) = b # bs" "drop (2 ^ tag) ((b # bs) @ rest) = rest"
    unfolding len [symmetric] by simp_all
  moreover have "\<not> length ((b # bs) @ rest) < 2 ^ tag"
    unfolding len [symmetric] by simp
  ultimately show ?thesis
    by (simp only: rfc9000_decode_def append_Cons list.case Let_def tag if_False)
qed

lemma rfc9000_decode_be:
  assumes k: "k = 2 ^ tag" and tag: "tag < 4" and n: "n < 2 ^ (8 * k - 2)"
  shows "rfc9000_decode (be_bytes k (n + tag * 2 ^ (8 * k - 2)) @ rest)
           = Some (of_nat n, rest)"
proof -
  let ?m = "n + tag * 2 ^ (8 * k - 2)"
  obtain j where j: "k = Suc j"
    using k by (metis not0_implies_Suc power_not_zero zero_neq_numeral)
  have e: "8 * k - 2 = 8 * j + 6" by (simp add: j)
  have bound: "?m < 256 ^ k"
  proof -
    have "?m < (tag + 1) * 2 ^ (8 * k - 2)" using n by simp
    also have "\<dots> \<le> 4 * 2 ^ (8 * k - 2)" using tag by (intro mult_right_mono) auto
    also have "\<dots> = 2 ^ (8 * k)" by (simp add: j power_add)
    also have "\<dots> = (256 :: nat) ^ k" by (simp add: power_mult)
    finally show ?thesis .
  qed
  have pj: "(256 :: nat) ^ j = 2 ^ (8 * j)" by (simp add: power_mult)
  have "?m div 256 ^ j = n div 2 ^ (8 * j) + tag * 64"
    by (simp add: e pj power_add div_mult_self2 mult.left_commute [of tag])
  moreover have "n < 64 * 2 ^ (8 * j)"
    using n unfolding e by (simp add: power_add)
  then have "n div 2 ^ (8 * j) < 64"
    by (rule less_mult_imp_div_less)
  ultimately have hd: "?m div 256 ^ j div 64 = tag" "?m div 256 ^ j < 256"
    using tag by simp_all
  then have "unat (of_nat (?m div 256 ^ j) :: byte) div 64 = tag"
    by (simp add: unat_of_nat_byte)
  moreover have "length (of_nat (?m div 256 ^ j) # be_bytes j ?m) = 2 ^ tag"
    using j k by simp
  ultimately have "rfc9000_decode ((of_nat (?m div 256 ^ j) # be_bytes j ?m) @ rest)
      = Some (of_nat (be_value (of_nat (?m div 256 ^ j) # be_bytes j ?m) mod 2 ^ (8 * k - 2)), rest)"
    unfolding k by (rule rfc9000_decode_append)
  moreover have "of_nat (?m div 256 ^ j) # be_bytes j ?m = be_bytes k ?m"
    unfolding j by simp
  ultimately have "rfc9000_decode (be_bytes k ?m @ rest)
      = Some (of_nat (be_value (be_bytes k ?m) mod 2 ^ (8 * k - 2)), rest)"
    by simp
  then show ?thesis
    unfolding be_value_be_bytes [OF bound] using n by simp
qed

lemma rfc9000_varint_ok: "varint_ok rfc9000_varint"
proof -
  have "rfc9000_decode (rfc9000_encode v @ rest) = Some (v, rest)"
    if v: "unat v < 2 ^ 62" for v rest
  proof -
    have c1: "unat v < 2 ^ 6 \<Longrightarrow> ?thesis"
      using rfc9000_decode_be [of 1 0 "unat v" rest] by (simp add: rfc9000_encode_def)
    have c2: "\<not> unat v < 2 ^ 6 \<Longrightarrow> unat v < 2 ^ 14 \<Longrightarrow> ?thesis"
      using rfc9000_decode_be [of 2 1 "unat v" rest] by (simp add: rfc9000_encode_def)
    have c3: "\<not> unat v < 2 ^ 14 \<Longrightarrow> unat v < 2 ^ 30 \<Longrightarrow> ?thesis"
      using rfc9000_decode_be [of 4 2 "unat v" rest] by (simp add: rfc9000_encode_def)
    have c4: "\<not> unat v < 2 ^ 30 \<Longrightarrow> ?thesis"
      using rfc9000_decode_be [of 8 3 "unat v" rest] v by (simp add: rfc9000_encode_def)
    show ?thesis using c1 c2 c3 c4 by blast
  qed
  moreover have "length (rfc9000_encode v) = varint_size v" for v
    by (simp add: rfc9000_encode_def varint_size_def Let_def)
  ultimately show ?thesis
    by (simp add: varint_ok_def rfc9000_varint_def rfc9000_decode_def)
qed

section \<open>Frame types\<close>

datatype frame_type =
    FT_ServerChallenge | FT_ClientAuth | FT_ServerConfirmsAuth | FT_ServerDeniesAuth
  | FT_ClientToRelayDatagram | FT_ClientToRelayDatagramBatch
  | FT_RelayToClientDatagram | FT_RelayToClientDatagramBatch
  | FT_EndpointGone | FT_Ping | FT_Pong | FT_Health | FT_Restarting | FT_Status

text \<open>The discriminants of the \<open>repr(u32)\<close> enumeration and \<open>from_repr\<close>, their inverse.\<close>

fun frame_type_repr :: "frame_type \<Rightarrow> u32" where
  "frame_type_repr FT_ServerChallenge = 0"
| "frame_type_repr FT_ClientAuth = 1"
| "frame_type_repr FT_ServerConfirmsAuth = 2"
| "frame_type_repr FT_ServerDeniesAuth = 3"
| "frame_type_repr FT_ClientToRelayDatagram = 4"
| "frame_type_repr FT_ClientToRelayDatagramBatch = 5"
| "frame_type_repr FT_RelayToClientDatagram = 6"
| "frame_type_repr FT_RelayToClientDatagramBatch = 7"
| "frame_type_repr FT_EndpointGone = 8"
| "frame_type_repr FT_Ping = 9"
| "frame_type_repr FT_Pong = 10"
| "frame_type_repr FT_Health = 11"
| "frame_type_repr FT_Restarting = 12"
| "frame_type_repr FT_Status = 13"

definition all_frame_types :: "frame_type list" where
  "all_frame_types =
     [FT_ServerChallenge, FT_ClientAuth, FT_ServerConfirmsAuth, FT_ServerDeniesAuth,
      FT_ClientToRelayDatagram, FT_ClientToRelayDatagramBatch, FT_RelayToClientDatagram,
      FT_RelayToClientDatagramBatch, FT_EndpointGone, FT_Ping, FT_Pong, FT_Health,
      FT_Restarting, FT_Status]"

definition frame_type_from_repr :: "u32 \<Rightarrow> frame_type option" where
  "frame_type_from_repr n = List.find (\<lambda>t. frame_type_repr t = n) all_frame_types"

lemma frame_type_from_repr [simp]: "frame_type_from_repr (frame_type_repr t) = Some t"
  by (cases t) (simp_all add: frame_type_from_repr_def all_frame_types_def)

lemma frame_type_from_reprD: "frame_type_from_repr n = Some t \<Longrightarrow> frame_type_repr t = n"
  by (auto simp: frame_type_from_repr_def find_Some_iff)

lemma frame_type_repr_small: "unat (frame_type_repr t) < 14"
  by (cases t) simp_all

datatype frame_type_error =
    FTE_UnexpectedEnd
  | FTE_UnknownFrameType u64

text \<open>\<open>VarInt::from\<close> widens the discriminant; \<open>FrameType::write_to\<close> appends its encoding.\<close>

definition varint_of_frame_type :: "frame_type \<Rightarrow> u64" where
  "varint_of_frame_type t = ucast (frame_type_repr t)"

definition frame_type_write_to :: "varint_lib \<Rightarrow> frame_type \<Rightarrow> bytes \<Rightarrow> bytes" where
  "frame_type_write_to V t dst = dst @ vi_encode V (varint_of_frame_type t)"

text \<open>\<open>None\<close> is the \<open>unreachable!\<close> of the source.\<close>

definition frame_type_encoded_len :: "frame_type \<Rightarrow> nat option" where
  "frame_type_encoded_len t =
     (let x = frame_type_repr t in
      if x < 2 ^ 6 then Some 1
      else if x < 2 ^ 14 then Some 2
      else if x < 2 ^ 30 then Some 4
      else None)"

definition frame_type_from_bytes ::
  "varint_lib \<Rightarrow> bytes \<Rightarrow> frame_type_error + (frame_type \<times> bytes)" where
  "frame_type_from_bytes V buf =
     (case vi_decode V buf of
        None \<Rightarrow> Inl FTE_UnexpectedEnd
      | Some (tag, rest) \<Rightarrow>
         (if 2 ^ 32 \<le> unat tag then Inl (FTE_UnknownFrameType tag)
          else case frame_type_from_repr (ucast tag) of
                 None \<Rightarrow> Inl (FTE_UnknownFrameType tag)
               | Some t \<Rightarrow> Inr (t, rest)))"

lemma unat_varint_of_frame_type [simp]:
  "unat (varint_of_frame_type t) = unat (frame_type_repr t)"
  by (cases t) (simp_all add: varint_of_frame_type_def)

lemma ucast_varint_of_frame_type [simp]:
  "ucast (varint_of_frame_type t) = frame_type_repr t"
  by (cases t) (simp_all add: varint_of_frame_type_def)

lemma varint_of_frame_type_small: "unat (varint_of_frame_type t) < 2 ^ 62"
  using frame_type_repr_small [of t] by simp

lemma frame_type_encoded_len [simp]: "frame_type_encoded_len t = Some 1"
  by (cases t) (simp_all add: frame_type_encoded_len_def)

lemma length_frame_type_encoding [wire_simps]:
  assumes "varint_ok V"
  shows "length (vi_encode V (varint_of_frame_type t)) = 1"
proof -
  have "unat (varint_of_frame_type t) < 64"
    using frame_type_repr_small [of t] by simp
  then show ?thesis
    using varint_ok_size [OF assms varint_of_frame_type_small [of t]]
    by (simp add: varint_size_def)
qed

lemma frame_type_roundtrip [wire_simps]:
  assumes "varint_ok V"
  shows "frame_type_from_bytes V (vi_encode V (varint_of_frame_type t) @ rest) = Inr (t, rest)"
  using varint_ok_roundtrip [OF assms varint_of_frame_type_small [of t], of rest]
    frame_type_repr_small [of t]
  by (simp add: frame_type_from_bytes_def)

section \<open>Protocol versions\<close>

datatype protocol_version = V1 | V2

instantiation protocol_version :: linorder
begin
definition less_eq_protocol_version :: "protocol_version \<Rightarrow> protocol_version \<Rightarrow> bool" where
  "less_eq_protocol_version a b \<longleftrightarrow> a = V1 \<or> b = V2"
definition less_protocol_version :: "protocol_version \<Rightarrow> protocol_version \<Rightarrow> bool" where
  "less_protocol_version a b \<longleftrightarrow> a = V1 \<and> b = V2"
instance
proof
  fix x y z :: protocol_version
  show "(x < y) = (x \<le> y \<and> \<not> y \<le> x)"
    by (cases x; cases y) (auto simp: less_eq_protocol_version_def less_protocol_version_def)
  show "x \<le> x"
    by (cases x) (auto simp: less_eq_protocol_version_def)
  show "x \<le> y \<Longrightarrow> y \<le> z \<Longrightarrow> x \<le> z"
    by (auto simp: less_eq_protocol_version_def)
  show "x \<le> y \<Longrightarrow> y \<le> x \<Longrightarrow> x = y"
    by (cases x; cases y) (auto simp: less_eq_protocol_version_def)
  show "x \<le> y \<or> y \<le> x"
    by (cases x; cases y) (auto simp: less_eq_protocol_version_def)
qed
end

definition protocol_version_default :: protocol_version where
  "protocol_version_default = V2"

definition protocol_version_ALL :: "protocol_version list" where
  "protocol_version_ALL = [V2, V1]"

fun protocol_version_to_str :: "protocol_version \<Rightarrow> string" where
  "protocol_version_to_str V1 = ''iroh-relay-v1''"
| "protocol_version_to_str V2 = ''iroh-relay-v2''"

definition protocol_version_match_from_str :: "string \<Rightarrow> protocol_version option" where
  "protocol_version_match_from_str s =
     (if s = ''iroh-relay-v1'' then Some V1
      else if s = ''iroh-relay-v2'' then Some V2 else None)"

fun join_str :: "string \<Rightarrow> string list \<Rightarrow> string" where
  "join_str sep [] = []"
| "join_str sep [x] = x"
| "join_str sep (x # y # xs) = x @ sep @ join_str sep (y # xs)"

definition protocol_version_all_joined :: string where
  "protocol_version_all_joined =
     join_str '', '' (map protocol_version_to_str protocol_version_ALL)"

lemma protocol_version_roundtrip:
  "protocol_version_match_from_str (protocol_version_to_str v) = Some v"
  by (cases v) (simp_all add: protocol_version_match_from_str_def)

lemma protocol_version_ALL_exhaustive:
  "set protocol_version_ALL = UNIV \<and> sorted (rev protocol_version_ALL)"
proof -
  have "UNIV = {V1, V2}"
    using protocol_version.exhaust by blast
  then show ?thesis
    by (auto simp: protocol_version_ALL_def less_eq_protocol_version_def)
qed

end
