(* ===== verification/Keys.thy ===== *)
theory Keys
  imports Nexa_Prelude
begin

text \<open>
  Public keys, secret keys and signatures (\<open>iroh-base/src/key.rs\<close>). Curve arithmetic
  (\<open>ed25519_dalek\<close>) and the text encodings (\<open>data_encoding\<close>) are third-party: each is a record of
  functions, with what its documentation promises as a predicate on the record.
\<close>

type_synonym public_key = bytes
type_synonym endpoint_id = bytes
type_synonym secret_key = bytes
type_synonym signature = bytes

section \<open>Third-party interfaces\<close>

record ed25519 =
  vk_from_bytes :: "bytes \<Rightarrow> bytes option"
  vk_verify_strict :: "bytes \<Rightarrow> bytes \<Rightarrow> bytes \<Rightarrow> bool"
  sk_verifying_key :: "bytes \<Rightarrow> bytes"
  sk_sign :: "bytes \<Rightarrow> bytes \<Rightarrow> bytes"

text \<open>
  Documented behaviour of \<open>ed25519_dalek\<close>: a verifying key keeps the 32 octets it was parsed
  from; the verifying key of any 32-octet secret is a valid one; signatures have 64 octets and
  verify under the signer's own key.
\<close>

definition ed25519_ok :: "ed25519 \<Rightarrow> bool" where
  "ed25519_ok C \<longleftrightarrow>
     (\<forall>b k. vk_from_bytes C b = Some k \<longrightarrow> k = b \<and> length b = 32) \<and>
     (\<forall>sk. length sk = 32 \<longrightarrow>
        vk_from_bytes C (sk_verifying_key C sk) = Some (sk_verifying_key C sk)) \<and>
     (\<forall>sk m. length sk = 32 \<longrightarrow> length (sk_sign C sk m) = 64 \<and>
        vk_verify_strict C (sk_verifying_key C sk) m (sk_sign C sk m))"

record text_encodings =
  hex_encode :: "bytes \<Rightarrow> string"
  hex_decode :: "string \<Rightarrow> bytes option"
  base32_decode_len :: "nat \<Rightarrow> nat option"
  base32_decode :: "string \<Rightarrow> bytes option"
  z32_encode :: "bytes \<Rightarrow> string"
  z32_decode :: "string \<Rightarrow> bytes option"

text \<open>
  Documented behaviour of \<open>data_encoding\<close>: decoding inverts encoding, lower-case hexadecimal
  writes two of its sixteen digits per octet, and a decoded base-32 input has the announced length.
\<close>

definition text_encodings_ok :: "text_encodings \<Rightarrow> bool" where
  "text_encodings_ok T \<longleftrightarrow>
     (\<forall>b. hex_decode T (hex_encode T b) = Some b) \<and>
     (\<forall>b. length (hex_encode T b) = 2 * length b) \<and>
     (\<forall>b. set (hex_encode T b) \<subseteq> set ''0123456789abcdef'') \<and>
     (\<forall>s b. hex_decode T s = Some b \<longrightarrow> 2 * length b = length s) \<and>
     (\<forall>s b n. base32_decode T s = Some b \<longrightarrow> base32_decode_len T (length s) = Some n \<longrightarrow> length b = n) \<and>
     (\<forall>b. z32_decode T (z32_encode T b) = Some b)"

section \<open>Keys\<close>

datatype key_parsing_error =
  FailedToDecodeHex | FailedToDecodeBase32 | InvalidLength | InvalidKeyData

definition PUBLIC_KEY_LENGTH :: nat where "PUBLIC_KEY_LENGTH = 32"
definition SIGNATURE_LENGTH :: nat where "SIGNATURE_LENGTH = 64"

definition key_valid :: "ed25519 \<Rightarrow> public_key \<Rightarrow> bool" where
  "key_valid C k \<longleftrightarrow> vk_from_bytes C k = Some k \<and> length k = PUBLIC_KEY_LENGTH"

definition public_key_from_bytes :: "ed25519 \<Rightarrow> bytes \<Rightarrow> key_parsing_error + public_key" where
  "public_key_from_bytes C b = ok_or InvalidKeyData (vk_from_bytes C b)"

definition public_key_try_from :: "ed25519 \<Rightarrow> bytes \<Rightarrow> key_parsing_error + public_key" where
  "public_key_try_from C b =
     (if length b = PUBLIC_KEY_LENGTH then ok_or InvalidKeyData (vk_from_bytes C b)
      else Inl InvalidKeyData)"

text \<open>\<open>None\<close> is the panic of \<open>as_verifying_key\<close> on octets that are not a key.\<close>

definition public_key_verify :: "ed25519 \<Rightarrow> public_key \<Rightarrow> bytes \<Rightarrow> signature \<Rightarrow> bool option" where
  "public_key_verify C k message sig =
     (case vk_from_bytes C k of
        None \<Rightarrow> None
      | Some vk \<Rightarrow> Some (vk_verify_strict C vk message sig))"

definition public_key_to_z32 :: "text_encodings \<Rightarrow> public_key \<Rightarrow> string" where
  "public_key_to_z32 T k = z32_encode T k"

definition public_key_from_z32 ::
  "ed25519 \<Rightarrow> text_encodings \<Rightarrow> string \<Rightarrow> key_parsing_error + public_key" where
  "public_key_from_z32 C T s =
     and_then (ok_or FailedToDecodeBase32 (z32_decode T s)) (public_key_try_from C)"

definition public_key_display :: "text_encodings \<Rightarrow> public_key \<Rightarrow> string" where
  "public_key_display T k = hex_encode T k"

definition public_key_fmt_short :: "text_encodings \<Rightarrow> public_key \<Rightarrow> string" where
  "public_key_fmt_short T k = hex_encode T (take 5 k)"

definition to_ascii_uppercase :: "string \<Rightarrow> string" where
  "to_ascii_uppercase s =
     map (\<lambda>c. let n = of_char c :: nat in
              if 97 \<le> n \<and> n \<le> 122 then char_of (n - 32) else c) s"

definition decode_base32_hex :: "text_encodings \<Rightarrow> string \<Rightarrow> key_parsing_error + bytes" where
  "decode_base32_hex T s =
     and_then
       (if length s = PUBLIC_KEY_LENGTH * 2 then ok_or FailedToDecodeHex (hex_decode T s)
        else
          let input = to_ascii_uppercase s in
          if base32_decode_len T (length input) = Some 32
          then ok_or FailedToDecodeBase32 (base32_decode T input)
          else Inl InvalidLength)
       (\<lambda>b. if length b = PUBLIC_KEY_LENGTH then Inr b else Inl InvalidLength)"

definition public_key_from_str ::
  "ed25519 \<Rightarrow> text_encodings \<Rightarrow> string \<Rightarrow> key_parsing_error + public_key" where
  "public_key_from_str C T s = and_then (decode_base32_hex T s) (public_key_from_bytes C)"

definition secret_key_public :: "ed25519 \<Rightarrow> secret_key \<Rightarrow> public_key" where
  "secret_key_public C sk = sk_verifying_key C sk"

definition secret_key_sign :: "ed25519 \<Rightarrow> secret_key \<Rightarrow> bytes \<Rightarrow> signature" where
  "secret_key_sign C sk msg = sk_sign C sk msg"

definition secret_key_from_str :: "text_encodings \<Rightarrow> string \<Rightarrow> key_parsing_error + secret_key" where
  "secret_key_from_str T s = decode_base32_hex T s"

definition secret_key_try_from :: "bytes \<Rightarrow> key_parsing_error + secret_key" where
  "secret_key_try_from b = (if length b = 32 then Inr b else Inl InvalidLength)"

definition signature_try_from :: "bytes \<Rightarrow> unit + signature" where
  "signature_try_from b = (if length b = SIGNATURE_LENGTH then Inr b else Inl ())"

lemma public_key_try_from_valid [simp]:
  "key_valid C k \<Longrightarrow> public_key_try_from C k = Inr k"
  by (simp add: public_key_try_from_def key_valid_def)

lemma public_key_try_from_InrD:
  "ed25519_ok C \<Longrightarrow> public_key_try_from C b = Inr k \<Longrightarrow> k = b \<and> key_valid C k"
  by (auto simp: public_key_try_from_def key_valid_def ed25519_ok_def split: if_splits)

lemma public_key_from_bytes_eq_try_from:
  "length b = PUBLIC_KEY_LENGTH \<Longrightarrow> public_key_from_bytes C b = public_key_try_from C b"
  by (simp add: public_key_from_bytes_def public_key_try_from_def)

lemma secret_key_public_valid:
  "ed25519_ok C \<Longrightarrow> length sk = 32 \<Longrightarrow> key_valid C (secret_key_public C sk)"
  unfolding ed25519_ok_def key_valid_def secret_key_public_def PUBLIC_KEY_LENGTH_def by blast

lemma public_key_verify_own_signature:
  "ed25519_ok C \<Longrightarrow> length sk = 32 \<Longrightarrow>
     public_key_verify C (secret_key_public C sk) m (secret_key_sign C sk m) = Some True"
  unfolding ed25519_ok_def public_key_verify_def secret_key_public_def secret_key_sign_def
  by auto

lemma public_key_verify_total:
  "key_valid C k \<Longrightarrow> public_key_verify C k m s \<noteq> None"
  by (simp add: key_valid_def public_key_verify_def)

end
