(* ===== verification/Key_Cache.thy ===== *)
theory Key_Cache
  imports Keys
begin

text \<open>
  The cache of parsed public keys (\<open>iroh-relay/src/key_cache.rs\<close>). The cache is shared behind a
  mutex, so an operation takes the cache and returns the updated one.
\<close>

section \<open>The LRU container\<close>

record 'c lru_lib =
  lru_new :: "nat \<Rightarrow> 'c"
  lru_get_key_value :: "'c \<Rightarrow> bytes \<Rightarrow> bytes option \<times> 'c"
  lru_put :: "'c \<Rightarrow> bytes \<Rightarrow> 'c"
  lru_contains :: "'c \<Rightarrow> bytes \<Rightarrow> bool"

text \<open>
  Documented behaviour of \<open>lru::LruCache\<close>: a new cache is empty, a lookup returns a stored key
  equal to the one asked for and keeps the contents, and \<open>put\<close> adds at most the given key.
\<close>

definition lru_ok :: "'c lru_lib \<Rightarrow> bool" where
  "lru_ok L \<longleftrightarrow>
     (\<forall>n k. \<not> lru_contains L (lru_new L n) k) \<and>
     (\<forall>c k. fst (lru_get_key_value L c k) = (if lru_contains L c k then Some k else None)) \<and>
     (\<forall>c k k'. lru_contains L (snd (lru_get_key_value L c k)) k' = lru_contains L c k') \<and>
     (\<forall>c k k'. lru_contains L (lru_put L c k) k' \<longrightarrow> k' = k \<or> lru_contains L c k')"

text \<open>A concrete LRU container: the stored keys, most recently used first, and the capacity.\<close>

type_synonym list_lru = "nat \<times> bytes list"

definition list_lru_lib :: "list_lru lru_lib" where
  "list_lru_lib =
     \<lparr>lru_new = (\<lambda>n. (n, [])),
      lru_get_key_value =
        (\<lambda>c k. if k \<in> set (snd c) then (Some k, (fst c, k # removeAll k (snd c))) else (None, c)),
      lru_put = (\<lambda>c k. (fst c, take (fst c) (k # removeAll k (snd c)))),
      lru_contains = (\<lambda>c k. k \<in> set (snd c))\<rparr>"

lemma list_lru_ok: "lru_ok list_lru_lib"
  by (auto simp: lru_ok_def list_lru_lib_def dest: in_set_takeD)

section \<open>The key cache\<close>

datatype 'c key_cache = KC_Disabled | KC_Shared 'c

definition key_cache_new :: "'c lru_lib \<Rightarrow> nat \<Rightarrow> 'c key_cache" where
  "key_cache_new L capacity = (if capacity = 0 then KC_Disabled else KC_Shared (lru_new L capacity))"

text \<open>
  On a slice of the wrong length the source fails through \<open>PublicKey::try_from\<close>, whose success
  there would be a panic (\<open>expect_err\<close>); \<open>try_from\<close> rejects every such slice.
\<close>

fun key_from_slice ::
  "ed25519 \<Rightarrow> 'c lru_lib \<Rightarrow> 'c key_cache \<Rightarrow> bytes
     \<Rightarrow> (key_parsing_error + public_key) \<times> 'c key_cache" where
  "key_from_slice C L KC_Disabled sl = (public_key_try_from C sl, KC_Disabled)"
| "key_from_slice C L (KC_Shared cache) sl =
     (if length sl \<noteq> PUBLIC_KEY_LENGTH then (public_key_try_from C sl, KC_Shared cache)
      else case lru_get_key_value L cache sl of
             (Some key, cache') \<Rightarrow> (Inr key, KC_Shared cache')
           | (None, cache') \<Rightarrow>
               (case public_key_from_bytes C sl of
                  Inl e \<Rightarrow> (Inl e, KC_Shared cache')
                | Inr key \<Rightarrow> (Inr key, KC_Shared (lru_put L cache' key))))"

fun key_cache_inv :: "ed25519 \<Rightarrow> 'c lru_lib \<Rightarrow> 'c key_cache \<Rightarrow> bool" where
  "key_cache_inv C L KC_Disabled = True"
| "key_cache_inv C L (KC_Shared c) = (\<forall>k. lru_contains L c k \<longrightarrow> key_valid C k)"

lemma key_cache_inv_new [simp]: "lru_ok L \<Longrightarrow> key_cache_inv C L (key_cache_new L n)"
  by (simp add: key_cache_new_def lru_ok_def)

lemma key_cache_get:
  assumes "lru_ok L"
  shows "fst (lru_get_key_value L c k) = (if lru_contains L c k then Some k else None)"
    and "lru_contains L (snd (lru_get_key_value L c k)) k' = lru_contains L c k'"
    and "lru_contains L (lru_put L c k) k' \<Longrightarrow> k' = k \<or> lru_contains L c k'"
  using assms by (simp_all add: lru_ok_def)

lemma key_from_slice_result [simp]:
  assumes "lru_ok L" "key_cache_inv C L cache"
  shows "fst (key_from_slice C L cache sl) = public_key_try_from C sl"
proof (cases cache)
  case (KC_Shared c)
  obtain r c' where g: "lru_get_key_value L c sl = (r, c')"
    by (cases "lru_get_key_value L c sl")
  have r: "r = (if lru_contains L c sl then Some sl else None)"
    using key_cache_get(1) [OF assms(1), of c sl] g by simp
  have "lru_contains L c sl \<Longrightarrow> public_key_try_from C sl = Inr sl"
    using assms(2) by (simp add: KC_Shared)
  then show ?thesis
    using public_key_from_bytes_eq_try_from [of sl C]
    by (auto simp: KC_Shared g r split: sum.splits)
qed simp

lemma key_from_slice_inv [simp]:
  assumes "ed25519_ok C" "lru_ok L" "key_cache_inv C L cache"
  shows "key_cache_inv C L (snd (key_from_slice C L cache sl))"
proof (cases cache)
  case (KC_Shared c)
  obtain r c' where g: "lru_get_key_value L c sl = (r, c')"
    by (cases "lru_get_key_value L c sl")
  have c': "lru_contains L c' k = lru_contains L c k" for k
    using key_cache_get(2) [OF assms(2), of c sl k] g by simp
  have put: "key_valid C k'"
    if "length sl = PUBLIC_KEY_LENGTH" "public_key_from_bytes C sl = Inr k"
      "lru_contains L (lru_put L c' k) k'" for k k'
    using key_cache_get(3) [OF assms(2) that(3)] that(1,2) assms(1,3) c'
      public_key_try_from_InrD [of C sl k] public_key_from_bytes_eq_try_from [of sl C]
    by (auto simp: KC_Shared)
  show ?thesis
    using assms(3) put c' by (auto simp: KC_Shared g split: option.splits sum.splits)
qed simp

end
