(* ===== verification/Wire_Codec.thy ===== *)
theory Wire_Codec
  imports Nexa_Prelude
begin

text \<open>
  The contract of a wire format: an encoder, a decoder, the announced length and the
  well-formedness condition under which they fit together. Every message format of the
  development is an interpretation; what follows for sequences of messages is proved once.
\<close>

locale wire_codec =
  fixes enc :: "'m \<Rightarrow> bytes"
    and dec :: "bytes \<Rightarrow> 'm option"
    and enc_len :: "'m \<Rightarrow> nat option"
    and wf :: "'m \<Rightarrow> bool"
  assumes roundtrip: "wf m \<Longrightarrow> dec (enc m) = Some m"
    and announced_len: "wf m \<Longrightarrow> enc_len m = Some (length (enc m))"
begin

lemma enc_injective: "wf a \<Longrightarrow> wf b \<Longrightarrow> enc a = enc b \<Longrightarrow> a = b"
  using roundtrip by (metis option.inject)

lemma roundtrip_all:
  "\<forall>m \<in> set ms. wf m \<Longrightarrow> map dec (map enc ms) = map Some ms"
  by (simp add: roundtrip)

lemma enc_inj_on: "inj_on enc {m. wf m}"
  by (rule inj_onI) (simp add: enc_injective)

end

end
