(* ===== verification/Relay_Proto.thy ===== *)
theory Relay_Proto
  imports Frame_Type Key_Cache Wire_Codec
begin

text \<open>
  The send/recv protocol of the relay (\<open>iroh-relay/src/protos/relay.rs\<close>): datagram batches,
  the messages in both directions, their encodings and decoders. Buffers are octet lists:
  \<open>put_u8\<close>, \<open>put_u16\<close>, \<open>put_u32\<close> append in network byte order, \<open>get_u8\<close> and \<open>get_u16\<close> take from
  the front. Lemmas: every encoder writes as many octets as \<open>encoded_len\<close> announces, decoding
  an encoded well-formed message gives it back, and \<open>take_segments\<close> refines taking datagrams
  from the front of the list of datagrams a batch stands for.
\<close>

section \<open>Parameters and constants\<close>

datatype ecn_codepoint = Ect0 | Ect1 | Ce

text \<open>
  \<open>noq_proto::EcnCodepoint\<close>: \<open>ecn as u8\<close> and \<open>from_bits\<close>. Documented: the two ECN bits of a code
  point give it back, and the bits \<open>00\<close> stand for no code point.
\<close>

record ecn_lib =
  ecn_as_u8 :: "ecn_codepoint \<Rightarrow> u8"
  ecn_from_bits :: "u8 \<Rightarrow> ecn_codepoint option"

definition ecn_ok :: "ecn_lib \<Rightarrow> bool" where
  "ecn_ok E \<longleftrightarrow> (\<forall>e. ecn_from_bits E (ecn_as_u8 E e) = Some e) \<and> ecn_from_bits E 0 = None"

record 'c relay_env =
  env_varint :: varint_lib
  env_ed :: ed25519
  env_ecn :: ecn_lib
  env_lru :: "'c lru_lib"

definition relay_env_ok :: "'c relay_env \<Rightarrow> bool" where
  "relay_env_ok R \<longleftrightarrow> varint_ok (env_varint R) \<and> ed25519_ok (env_ed R) \<and> ecn_ok (env_ecn R)
     \<and> lru_ok (env_lru R)"

lemma relay_env_okD [simp]:
  assumes "relay_env_ok R"
  shows "varint_ok (env_varint R)" "ed25519_ok (env_ed R)" "ecn_ok (env_ecn R)" "lru_ok (env_lru R)"
  using assms by (simp_all add: relay_env_ok_def)

definition MAX_PACKET_SIZE :: nat where "MAX_PACKET_SIZE = 64 * 1024"
definition MAX_FRAME_SIZE :: nat where "MAX_FRAME_SIZE = 1024 * 1024"
definition PING_INTERVAL :: duration where "PING_INTERVAL = from_secs 15"
definition PER_CLIENT_SEND_QUEUE_DEPTH :: nat where "PER_CLIENT_SEND_QUEUE_DEPTH = 512"

datatype proto_error =
    UnexpectedFrame frame_type frame_type
  | FrameTooLarge nat
  | FrameTypeError frame_type_error
  | InvalidPublicKey key_parsing_error
  | InvalidFrame
  | InvalidFrameType frame_type
  | InvalidProtocolMessageEncoding
  | FrameNotAllowedInVersion
  | TooSmall

section \<open>Datagram batches\<close>

text \<open>\<open>NonZeroU16\<close> is a \<open>u16\<close> other than zero: the type invariant is \<open>datagrams_ok\<close>.\<close>

record datagrams =
  ecn :: "ecn_codepoint option"
  segment_size :: "u16 option"
  contents :: bytes

definition datagrams_ok :: "datagrams \<Rightarrow> bool" where
  "datagrams_ok d \<longleftrightarrow> segment_size d \<noteq> Some 0"

definition datagrams_from :: "bytes \<Rightarrow> datagrams" where
  "datagrams_from b = \<lparr>ecn = None, segment_size = None, contents = b\<rparr>"

text \<open>
  \<open>take_segments\<close> returns the batch taken and the batch left in \<open>self\<close>. The product
  \<open>num_segments * usize_segment_size\<close> is computed in 64 bits.
\<close>

definition take_segments :: "nat \<Rightarrow> datagrams \<Rightarrow> datagrams \<times> datagrams" where
  "take_segments num_segments d =
     (case segment_size d of
        None \<Rightarrow> (\<lparr>ecn = ecn d, segment_size = None, contents = contents d\<rparr>, d\<lparr>contents := []\<rparr>)
      | Some seg \<Rightarrow>
         (let usize_segment_size = unat seg;
              max_content_len = (num_segments * usize_segment_size) mod 2 ^ 64;
              n = min max_content_len (length (contents d));
              taken = take n (contents d);
              rest = drop n (contents d);
              is_datagram_batch = (1 < num_segments \<and> usize_segment_size < length taken)
          in (\<lparr>ecn = ecn d,
               segment_size = (if is_datagram_batch then Some seg else None),
               contents = taken\<rparr>,
              d\<lparr>segment_size := (if length rest \<le> usize_segment_size then None else Some seg),
                contents := rest\<rparr>)))"

definition datagrams_write_to :: "ecn_lib \<Rightarrow> datagrams \<Rightarrow> bytes \<Rightarrow> bytes" where
  "datagrams_write_to E d dst =
     dst @ [case ecn d of None \<Rightarrow> 0 | Some e \<Rightarrow> ecn_as_u8 E e]
         @ (case segment_size d of None \<Rightarrow> [] | Some s \<Rightarrow> u16_to_be s)
         @ contents d"

definition datagrams_encoded_len :: "datagrams \<Rightarrow> nat" where
  "datagrams_encoded_len d =
     1 + (case segment_size d of None \<Rightarrow> 0 | Some _ \<Rightarrow> 2) + length (contents d)"

definition non_zero_u16 :: "u16 \<Rightarrow> u16 option" where
  "non_zero_u16 n = (if n = 0 then None else Some n)"

definition datagrams_from_bytes :: "ecn_lib \<Rightarrow> bytes \<Rightarrow> bool \<Rightarrow> proto_error + datagrams" where
  "datagrams_from_bytes E b is_batch =
     (if (if is_batch then length b < 3 else length b < 1) then Inl InvalidFrame
      else
        let ecn_byte = hd b;
            b1 = tl b;
            seg = (if is_batch then non_zero_u16 (u16_of_be (take 2 b1)) else None);
            b2 = (if is_batch then drop 2 b1 else b1)
        in Inr \<lparr>ecn = ecn_from_bits E ecn_byte, segment_size = seg, contents = b2\<rparr>)"

lemma length_datagrams_write_to [wire_simps]:
  "length (datagrams_write_to E d dst) = length dst + datagrams_encoded_len d"
  by (simp add: datagrams_write_to_def datagrams_encoded_len_def split: option.splits)

lemma datagrams_write_to_append:
  "datagrams_write_to E d dst = dst @ datagrams_write_to E d []"
  by (simp add: datagrams_write_to_def)

lemma datagrams_roundtrip [wire_simps]:
  assumes "ecn_ok E" "datagrams_ok d"
  shows "datagrams_from_bytes E (datagrams_write_to E d []) (segment_size d \<noteq> None) = Inr d"
  using assms
  by (cases d)
    (auto simp: datagrams_from_bytes_def datagrams_write_to_def datagrams_ok_def ecn_ok_def
      non_zero_u16_def split: option.splits)

lemma datagrams_from_bytes_ok: "datagrams_from_bytes E b is_batch = Inr d \<Longrightarrow> datagrams_ok d"
  by (auto simp: datagrams_from_bytes_def datagrams_ok_def non_zero_u16_def Let_def
      split: if_splits)

subsection \<open>The datagrams a batch stands for\<close>

function chunks :: "nat \<Rightarrow> 'a list \<Rightarrow> 'a list list" where
  "chunks n xs = (if xs = [] \<or> n = 0 then [] else take n xs # chunks n (drop n xs))"
  by pat_completeness auto
termination
  by (relation "measure (\<lambda>(n, xs). length xs)") auto

declare chunks.simps [simp del]

definition datagrams_segments :: "datagrams \<Rightarrow> bytes list" where
  "datagrams_segments d =
     (case segment_size d of
        None \<Rightarrow> if contents d = [] then [] else [contents d]
      | Some s \<Rightarrow> chunks (unat s) (contents d))"

lemma chunks_Nil [simp]: "chunks n [] = []"
  by (simp add: chunks.simps)

lemma chunks_short: "0 < n \<Longrightarrow> xs \<noteq> [] \<Longrightarrow> length xs \<le> n \<Longrightarrow> chunks n xs = [xs]"
  by (simp add: chunks.simps [of n xs])

lemma chunks_take_drop:
  assumes "0 < n"
  shows "chunks n (take (k * n) xs) = take k (chunks n xs)
       \<and> chunks n (drop (k * n) xs) = drop k (chunks n xs)"
proof (induction k arbitrary: xs)
  case (Suc k)
  show ?case
  proof (cases "xs = []")
    case False
    have t: "take (Suc k * n) xs = take n xs @ take (k * n) (drop n xs)"
      by (simp add: take_add)
    have d: "drop (Suc k * n) xs = drop (k * n) (drop n xs)"
      by (simp add: add.commute)
    have c: "chunks n xs = take n xs # chunks n (drop n xs)"
      using False assms by (simp add: chunks.simps [of n xs])
    have "chunks n (take (Suc k * n) xs) = take n xs # chunks n (take (k * n) (drop n xs))"
    proof (cases "length xs < n")
      case True
      then show ?thesis
        using False assms by (simp add: t chunks_short)
    next
      case ge: False
      then have "take n (take (Suc k * n) xs) = take n xs"
        "drop n (take (Suc k * n) xs) = take (k * n) (drop n xs)"
        by (simp_all add: drop_take)
      then show ?thesis
        using False assms ge by (subst chunks.simps) (simp add: t)
    qed
    then show ?thesis
      using Suc.IH [of "drop n xs"] by (simp add: c d del: mult_Suc)
  qed simp
qed simp

lemma take_segments_contents:
  "contents (fst (take_segments n d)) @ contents (snd (take_segments n d)) = contents d"
  by (simp add: take_segments_def Let_def split: option.splits)

lemma take_segments_Some:
  assumes "segment_size d = Some seg" "n * unat seg < 2 ^ 64"
  shows "take_segments n d =
     (\<lparr>ecn = ecn d,
       segment_size = (if 1 < n \<and> unat seg < length (take (n * unat seg) (contents d))
                       then Some seg else None),
       contents = take (n * unat seg) (contents d)\<rparr>,
      d\<lparr>segment_size := (if length (drop (n * unat seg) (contents d)) \<le> unat seg
                         then None else Some seg),
        contents := drop (n * unat seg) (contents d)\<rparr>)"
proof -
  let ?m = "n * unat seg" and ?xs = "contents d"
  have m: "?m mod 2 ^ 64 = ?m" using assms(2) by simp
  have tk: "take (min ?m (length ?xs)) ?xs = take ?m ?xs"
    and dr: "drop (min ?m (length ?xs)) ?xs = drop ?m ?xs"
    by (simp_all add: min_def)
  show ?thesis
    unfolding take_segments_def assms(1) option.case Let_def m tk dr by simp
qed

lemma datagrams_segments_chunks:
  assumes "0 < s" "segment_size d = None \<longrightarrow> length (contents d) \<le> s"
    "\<forall>t. segment_size d = Some t \<longrightarrow> unat t = s"
  shows "datagrams_segments d = chunks s (contents d)"
  using assms by (auto simp: datagrams_segments_def chunks_short split: option.splits)

lemma take_segments_segments:
  assumes ok: "datagrams_ok d" and n: "0 < n"
    and fits: "\<And>s. segment_size d = Some s \<Longrightarrow> n * unat s < 2 ^ 64"
  shows "datagrams_segments (fst (take_segments n d)) = take n (datagrams_segments d)"
    and "datagrams_segments (snd (take_segments n d)) = drop n (datagrams_segments d)"
proof -
  have "datagrams_segments (fst (take_segments n d)) = take n (datagrams_segments d)
      \<and> datagrams_segments (snd (take_segments n d)) = drop n (datagrams_segments d)"
  proof (cases "segment_size d")
    case None
    then show ?thesis
      using n by (simp add: take_segments_def datagrams_segments_def)
  next
    case (Some seg)
    let ?s = "unat seg" and ?xs = "contents d"
    have s: "0 < ?s"
      using ok Some by (simp add: datagrams_ok_def unat_gt_0)
    note eq = take_segments_Some [OF Some fits [OF Some]]
    have "n = 1 \<or> 1 < n" using n by linarith
    then have "datagrams_segments (fst (take_segments n d)) = chunks ?s (take (n * ?s) ?xs)"
      by (intro datagrams_segments_chunks [OF s, THEN trans]) (auto simp: eq)
    moreover have "datagrams_segments (snd (take_segments n d)) = chunks ?s (drop (n * ?s) ?xs)"
      by (intro datagrams_segments_chunks [OF s, THEN trans]) (auto simp: eq)
    moreover have "datagrams_segments d = chunks ?s ?xs"
      by (simp add: datagrams_segments_def Some)
    ultimately show ?thesis
      using chunks_take_drop [OF s, of n ?xs] by simp
  qed
  then show "datagrams_segments (fst (take_segments n d)) = take n (datagrams_segments d)"
    and "datagrams_segments (snd (take_segments n d)) = drop n (datagrams_segments d)"
    by simp_all
qed

text \<open>A batch with a segment size holds more than one datagram; \<open>take_segments\<close> keeps that.\<close>

definition datagrams_canonical :: "datagrams \<Rightarrow> bool" where
  "datagrams_canonical d \<longleftrightarrow>
     (case segment_size d of None \<Rightarrow> True | Some s \<Rightarrow> s \<noteq> 0 \<and> unat s < length (contents d))"

lemma take_segments_canonical:
  assumes "datagrams_ok d"
  shows "datagrams_canonical (fst (take_segments n d)) \<and> datagrams_canonical (snd (take_segments n d))"
  using assms
  by (auto simp: take_segments_def datagrams_canonical_def datagrams_ok_def Let_def not_le
      split: option.splits)

section \<open>Status\<close>

datatype status = Healthy | SameEndpointIdConnected | UnknownStatus u8

fun status_write_to :: "status \<Rightarrow> bytes \<Rightarrow> bytes" where
  "status_write_to Healthy dst = dst @ [0]"
| "status_write_to SameEndpointIdConnected dst = dst @ [1]"
| "status_write_to (UnknownStatus discriminant) dst = dst @ [discriminant]"

definition status_encoded_len :: "status \<Rightarrow> nat" where
  "status_encoded_len s = 1"

definition status_from_bytes :: "bytes \<Rightarrow> proto_error + status" where
  "status_from_bytes b =
     (case b of [] \<Rightarrow> Inl InvalidFrame
      | d # _ \<Rightarrow> if d = 0 then Inr Healthy else if d = 1 then Inr SameEndpointIdConnected
                 else Inr (UnknownStatus d))"

fun status_display :: "status \<Rightarrow> string" where
  "status_display Healthy = ''The connection is healthy and has recovered from previous problems''"
| "status_display SameEndpointIdConnected =
     ''Another endpoint connected with the same endpoint id. No more messages will be received.''"
| "status_display (UnknownStatus n) = ''Unsupported health message ('' @ show_nat (unat n) @ '')''"

fun status_ok :: "status \<Rightarrow> bool" where
  "status_ok (UnknownStatus n) = (n \<noteq> 0 \<and> n \<noteq> 1)"
| "status_ok _ = True"

lemma status_roundtrip [wire_simps]:
  "status_ok s \<Longrightarrow> status_from_bytes (status_write_to s []) = Inr s"
  by (cases s) (simp_all add: status_from_bytes_def)

lemma length_status_write_to [wire_simps]:
  "length (status_write_to s dst) = length dst + status_encoded_len s"
  by (cases s) (simp_all add: status_encoded_len_def)

lemma status_from_bytes_ok: "status_from_bytes b = Inr s \<Longrightarrow> status_ok s"
  by (auto simp: status_from_bytes_def split: list.splits if_splits)

section \<open>Messages from the relay to a client\<close>

datatype relay_to_client_msg =
    R2C_Datagrams endpoint_id datagrams
  | R2C_EndpointGone endpoint_id
  | R2C_Status status
  | R2C_Restarting duration duration
  | R2C_Ping bytes
  | R2C_Pong bytes
  | R2C_Health string

fun r2c_typ :: "relay_to_client_msg \<Rightarrow> frame_type" where
  "r2c_typ (R2C_Datagrams _ d) =
     (if segment_size d \<noteq> None then FT_RelayToClientDatagramBatch else FT_RelayToClientDatagram)"
| "r2c_typ (R2C_EndpointGone _) = FT_EndpointGone"
| "r2c_typ (R2C_Ping _) = FT_Ping"
| "r2c_typ (R2C_Pong _) = FT_Pong"
| "r2c_typ (R2C_Status _) = FT_Status"
| "r2c_typ (R2C_Restarting _ _) = FT_Restarting"
| "r2c_typ (R2C_Health _) = FT_Health"

text \<open>\<open>as_millis() as u32\<close> keeps the low 32 bits of the number of milliseconds.\<close>

definition millis_u32 :: "duration \<Rightarrow> u32" where
  "millis_u32 d = of_nat (as_millis d)"

fun r2c_payload :: "'c relay_env \<Rightarrow> relay_to_client_msg \<Rightarrow> bytes \<Rightarrow> bytes" where
  "r2c_payload R (R2C_Datagrams remote_endpoint_id d) dst =
     datagrams_write_to (env_ecn R) d (dst @ remote_endpoint_id)"
| "r2c_payload R (R2C_EndpointGone endpoint_id) dst = dst @ endpoint_id"
| "r2c_payload R (R2C_Ping data) dst = dst @ data"
| "r2c_payload R (R2C_Pong data) dst = dst @ data"
| "r2c_payload R (R2C_Health problem) dst = dst @ string_bytes problem"
| "r2c_payload R (R2C_Restarting reconnect_in try_for) dst =
     dst @ u32_to_be (millis_u32 reconnect_in) @ u32_to_be (millis_u32 try_for)"
| "r2c_payload R (R2C_Status s) dst = status_write_to s dst"

definition r2c_write_to :: "'c relay_env \<Rightarrow> relay_to_client_msg \<Rightarrow> bytes \<Rightarrow> bytes" where
  "r2c_write_to R m dst = r2c_payload R m (frame_type_write_to (env_varint R) (r2c_typ m) dst)"

definition r2c_to_bytes :: "'c relay_env \<Rightarrow> relay_to_client_msg \<Rightarrow> bytes" where
  "r2c_to_bytes R m = r2c_write_to R m []"

fun r2c_payload_len :: "relay_to_client_msg \<Rightarrow> nat" where
  "r2c_payload_len (R2C_Datagrams _ d) = 32 + datagrams_encoded_len d"
| "r2c_payload_len (R2C_EndpointGone _) = 32"
| "r2c_payload_len (R2C_Ping _) = 8"
| "r2c_payload_len (R2C_Pong _) = 8"
| "r2c_payload_len (R2C_Status s) = status_encoded_len s"
| "r2c_payload_len (R2C_Restarting _ _) = 4 + 4"
| "r2c_payload_len (R2C_Health problem) = length problem"

definition r2c_encoded_len :: "relay_to_client_msg \<Rightarrow> nat option" where
  "r2c_encoded_len m =
     map_option (\<lambda>n. n + r2c_payload_len m) (frame_type_encoded_len (r2c_typ m))"

text \<open>The body of the decoder after the frame type and the size check.\<close>

fun r2c_from_frame ::
  "'c relay_env \<Rightarrow> 'c key_cache \<Rightarrow> protocol_version \<Rightarrow> frame_type \<Rightarrow> bytes
     \<Rightarrow> (proto_error + relay_to_client_msg) \<times> 'c key_cache" where
  "r2c_from_frame R cache ver frame_type content =
     (if frame_type = FT_RelayToClientDatagram \<or> frame_type = FT_RelayToClientDatagramBatch then
        (if length content < PUBLIC_KEY_LENGTH then (Inl InvalidFrame, cache)
         else case key_from_slice (env_ed R) (env_lru R) cache (take PUBLIC_KEY_LENGTH content) of
                (Inl e, cache') \<Rightarrow> (Inl (InvalidPublicKey e), cache')
              | (Inr remote_endpoint_id, cache') \<Rightarrow>
                 (and_then
                    (datagrams_from_bytes (env_ecn R) (drop PUBLIC_KEY_LENGTH content)
                       (frame_type = FT_RelayToClientDatagramBatch))
                    (\<lambda>d. Inr (R2C_Datagrams remote_endpoint_id d)), cache'))
      else if frame_type = FT_EndpointGone then
        (if length content \<noteq> PUBLIC_KEY_LENGTH then (Inl InvalidFrame, cache)
         else case key_from_slice (env_ed R) (env_lru R) cache content of
                (Inl e, cache') \<Rightarrow> (Inl (InvalidPublicKey e), cache')
              | (Inr endpoint_id, cache') \<Rightarrow> (Inr (R2C_EndpointGone endpoint_id), cache'))
      else if frame_type = FT_Ping then
        (if length content \<noteq> 8 then (Inl InvalidFrame, cache)
         else (Inr (R2C_Ping (take 8 content)), cache))
      else if frame_type = FT_Pong then
        (if length content \<noteq> 8 then (Inl InvalidFrame, cache)
         else (Inr (R2C_Pong (take 8 content)), cache))
      else if frame_type = FT_Health then
        (if ver \<noteq> V1 then (Inl FrameNotAllowedInVersion, cache)
         else if \<not> utf8_valid content then (Inl InvalidProtocolMessageEncoding, cache)
         else (Inr (R2C_Health (bytes_string content)), cache))
      else if frame_type = FT_Restarting then
        (if length content \<noteq> 4 + 4 then (Inl InvalidFrame, cache)
         else
           let reconnect_in = u32_of_be (take 4 content);
               try_for = u32_of_be (drop 4 content)
           in (Inr (R2C_Restarting (from_millis (unat reconnect_in)) (from_millis (unat try_for))),
               cache))
      else if frame_type = FT_Status then
        (if \<not> V2 \<le> ver then (Inl FrameNotAllowedInVersion, cache)
         else (and_then (status_from_bytes content) (\<lambda>s. Inr (R2C_Status s)), cache))
      else (Inl (InvalidFrameType frame_type), cache))"

definition r2c_from_bytes ::
  "'c relay_env \<Rightarrow> 'c key_cache \<Rightarrow> protocol_version \<Rightarrow> bytes
     \<Rightarrow> (proto_error + relay_to_client_msg) \<times> 'c key_cache" where
  "r2c_from_bytes R cache ver buf =
     (case frame_type_from_bytes (env_varint R) buf of
        Inl e \<Rightarrow> (Inl (FrameTypeError e), cache)
      | Inr (frame_type, content) \<Rightarrow>
         (if MAX_PACKET_SIZE < length content then (Inl (FrameTooLarge (length content)), cache)
          else r2c_from_frame R cache ver frame_type content))"

declare r2c_from_frame.simps [simp del]

subsection \<open>Well-formed messages\<close>

definition millis_ok :: "duration \<Rightarrow> bool" where
  "millis_ok d \<longleftrightarrow> d mod 1000000 = 0 \<and> as_millis d < 2 ^ 32"

fun r2c_ok :: "ed25519 \<Rightarrow> protocol_version \<Rightarrow> relay_to_client_msg \<Rightarrow> bool" where
  "r2c_ok C ver (R2C_Datagrams k d) = (key_valid C k \<and> datagrams_ok d)"
| "r2c_ok C ver (R2C_EndpointGone k) = key_valid C k"
| "r2c_ok C ver (R2C_Status s) = (V2 \<le> ver \<and> status_ok s)"
| "r2c_ok C ver (R2C_Restarting a b) = (millis_ok a \<and> millis_ok b)"
| "r2c_ok C ver (R2C_Ping d) = (length d = 8)"
| "r2c_ok C ver (R2C_Pong d) = (length d = 8)"
| "r2c_ok C ver (R2C_Health p) = (ver = V1 \<and> utf8_valid (string_bytes p))"

definition r2c_wf :: "ed25519 \<Rightarrow> protocol_version \<Rightarrow> relay_to_client_msg \<Rightarrow> bool" where
  "r2c_wf C ver m \<longleftrightarrow> r2c_ok C ver m \<and> r2c_payload_len m \<le> MAX_PACKET_SIZE"

lemma millis_u32_roundtrip [wire_simps]:
  "millis_ok d \<Longrightarrow> from_millis (unat (millis_u32 d)) = d"
  by (auto simp: millis_ok_def millis_u32_def from_millis_def as_millis_def take_bit_eq_mod
      unsigned_of_nat)

lemma millis_ok_from_millis [simp]: "millis_ok (from_millis (unat (n :: u32)))"
  using unsigned_less [of n] by (simp add: millis_ok_def from_millis_def as_millis_def)

lemma r2c_payload_append: "r2c_payload R m dst = dst @ r2c_payload R m []"
proof (cases m)
  case (R2C_Datagrams k d)
  then show ?thesis
    using datagrams_write_to_append [of _ d "dst @ k"] datagrams_write_to_append [of _ d k] by simp
next
  case (R2C_Status s)
  then show ?thesis by (cases s) simp_all
qed simp_all

lemma r2c_to_bytes_frame:
  "r2c_to_bytes R m =
     vi_encode (env_varint R) (varint_of_frame_type (r2c_typ m)) @ r2c_payload R m []"
  unfolding r2c_to_bytes_def r2c_write_to_def
  by (subst r2c_payload_append) (simp add: frame_type_write_to_def)

lemma length_r2c_payload:
  "r2c_ok C ver m \<Longrightarrow> length (r2c_payload R m []) = r2c_payload_len m"
  by (cases m) (auto simp: wire_simps key_valid_def PUBLIC_KEY_LENGTH_def)

lemma r2c_from_bytes_encoded:
  assumes "varint_ok (env_varint R)" "r2c_wf C ver m"
  shows "r2c_from_bytes R cache ver' (r2c_to_bytes R m)
           = r2c_from_frame R cache ver' (r2c_typ m) (r2c_payload R m [])"
  using assms length_r2c_payload [of C ver m R]
  by (simp add: r2c_from_bytes_def r2c_to_bytes_frame frame_type_roundtrip r2c_wf_def)

lemma key_from_slice_valid:
  assumes "relay_env_ok R" "key_cache_inv (env_ed R) (env_lru R) cache" "key_valid (env_ed R) k"
  shows "\<exists>cache'. key_from_slice (env_ed R) (env_lru R) cache k = (Inr k, cache')"
  using assms key_from_slice_result [of "env_lru R" "env_ed R" cache k]
  by (cases "key_from_slice (env_ed R) (env_lru R) cache k") auto

lemma r2c_roundtrip:
  assumes env: "relay_env_ok R" "key_cache_inv (env_ed R) (env_lru R) cache"
    and wf: "r2c_wf (env_ed R) ver m"
  shows "fst (r2c_from_bytes R cache ver (r2c_to_bytes R m)) = Inr m"
proof -
  have ok: "r2c_ok (env_ed R) ver m" using wf by (simp add: r2c_wf_def)
  have "fst (r2c_from_frame R cache ver (r2c_typ m) (r2c_payload R m [])) = Inr m"
  proof (cases m)
    case (R2C_Datagrams k d)
    then have k: "key_valid (env_ed R) k" "length k = 32" and d: "datagrams_ok d"
      using ok by (auto simp: key_valid_def PUBLIC_KEY_LENGTH_def)
    obtain cache' where c: "key_from_slice (env_ed R) (env_lru R) cache k = (Inr k, cache')"
      using key_from_slice_valid [OF env k(1)] by blast
    have "datagrams_from_bytes (env_ecn R) (datagrams_write_to (env_ecn R) d [])
            (segment_size d \<noteq> None) = Inr d"
      using env d by (intro datagrams_roundtrip) simp_all
    then show ?thesis
      using datagrams_write_to_append [of _ d k] k c R2C_Datagrams
      by (auto simp: r2c_from_frame.simps PUBLIC_KEY_LENGTH_def)
  next
    case (R2C_EndpointGone k)
    then show ?thesis
      using ok key_from_slice_valid [OF env, of k]
      by (auto simp: r2c_from_frame.simps key_valid_def)
  next
    case (R2C_Restarting a b)
    then show ?thesis using ok by (simp add: r2c_from_frame.simps wire_simps)
  qed (use ok in \<open>auto simp: r2c_from_frame.simps wire_simps\<close>)
  then show ?thesis using r2c_from_bytes_encoded [OF relay_env_okD(1) [OF env(1)] wf] by simp
qed

lemma r2c_encoded_len_announced:
  assumes "varint_ok (env_varint R)" "r2c_ok C ver m"
  shows "r2c_encoded_len m = Some (length (r2c_to_bytes R m))"
  using assms
  by (simp add: r2c_encoded_len_def r2c_to_bytes_frame length_frame_type_encoding length_r2c_payload)

text \<open>Whatever the decoder accepts is well formed.\<close>

lemma key_from_slice_Inr_valid:
  assumes "relay_env_ok R" "key_cache_inv (env_ed R) (env_lru R) cache"
    and "key_from_slice (env_ed R) (env_lru R) cache sl = (Inr k, cache')"
  shows "key_valid (env_ed R) k"
proof -
  have "public_key_try_from (env_ed R) sl = Inr k"
    using assms key_from_slice_result [of "env_lru R" "env_ed R" cache sl] by simp
  then show ?thesis using assms(1) public_key_try_from_InrD by fastforce
qed

lemma datagrams_from_bytes_sound:
  "datagrams_from_bytes E b is_batch = Inr d
     \<Longrightarrow> datagrams_encoded_len d \<le> length b \<and> datagrams_ok d"
  by (auto simp: datagrams_from_bytes_def datagrams_encoded_len_def datagrams_ok_def
      non_zero_u16_def Let_def split: if_splits)

lemma r2c_from_frame_sound:
  assumes env: "relay_env_ok R" "key_cache_inv (env_ed R) (env_lru R) cache"
    and dec: "fst (r2c_from_frame R cache ver t content) = Inr m"
  shows "r2c_ok (env_ed R) ver m \<and> r2c_payload_len m \<le> length content"
  using dec key_from_slice_Inr_valid [OF env]
  by (auto simp: r2c_from_frame.simps Let_def status_encoded_len_def PUBLIC_KEY_LENGTH_def
      status_from_bytes_def
      split: if_splits prod.splits sum.splits list.splits
      dest!: datagrams_from_bytes_sound)

lemma r2c_from_bytes_sound:
  assumes env: "relay_env_ok R" "key_cache_inv (env_ed R) (env_lru R) cache"
    and dec: "fst (r2c_from_bytes R cache ver buf) = Inr m"
  shows "r2c_wf (env_ed R) ver m"
  using dec r2c_from_frame_sound [OF env]
  by (fastforce simp: r2c_from_bytes_def r2c_wf_def split: sum.splits if_splits)

lemma r2c_from_frame_cache:
  "\<exists>sl. snd (r2c_from_frame R cache ver t content) \<in>
     {cache, snd (key_from_slice (env_ed R) (env_lru R) cache sl)}"
proof -
  obtain r1 c1 where k1: "key_from_slice (env_ed R) (env_lru R) cache (take PUBLIC_KEY_LENGTH content) = (r1, c1)"
    by force
  obtain r2 c2 where k2: "key_from_slice (env_ed R) (env_lru R) cache content = (r2, c2)"
    by force
  have "snd (r2c_from_frame R cache ver t content) \<in> {cache, c1, c2}"
    by (cases t) (simp_all add: r2c_from_frame.simps k1 k2 Let_def split: sum.split)
  then show ?thesis
    using k1 k2 by (metis empty_iff insert_iff snd_conv)
qed

lemma r2c_from_bytes_cache_inv:
  assumes env: "relay_env_ok R" "key_cache_inv (env_ed R) (env_lru R) cache"
  shows "key_cache_inv (env_ed R) (env_lru R) (snd (r2c_from_bytes R cache ver buf))"
proof -
  have "key_cache_inv (env_ed R) (env_lru R) (snd (r2c_from_frame R cache ver t content))" for t content
    using r2c_from_frame_cache [of R cache ver t content] env
      key_from_slice_inv [OF _ _ env(2)] by auto
  then show ?thesis
    using env(2) by (simp add: r2c_from_bytes_def split: sum.split prod.split)
qed

section \<open>Messages from a client to the relay\<close>

datatype client_to_relay_msg =
    C2R_Ping bytes
  | C2R_Pong bytes
  | C2R_Datagrams endpoint_id datagrams

fun c2r_typ :: "client_to_relay_msg \<Rightarrow> frame_type" where
  "c2r_typ (C2R_Datagrams _ d) =
     (if segment_size d \<noteq> None then FT_ClientToRelayDatagramBatch else FT_ClientToRelayDatagram)"
| "c2r_typ (C2R_Ping _) = FT_Ping"
| "c2r_typ (C2R_Pong _) = FT_Pong"

fun c2r_payload :: "'c relay_env \<Rightarrow> client_to_relay_msg \<Rightarrow> bytes \<Rightarrow> bytes" where
  "c2r_payload R (C2R_Datagrams dst_endpoint_id d) dst =
     datagrams_write_to (env_ecn R) d (dst @ dst_endpoint_id)"
| "c2r_payload R (C2R_Ping data) dst = dst @ data"
| "c2r_payload R (C2R_Pong data) dst = dst @ data"

definition c2r_write_to :: "'c relay_env \<Rightarrow> client_to_relay_msg \<Rightarrow> bytes \<Rightarrow> bytes" where
  "c2r_write_to R m dst = c2r_payload R m (frame_type_write_to (env_varint R) (c2r_typ m) dst)"

definition c2r_to_bytes :: "'c relay_env \<Rightarrow> client_to_relay_msg \<Rightarrow> bytes" where
  "c2r_to_bytes R m = c2r_write_to R m []"

fun c2r_payload_len :: "client_to_relay_msg \<Rightarrow> nat" where
  "c2r_payload_len (C2R_Ping _) = 8"
| "c2r_payload_len (C2R_Pong _) = 8"
| "c2r_payload_len (C2R_Datagrams _ d) = 32 + datagrams_encoded_len d"

definition c2r_encoded_len :: "client_to_relay_msg \<Rightarrow> nat option" where
  "c2r_encoded_len m =
     map_option (\<lambda>n. n + c2r_payload_len m) (frame_type_encoded_len (c2r_typ m))"

text \<open>
  The decoder takes \<open>content[..EndpointId::LENGTH]\<close> of a datagram frame without comparing the
  length first; the slice panics on a shorter frame, which is the outcome \<open>None\<close>.
\<close>

definition c2r_from_frame ::
  "'c relay_env \<Rightarrow> 'c key_cache \<Rightarrow> frame_type \<Rightarrow> bytes
     \<Rightarrow> (proto_error + client_to_relay_msg) option \<times> 'c key_cache" where
  "c2r_from_frame R cache frame_type content =
     (if frame_type = FT_ClientToRelayDatagram \<or> frame_type = FT_ClientToRelayDatagramBatch then
        (if length content < PUBLIC_KEY_LENGTH then (None, cache)
         else case key_from_slice (env_ed R) (env_lru R) cache (take PUBLIC_KEY_LENGTH content) of
                (Inl e, cache') \<Rightarrow> (Some (Inl (InvalidPublicKey e)), cache')
              | (Inr dst_endpoint_id, cache') \<Rightarrow>
                 (Some (and_then
                    (datagrams_from_bytes (env_ecn R) (drop PUBLIC_KEY_LENGTH content)
                       (frame_type = FT_ClientToRelayDatagramBatch))
                    (\<lambda>d. Inr (C2R_Datagrams dst_endpoint_id d))), cache'))
      else if frame_type = FT_Ping then
        (if length content \<noteq> 8 then (Some (Inl InvalidFrame), cache)
         else (Some (Inr (C2R_Ping (take 8 content))), cache))
      else if frame_type = FT_Pong then
        (if length content \<noteq> 8 then (Some (Inl InvalidFrame), cache)
         else (Some (Inr (C2R_Pong (take 8 content))), cache))
      else (Some (Inl (InvalidFrameType frame_type)), cache))"

definition c2r_from_bytes ::
  "'c relay_env \<Rightarrow> 'c key_cache \<Rightarrow> bytes
     \<Rightarrow> (proto_error + client_to_relay_msg) option \<times> 'c key_cache" where
  "c2r_from_bytes R cache buf =
     (case frame_type_from_bytes (env_varint R) buf of
        Inl e \<Rightarrow> (Some (Inl (FrameTypeError e)), cache)
      | Inr (frame_type, content) \<Rightarrow>
         (if MAX_PACKET_SIZE < length content
          then (Some (Inl (FrameTooLarge (length content))), cache)
          else c2r_from_frame R cache frame_type content))"

fun c2r_ok :: "ed25519 \<Rightarrow> client_to_relay_msg \<Rightarrow> bool" where
  "c2r_ok C (C2R_Datagrams k d) = (key_valid C k \<and> datagrams_ok d)"
| "c2r_ok C (C2R_Ping d) = (length d = 8)"
| "c2r_ok C (C2R_Pong d) = (length d = 8)"

definition c2r_wf :: "ed25519 \<Rightarrow> client_to_relay_msg \<Rightarrow> bool" where
  "c2r_wf C m \<longleftrightarrow> c2r_ok C m \<and> c2r_payload_len m \<le> MAX_PACKET_SIZE"

lemma c2r_payload_append: "c2r_payload R m dst = dst @ c2r_payload R m []"
proof (cases m)
  case (C2R_Datagrams k d)
  then show ?thesis
    using datagrams_write_to_append [of _ d "dst @ k"] datagrams_write_to_append [of _ d k] by simp
qed simp_all

lemma c2r_to_bytes_frame:
  "c2r_to_bytes R m =
     vi_encode (env_varint R) (varint_of_frame_type (c2r_typ m)) @ c2r_payload R m []"
  unfolding c2r_to_bytes_def c2r_write_to_def
  by (subst c2r_payload_append) (simp add: frame_type_write_to_def)

lemma length_c2r_payload: "c2r_ok C m \<Longrightarrow> length (c2r_payload R m []) = c2r_payload_len m"
  by (cases m) (auto simp: wire_simps key_valid_def PUBLIC_KEY_LENGTH_def)

lemma c2r_roundtrip:
  assumes env: "relay_env_ok R" "key_cache_inv (env_ed R) (env_lru R) cache"
    and wf: "c2r_wf (env_ed R) m"
  shows "fst (c2r_from_bytes R cache (c2r_to_bytes R m)) = Some (Inr m)"
proof -
  have ok: "c2r_ok (env_ed R) m" using wf by (simp add: c2r_wf_def)
  have "fst (c2r_from_frame R cache (c2r_typ m) (c2r_payload R m [])) = Some (Inr m)"
  proof (cases m)
    case (C2R_Datagrams k d)
    then have k: "key_valid (env_ed R) k" "length k = 32" and d: "datagrams_ok d"
      using ok by (auto simp: key_valid_def PUBLIC_KEY_LENGTH_def)
    obtain cache' where c: "key_from_slice (env_ed R) (env_lru R) cache k = (Inr k, cache')"
      using key_from_slice_valid [OF env k(1)] by blast
    have "datagrams_from_bytes (env_ecn R) (datagrams_write_to (env_ecn R) d [])
            (segment_size d \<noteq> None) = Inr d"
      using env d by (intro datagrams_roundtrip) simp_all
    then show ?thesis
      using datagrams_write_to_append [of _ d k] k c C2R_Datagrams
      by (auto simp: c2r_from_frame_def PUBLIC_KEY_LENGTH_def)
  qed (use ok in \<open>simp_all add: c2r_from_frame_def\<close>)
  then show ?thesis
    using env(1) wf ok length_c2r_payload [OF ok, of R]
    by (simp add: c2r_from_bytes_def c2r_to_bytes_frame frame_type_roundtrip c2r_wf_def)
qed

lemma c2r_encoded_len_announced:
  assumes "varint_ok (env_varint R)" "c2r_ok C m"
  shows "c2r_encoded_len m = Some (length (c2r_to_bytes R m))"
  using assms
  by (simp add: c2r_encoded_len_def c2r_to_bytes_frame length_frame_type_encoding length_c2r_payload)

lemma c2r_from_frame_sound:
  assumes env: "relay_env_ok R" "key_cache_inv (env_ed R) (env_lru R) cache"
    and dec: "fst (c2r_from_frame R cache t content) = Some (Inr m)"
  shows "c2r_ok (env_ed R) m \<and> c2r_payload_len m \<le> length content"
  using dec key_from_slice_Inr_valid [OF env]
  by (auto simp: c2r_from_frame_def PUBLIC_KEY_LENGTH_def
      split: if_splits prod.splits sum.splits dest!: datagrams_from_bytes_sound)

lemma c2r_from_bytes_sound:
  assumes env: "relay_env_ok R" "key_cache_inv (env_ed R) (env_lru R) cache"
    and dec: "fst (c2r_from_bytes R cache buf) = Some (Inr m)"
  shows "c2r_wf (env_ed R) m"
  using dec c2r_from_frame_sound [OF env]
  by (fastforce simp: c2r_from_bytes_def c2r_wf_def split: sum.splits if_splits)

lemma c2r_from_bytes_cache_inv:
  assumes env: "relay_env_ok R" "key_cache_inv (env_ed R) (env_lru R) cache"
  shows "key_cache_inv (env_ed R) (env_lru R) (snd (c2r_from_bytes R cache buf))"
proof -
  have k: "key_cache_inv (env_ed R) (env_lru R) cache'"
    if "key_from_slice (env_ed R) (env_lru R) cache sl = (r, cache')" for sl r cache'
    using key_from_slice_inv [OF _ _ env(2), of sl] env(1) that by simp
  show ?thesis
    using env(2) k by (auto simp: c2r_from_bytes_def c2r_from_frame_def split: sum.splits prod.splits)
qed

text \<open>Exactly which frames make the relay's decoder panic.\<close>

lemma c2r_from_bytes_panics_iff:
  "fst (c2r_from_bytes R cache buf) = None \<longleftrightarrow>
     (\<exists>t content. frame_type_from_bytes (env_varint R) buf = Inr (t, content) \<and>
        t \<in> {FT_ClientToRelayDatagram, FT_ClientToRelayDatagramBatch} \<and> length content < 32)"
  by (auto simp: c2r_from_bytes_def c2r_from_frame_def MAX_PACKET_SIZE_def PUBLIC_KEY_LENGTH_def
      split: sum.splits prod.splits if_splits)

section \<open>The codecs as wire formats\<close>

definition r2c_decode ::
  "'c relay_env \<Rightarrow> 'c key_cache \<Rightarrow> protocol_version \<Rightarrow> bytes \<Rightarrow> relay_to_client_msg option" where
  "r2c_decode R cache ver b =
     (case fst (r2c_from_bytes R cache ver b) of Inl _ \<Rightarrow> None | Inr m \<Rightarrow> Some m)"

definition c2r_decode :: "'c relay_env \<Rightarrow> 'c key_cache \<Rightarrow> bytes \<Rightarrow> client_to_relay_msg option" where
  "c2r_decode R cache b =
     (case fst (c2r_from_bytes R cache b) of Some (Inr m) \<Rightarrow> Some m | _ \<Rightarrow> None)"

definition cache_ready :: "'c relay_env \<Rightarrow> 'c key_cache \<Rightarrow> bool" where
  "cache_ready R cache \<longleftrightarrow> relay_env_ok R \<and> key_cache_inv (env_ed R) (env_lru R) cache"

interpretation r2c: wire_codec "r2c_to_bytes R" "r2c_decode R cache ver" r2c_encoded_len
    "\<lambda>m. cache_ready R cache \<and> r2c_wf (env_ed R) ver m"
  for R cache ver
  by unfold_locales
    (auto simp: cache_ready_def r2c_decode_def r2c_roundtrip r2c_wf_def
      intro: r2c_encoded_len_announced)

interpretation c2r: wire_codec "c2r_to_bytes R" "c2r_decode R cache" c2r_encoded_len
    "\<lambda>m. cache_ready R cache \<and> c2r_wf (env_ed R) m"
  for R cache
  by unfold_locales
    (auto simp: cache_ready_def c2r_decode_def c2r_roundtrip c2r_wf_def
      intro: c2r_encoded_len_announced)

end
