(* ===== verification/Ws_Stream.thy ===== *)
theory Ws_Stream
  imports Nexa_Prelude
begin

text \<open>
  The websocket byte stream (\<open>iroh-relay/src/protos/streams.rs\<close>, \<open>WsBytesFramed\<close>). The
  third-party websocket is the sequence of messages and errors it still delivers, where the end
  of the list is the end of the stream, and the verdict on each frame sent: \<open>ws_send_ok n\<close> says
  whether the sink accepts the \<open>n\<close>-th frame. \<open>ws_ekm\<close> is the TLS exporter for 32 octets of keying
  material. Waiting is not represented: a poll that is pending resumes with the next message.
\<close>

datatype ws_message = WsBinary bytes | WsText bytes | WsPing bytes | WsPong bytes | WsClose

datatype ws_event = WsMsg ws_message | WsErr

record ws_io =
  ws_in :: "ws_event list"
  ws_out :: "bytes list"
  ws_send_ok :: "nat \<Rightarrow> bool"
  ws_ekm :: "bytes \<Rightarrow> bytes option \<Rightarrow> bytes option"

datatype stream_error = StreamError

text \<open>The loop of \<open>poll_next\<close>: control and text messages are skipped.\<close>

fun ws_poll_next :: "ws_event list \<Rightarrow> (stream_error + bytes) option \<times> ws_event list" where
  "ws_poll_next [] = (None, [])"
| "ws_poll_next (WsErr # es) = (Some (Inl StreamError), es)"
| "ws_poll_next (WsMsg m # es) =
     (case m of
        WsClose \<Rightarrow> (None, es)
      | WsPing _ \<Rightarrow> ws_poll_next es
      | WsPong _ \<Rightarrow> ws_poll_next es
      | WsText _ \<Rightarrow> ws_poll_next es
      | WsBinary p \<Rightarrow> (Some (Inr p), es))"

definition ws_next :: "ws_io \<Rightarrow> (stream_error + bytes) option \<times> ws_io" where
  "ws_next io = (case ws_poll_next (ws_in io) of (r, es) \<Rightarrow> (r, io\<lparr>ws_in := es\<rparr>))"

text \<open>Every frame is sent as one binary message.\<close>

definition ws_start_send :: "bytes \<Rightarrow> ws_io \<Rightarrow> (stream_error + unit) \<times> ws_io" where
  "ws_start_send b io =
     (if ws_send_ok io (length (ws_out io)) then (Inr (), io\<lparr>ws_out := ws_out io @ [b]\<rparr>)
      else (Inl StreamError, io))"

text \<open>What the peer of a stream that sent \<open>frames\<close> receives.\<close>

definition delivered :: "bytes list \<Rightarrow> ws_event list" where
  "delivered frames = map (\<lambda>b. WsMsg (WsBinary b)) frames"

lemma delivered_simps [simp]:
  "delivered [] = []" "delivered (f # fs) = WsMsg (WsBinary f) # delivered fs"
  "delivered (fs @ gs) = delivered fs @ delivered gs"
  by (simp_all add: delivered_def)

lemma ws_poll_next_shorter: "ws_poll_next es = (Some r, es') \<Longrightarrow> length es' < length es"
  by (induction es rule: ws_poll_next.induct) (auto split: ws_message.splits)

text \<open>
  The payloads a consumer sees before the stream ends or fails, and that they are the binary
  messages in order.
\<close>

function ws_drain :: "ws_event list \<Rightarrow> bytes list" where
  "ws_drain es = (case ws_poll_next es of
     (Some (Inr p), es') \<Rightarrow> p # ws_drain es'
   | _ \<Rightarrow> [])"
  by pat_completeness auto

termination
  by (relation "measure length") (auto intro: ws_poll_next_shorter [OF sym])

declare ws_drain.simps [simp del]

fun binary_payloads :: "ws_event list \<Rightarrow> bytes list" where
  "binary_payloads [] = []"
| "binary_payloads (WsErr # es) = []"
| "binary_payloads (WsMsg WsClose # es) = []"
| "binary_payloads (WsMsg (WsBinary p) # es) = p # binary_payloads es"
| "binary_payloads (WsMsg m # es) = binary_payloads es"

lemma ws_drain_binary_payloads: "ws_drain es = binary_payloads es"
proof (induction es rule: ws_drain.induct)
  case (1 es)
  have "binary_payloads es =
      (case ws_poll_next es of (Some (Inr p), es') \<Rightarrow> p # binary_payloads es' | _ \<Rightarrow> [])"
    by (induction es rule: binary_payloads.induct) simp_all
  with 1 show ?case
    by (subst ws_drain.simps) (auto split: prod.splits option.splits sum.splits)
qed

lemma ws_next_delivered [simp]:
  "ws_in io = WsMsg (WsBinary b) # es \<Longrightarrow> ws_next io = (Some (Inr b), io\<lparr>ws_in := es\<rparr>)"
  by (simp add: ws_next_def)

lemma binary_payloads_delivered [simp]: "binary_payloads (delivered fs) = fs"
  by (induction fs) simp_all

end
