(* ===== verification/Handshake.thy ===== *)
theory Handshake
  imports Frame_Type Keys Ws_Stream
begin

text \<open>
  The relay handshake (\<open>iroh-relay/src/protos/handshake.rs\<close>, \<open>Access\<close> and \<open>OnDisconnectGuard\<close>
  of \<open>iroh-relay/src/server.rs\<close>): a client proves that it owns the secret key of its endpoint id,
  by a signed challenge or by a signature of TLS keying material in a header, and the relay
  admits it or not. A party is a function from its connection to its result and the connection
  with what it sent; \<open>None\<close> is a panic. Lemmas: neither side panics, the relay accepts a key only
  with a valid signature under it, an honest client is confirmed, and an admitted connection
  whose set-up fails is reported as disconnected exactly once.
\<close>

section \<open>Parameters\<close>

text \<open>
  \<open>postcard\<close> on the five message structures (the \<open>PublicKey\<close> fields as their 32 octets),
  \<open>blake3::derive_key\<close>, and \<open>BASE64URL_NOPAD\<close>.
\<close>

record handshake_env =
  hs_varint :: varint_lib
  hs_ed :: ed25519
  pc_challenge_to :: "bytes \<Rightarrow> bytes"
  pc_challenge_from :: "bytes \<Rightarrow> bytes option"
  pc_client_auth_to :: "bytes \<times> bytes \<Rightarrow> bytes"
  pc_client_auth_from :: "bytes \<Rightarrow> (bytes \<times> bytes) option"
  pc_confirms_to :: "bytes"
  pc_confirms_from :: "bytes \<Rightarrow> unit option"
  pc_denies_to :: "string \<Rightarrow> bytes"
  pc_denies_from :: "bytes \<Rightarrow> string option"
  pc_key_auth_to :: "bytes \<times> bytes \<times> bytes \<Rightarrow> bytes"
  pc_key_auth_from :: "bytes \<Rightarrow> (bytes \<times> bytes \<times> bytes) option"
  hs_derive_key :: "string \<Rightarrow> bytes \<Rightarrow> bytes"
  hs_b64_encode :: "bytes \<Rightarrow> bytes"
  hs_b64_decode :: "bytes \<Rightarrow> bytes option"

text \<open>
  Documented behaviour: deserialising what was serialised gives the value back, fixed-size
  arrays have their size, and the base-64 alphabet is decodable.
\<close>

definition handshake_env_ok :: "handshake_env \<Rightarrow> bool" where
  "handshake_env_ok H \<longleftrightarrow>
     varint_ok (hs_varint H) \<and> ed25519_ok (hs_ed H) \<and>
     (\<forall>c. length c = 16 \<longrightarrow> pc_challenge_from H (pc_challenge_to H c) = Some c) \<and>
     (\<forall>k s. length k = 32 \<longrightarrow> length s = 64 \<longrightarrow>
        pc_client_auth_from H (pc_client_auth_to H (k, s)) = Some (k, s)) \<and>
     pc_confirms_from H (pc_confirms_to H) = Some () \<and>
     (\<forall>r. pc_denies_from H (pc_denies_to H r) = Some r) \<and>
     (\<forall>k s x. length k = 32 \<longrightarrow> length s = 64 \<longrightarrow> length x = 16 \<longrightarrow>
        pc_key_auth_from H (pc_key_auth_to H (k, s, x)) = Some (k, s, x)) \<and>
     (\<forall>b. hs_b64_decode H (hs_b64_encode H b) = Some b)"

section \<open>Frames\<close>

definition DOMAIN_SEP_CHALLENGE :: string where
  "DOMAIN_SEP_CHALLENGE = ''iroh-relay handshake v1 challenge signature''"

definition DOMAIN_SEP_TLS_EXPORT_LABEL :: bytes where
  "DOMAIN_SEP_TLS_EXPORT_LABEL = string_bytes ''iroh-relay handshake v1''"

record key_material_client_auth =
  kma_public_key :: public_key
  kma_signature :: signature
  kma_suffix :: bytes

record client_auth =
  ca_public_key :: public_key
  ca_signature :: signature

datatype hs_frame =
    ServerChallenge bytes
  | ClientAuth client_auth
  | ServerConfirmsAuth
  | ServerDeniesAuth string

fun frame_TAG :: "hs_frame \<Rightarrow> frame_type" where
  "frame_TAG (ServerChallenge _) = FT_ServerChallenge"
| "frame_TAG (ClientAuth _) = FT_ClientAuth"
| "frame_TAG ServerConfirmsAuth = FT_ServerConfirmsAuth"
| "frame_TAG (ServerDeniesAuth _) = FT_ServerDeniesAuth"

fun frame_serialize :: "handshake_env \<Rightarrow> hs_frame \<Rightarrow> bytes" where
  "frame_serialize H (ServerChallenge c) = pc_challenge_to H c"
| "frame_serialize H (ClientAuth a) = pc_client_auth_to H (ca_public_key a, ca_signature a)"
| "frame_serialize H ServerConfirmsAuth = pc_confirms_to H"
| "frame_serialize H (ServerDeniesAuth reason) = pc_denies_to H reason"

datatype hs_error =
    HsWebsocket
  | HsUnexpectedEnd
  | HsFrameTypeError frame_type_error
  | HsServerDeniedAuth string
  | HsUnexpectedFrameType frame_type "frame_type list"
  | HsDeserializationError frame_type
  | HsClientAuthHeaderInvalid bytes

datatype verification_error =
    NoKeyingMaterial
  | MismatchedSuffix bytes bytes
  | SignatureInvalid bytes signature public_key

definition frame_bytes :: "handshake_env \<Rightarrow> hs_frame \<Rightarrow> bytes" where
  "frame_bytes H f = frame_type_write_to (hs_varint H) (frame_TAG f) [] @ frame_serialize H f"

definition write_frame :: "handshake_env \<Rightarrow> hs_frame \<Rightarrow> ws_io \<Rightarrow> (hs_error + unit) \<times> ws_io" where
  "write_frame H f io =
     (case ws_start_send (frame_bytes H f) io of
        (Inl _, io') \<Rightarrow> (Inl HsWebsocket, io')
      | (Inr _, io') \<Rightarrow> (Inr (), io'))"

definition read_frame ::
  "handshake_env \<Rightarrow> frame_type list \<Rightarrow> ws_io \<Rightarrow> (hs_error + frame_type \<times> bytes) \<times> ws_io" where
  "read_frame H expected io =
     (case ws_next io of
        (None, io') \<Rightarrow> (Inl HsUnexpectedEnd, io')
      | (Some (Inl _), io') \<Rightarrow> (Inl HsWebsocket, io')
      | (Some (Inr payload), io') \<Rightarrow>
         (case frame_type_from_bytes (hs_varint H) payload of
            Inl e \<Rightarrow> (Inl (HsFrameTypeError e), io')
          | Inr (t, rest) \<Rightarrow>
             (if t \<in> set expected then (Inr (t, rest), io')
              else (Inl (HsUnexpectedFrameType t expected), io'))))"

text \<open>Deserialising a \<open>PublicKey\<close> field runs the check of \<open>PublicKey::try_from\<close>.\<close>

definition deserialize_client_auth :: "handshake_env \<Rightarrow> bytes \<Rightarrow> hs_error + client_auth" where
  "deserialize_client_auth H b =
     (case pc_client_auth_from H b of
        None \<Rightarrow> Inl (HsDeserializationError FT_ClientAuth)
      | Some (k, s) \<Rightarrow>
         (case public_key_try_from (hs_ed H) k of
            Inl _ \<Rightarrow> Inl (HsDeserializationError FT_ClientAuth)
          | Inr key \<Rightarrow> Inr \<lparr>ca_public_key = key, ca_signature = s\<rparr>))"

definition deserialize_key_auth :: "handshake_env \<Rightarrow> bytes \<Rightarrow> key_material_client_auth option" where
  "deserialize_key_auth H b =
     (case pc_key_auth_from H b of
        None \<Rightarrow> None
      | Some (k, s, x) \<Rightarrow>
         (case public_key_try_from (hs_ed H) k of
            Inl _ \<Rightarrow> None
          | Inr key \<Rightarrow> Some \<lparr>kma_public_key = key, kma_signature = s, kma_suffix = x\<rparr>))"

section \<open>Proofs of key ownership\<close>

definition message_to_sign :: "handshake_env \<Rightarrow> bytes \<Rightarrow> bytes" where
  "message_to_sign H challenge = hs_derive_key H DOMAIN_SEP_CHALLENGE challenge"

definition client_auth_new :: "handshake_env \<Rightarrow> secret_key \<Rightarrow> bytes \<Rightarrow> client_auth" where
  "client_auth_new H sk challenge =
     \<lparr>ca_public_key = secret_key_public (hs_ed H) sk,
      ca_signature = secret_key_sign (hs_ed H) sk (message_to_sign H challenge)\<rparr>"

definition signature_check ::
  "ed25519 \<Rightarrow> public_key \<Rightarrow> bytes \<Rightarrow> signature \<Rightarrow> (verification_error + unit) option" where
  "signature_check C key message sig =
     map_option (\<lambda>ok. if ok then Inr () else Inl (SignatureInvalid message sig key))
       (public_key_verify C key message sig)"

definition client_auth_verify ::
  "handshake_env \<Rightarrow> client_auth \<Rightarrow> bytes \<Rightarrow> (verification_error + unit) option" where
  "client_auth_verify H a challenge =
     signature_check (hs_ed H) (ca_public_key a) (message_to_sign H challenge) (ca_signature a)"

definition key_auth_new ::
  "handshake_env \<Rightarrow> secret_key \<Rightarrow> ws_io \<Rightarrow> key_material_client_auth option" where
  "key_auth_new H sk io =
     (let public_key = secret_key_public (hs_ed H) sk in
      case ws_ekm io DOMAIN_SEP_TLS_EXPORT_LABEL (Some public_key) of
        None \<Rightarrow> None
      | Some key_material \<Rightarrow>
          Some \<lparr>kma_public_key = public_key,
                kma_signature = secret_key_sign (hs_ed H) sk (take 16 key_material),
                kma_suffix = drop 16 key_material\<rparr>)"

definition into_header_value :: "handshake_env \<Rightarrow> key_material_client_auth \<Rightarrow> bytes" where
  "into_header_value H a =
     hs_b64_encode H (pc_key_auth_to H (kma_public_key a, kma_signature a, kma_suffix a))"

definition key_auth_verify ::
  "handshake_env \<Rightarrow> key_material_client_auth \<Rightarrow> ws_io \<Rightarrow> (verification_error + unit) option" where
  "key_auth_verify H a io =
     (case ws_ekm io DOMAIN_SEP_TLS_EXPORT_LABEL (Some (kma_public_key a)) of
        None \<Rightarrow> Some (Inl NoKeyingMaterial)
      | Some key_material \<Rightarrow>
         (let message = take 16 key_material; suff = drop 16 key_material in
          if suff \<noteq> kma_suffix a then Some (Inl (MismatchedSuffix (kma_suffix a) suff))
          else signature_check (hs_ed H) (kma_public_key a) message (kma_signature a)))"

section \<open>The client\<close>

definition clientside_finish :: "handshake_env \<Rightarrow> frame_type \<Rightarrow> bytes \<Rightarrow> (hs_error + unit) option" where
  "clientside_finish H tag frame =
     (case tag of
        FT_ServerConfirmsAuth \<Rightarrow>
          Some (ok_or (HsDeserializationError FT_ServerConfirmsAuth) (pc_confirms_from H frame))
      | FT_ServerDeniesAuth \<Rightarrow>
          Some (case pc_denies_from H frame of
                  None \<Rightarrow> Inl (HsDeserializationError FT_ServerDeniesAuth)
                | Some reason \<Rightarrow> Inl (HsServerDeniedAuth reason))
      | _ \<Rightarrow> None)"

definition clientside ::
  "handshake_env \<Rightarrow> secret_key \<Rightarrow> ws_io \<Rightarrow> (hs_error + unit) option \<times> ws_io" where
  "clientside H sk io =
     (case read_frame H [FT_ServerChallenge, FT_ServerConfirmsAuth, FT_ServerDeniesAuth] io of
        (Inl e, io1) \<Rightarrow> (Some (Inl e), io1)
      | (Inr (tag, frame), io1) \<Rightarrow>
         (if tag = FT_ServerChallenge then
            (case pc_challenge_from H frame of
               None \<Rightarrow> (Some (Inl (HsDeserializationError FT_ServerChallenge)), io1)
             | Some challenge \<Rightarrow>
                (case write_frame H (ClientAuth (client_auth_new H sk challenge)) io1 of
                   (Inl e, io2) \<Rightarrow> (Some (Inl e), io2)
                 | (Inr _, io2) \<Rightarrow>
                    (case read_frame H [FT_ServerConfirmsAuth, FT_ServerDeniesAuth] io2 of
                       (Inl e, io3) \<Rightarrow> (Some (Inl e), io3)
                     | (Inr (tag', frame'), io3) \<Rightarrow> (clientside_finish H tag' frame', io3))))
          else (clientside_finish H tag frame, io1)))"

section \<open>The relay\<close>

datatype mechanism = SignedChallenge | SignedKeyMaterial

record successful_authentication =
  client_key :: public_key
  auth_mechanism :: mechanism

text \<open>\<open>challenge\<close> is what the random generator fills in.\<close>

definition serverside_challenge ::
  "handshake_env \<Rightarrow> bytes \<Rightarrow> ws_io \<Rightarrow> (hs_error + successful_authentication) option \<times> ws_io" where
  "serverside_challenge H challenge io =
     (case write_frame H (ServerChallenge challenge) io of
        (Inl e, io1) \<Rightarrow> (Some (Inl e), io1)
      | (Inr _, io1) \<Rightarrow>
         (case read_frame H [FT_ClientAuth] io1 of
            (Inl e, io2) \<Rightarrow> (Some (Inl e), io2)
          | (Inr (_, frame), io2) \<Rightarrow>
             (case deserialize_client_auth H frame of
                Inl e \<Rightarrow> (Some (Inl e), io2)
              | Inr client_auth \<Rightarrow>
                 (case client_auth_verify H client_auth challenge of
                    None \<Rightarrow> (None, io2)
                  | Some (Inl _) \<Rightarrow>
                     (case write_frame H (ServerDeniesAuth ''signature invalid'') io2 of
                        (Inl e, io3) \<Rightarrow> (Some (Inl e), io3)
                      | (Inr _, io3) \<Rightarrow> (Some (Inl (HsServerDeniedAuth ''signature invalid'')), io3))
                  | Some (Inr _) \<Rightarrow>
                     (Some (Inr \<lparr>client_key = ca_public_key client_auth,
                                 auth_mechanism = SignedChallenge\<rparr>), io2)))))"

definition serverside ::
  "handshake_env \<Rightarrow> bytes option \<Rightarrow> bytes \<Rightarrow> ws_io
     \<Rightarrow> (hs_error + successful_authentication) option \<times> ws_io" where
  "serverside H client_auth_header challenge io =
     (case client_auth_header of
        None \<Rightarrow> serverside_challenge H challenge io
      | Some header \<Rightarrow>
         (case hs_b64_decode H header of
            None \<Rightarrow> (Some (Inl (HsClientAuthHeaderInvalid header)), io)
          | Some b \<Rightarrow>
             (case deserialize_key_auth H b of
                None \<Rightarrow> (Some (Inl (HsClientAuthHeaderInvalid header)), io)
              | Some client_auth \<Rightarrow>
                 (case key_auth_verify H client_auth io of
                    None \<Rightarrow> (None, io)
                  | Some (Inr _) \<Rightarrow>
                     (Some (Inr \<lparr>client_key = kma_public_key client_auth,
                                 auth_mechanism = SignedKeyMaterial\<rparr>), io)
                  | Some (Inl _) \<Rightarrow> serverside_challenge H challenge io))))"

section \<open>Admission\<close>

text \<open>
  \<open>ConnectionId::next\<close> counts in a process-wide \<open>AtomicU64\<close>. The request carries the parts the
  relay reads: the values of its \<open>Authorization\<close> headers and its percent-decoded query pairs.
\<close>

definition connection_id_next :: "u64 \<Rightarrow> u64 \<times> u64" where
  "connection_id_next counter = (counter, counter + 1)"

record client_request =
  req_connection_id :: u64
  req_endpoint_id :: endpoint_id
  req_protocol_version :: protocol_version
  req_authorization :: "bytes list"
  req_query :: "(string \<times> string) list"

definition client_request_new ::
  "endpoint_id \<Rightarrow> protocol_version \<Rightarrow> bytes list \<Rightarrow> (string \<times> string) list \<Rightarrow> u64
     \<Rightarrow> client_request \<times> u64" where
  "client_request_new endpoint_id ver auth query counter =
     (case connection_id_next counter of (cid, counter') \<Rightarrow>
        (\<lparr>req_connection_id = cid, req_endpoint_id = endpoint_id, req_protocol_version = ver,
          req_authorization = auth, req_query = query\<rparr>, counter'))"

text \<open>\<open>HeaderValue::to_str\<close> succeeds on visible ASCII and tabs.\<close>

definition header_to_str :: "bytes \<Rightarrow> string option" where
  "header_to_str v =
     (if list_all (\<lambda>b. (32 \<le> unat b \<and> unat b < 127) \<or> unat b = 9) v then Some (bytes_string v)
      else None)"

fun split_once :: "char \<Rightarrow> string \<Rightarrow> (string \<times> string) option" where
  "split_once c [] = None"
| "split_once c (x # xs) =
     (if x = c then Some ([], xs)
      else case split_once c xs of None \<Rightarrow> None | Some (a, b) \<Rightarrow> Some (x # a, b))"

definition eq_ignore_ascii_case :: "string \<Rightarrow> string \<Rightarrow> bool" where
  "eq_ignore_ascii_case a b \<longleftrightarrow> to_ascii_uppercase a = to_ascii_uppercase b"

definition bearer_token :: "string \<Rightarrow> string option" where
  "bearer_token value =
     (case split_once CHR '' '' value of
        Some (scheme, token) \<Rightarrow>
          if eq_ignore_ascii_case scheme ''Bearer'' then Some token else None
      | None \<Rightarrow> None)"

text \<open>The loop over the headers: \<open>Some r\<close> is a return from the function with \<open>r\<close>.\<close>

fun auth_token_headers :: "bytes list \<Rightarrow> string option option" where
  "auth_token_headers [] = None"
| "auth_token_headers (v # vs) =
     (case header_to_str v of
        None \<Rightarrow> Some None
      | Some value \<Rightarrow>
         (case bearer_token value of
            Some token \<Rightarrow> Some (Some token)
          | None \<Rightarrow> auth_token_headers vs))"

definition auth_token :: "client_request \<Rightarrow> string option" where
  "auth_token r =
     (case auth_token_headers (req_authorization r) of
        Some result \<Rightarrow> result
      | None \<Rightarrow> map_option snd (find (\<lambda>(name, _). name = ''token'') (req_query r)))"

datatype access = Allow | Deny "string option"

record on_disconnect_guard =
  guard_access :: bool
  guard_endpoint_id :: endpoint_id
  guard_connection_id :: u64

definition guard_for_access_control :: "client_request \<Rightarrow> on_disconnect_guard" where
  "guard_for_access_control r =
     \<lparr>guard_access = True, guard_endpoint_id = req_endpoint_id r,
      guard_connection_id = req_connection_id r\<rparr>"

definition guard_empty :: "endpoint_id \<Rightarrow> u64 \<Rightarrow> on_disconnect_guard \<times> u64" where
  "guard_empty endpoint_id counter =
     (case connection_id_next counter of (cid, counter') \<Rightarrow>
        (\<lparr>guard_access = False, guard_endpoint_id = endpoint_id, guard_connection_id = cid\<rparr>, counter'))"

text \<open>Dropping a guard makes these \<open>on_disconnect\<close> calls.\<close>

definition guard_drop :: "on_disconnect_guard \<Rightarrow> (endpoint_id \<times> u64) list" where
  "guard_drop g = (if guard_access g then [(guard_endpoint_id g, guard_connection_id g)] else [])"

definition auth_accept ::
  "handshake_env \<Rightarrow> successful_authentication \<Rightarrow> ws_io \<Rightarrow> (hs_error + public_key) \<times> ws_io" where
  "auth_accept H a io =
     (case write_frame H ServerConfirmsAuth io of
        (Inl e, io') \<Rightarrow> (Inl e, io')
      | (Inr _, io') \<Rightarrow> (Inr (client_key a), io'))"

definition auth_deny :: "handshake_env \<Rightarrow> string option \<Rightarrow> ws_io \<Rightarrow> hs_error \<times> ws_io" where
  "auth_deny H reason io =
     (let reason = (case reason of None \<Rightarrow> ''not authorized'' | Some r \<Rightarrow> r) in
      case write_frame H (ServerDeniesAuth reason) io of
        (Inl e, io') \<Rightarrow> (e, io')
      | (Inr _, io') \<Rightarrow> (HsServerDeniedAuth reason, io'))"

definition authorize_if ::
  "handshake_env \<Rightarrow> successful_authentication \<Rightarrow> access \<Rightarrow> ws_io \<Rightarrow> (hs_error + public_key) \<times> ws_io" where
  "authorize_if H a acc io =
     (case acc of
        Allow \<Rightarrow> auth_accept H a io
      | Deny reason \<Rightarrow> (case auth_deny H reason io of (e, io') \<Rightarrow> (Inl e, io')))"

text \<open>The third component is the \<open>on_disconnect\<close> calls made by guards dropped on the way out.\<close>

definition authorize_with ::
  "handshake_env \<Rightarrow> successful_authentication \<Rightarrow> client_request \<Rightarrow> (client_request \<Rightarrow> access) \<Rightarrow> ws_io
     \<Rightarrow> (hs_error + on_disconnect_guard) \<times> ws_io \<times> (endpoint_id \<times> u64) list" where
  "authorize_with H a request on_connect io =
     (case on_connect request of
        Allow \<Rightarrow>
          (let guard = guard_for_access_control request in
           case auth_accept H a io of
             (Inl e, io') \<Rightarrow> (Inl e, io', guard_drop guard)
           | (Inr _, io') \<Rightarrow> (Inr guard, io', []))
      | Deny reason \<Rightarrow> (case auth_deny H reason io of (e, io') \<Rightarrow> (Inl e, io', [])))"

text \<open>
  The part of \<open>Inner::accept\<close> (\<open>iroh-relay/src/server/http_server.rs\<close>) from the upgraded
  connection to the guard of the admitted client: authentication, then the request with a fresh
  connection id, then authorisation.
\<close>

definition relay_accept ::
  "handshake_env \<Rightarrow> (client_request \<Rightarrow> access) \<Rightarrow> bytes option \<Rightarrow> protocol_version \<Rightarrow> bytes list
     \<Rightarrow> (string \<times> string) list \<Rightarrow> bytes \<Rightarrow> u64 \<Rightarrow> ws_io
     \<Rightarrow> (hs_error + on_disconnect_guard) option \<times> u64 \<times> ws_io \<times> (endpoint_id \<times> u64) list" where
  "relay_accept H on_connect header ver auth query challenge counter io =
     (case serverside H header challenge io of
        (None, io1) \<Rightarrow> (None, counter, io1, [])
      | (Some (Inl e), io1) \<Rightarrow> (Some (Inl e), counter, io1, [])
      | (Some (Inr a), io1) \<Rightarrow>
         (case client_request_new (client_key a) ver auth query counter of (request, counter') \<Rightarrow>
            (case authorize_with H a request on_connect io1 of
               (r, io2, drops) \<Rightarrow> (Some r, counter', io2, drops))))"

section \<open>Frames on the wire\<close>

lemma handshake_env_okD:
  assumes "handshake_env_ok H"
  shows "varint_ok (hs_varint H)" "ed25519_ok (hs_ed H)"
    "length c = 16 \<Longrightarrow> pc_challenge_from H (pc_challenge_to H c) = Some c"
    "length k = 32 \<Longrightarrow> length s = 64 \<Longrightarrow>
       pc_client_auth_from H (pc_client_auth_to H (k, s)) = Some (k, s)"
    "pc_confirms_from H (pc_confirms_to H) = Some ()"
    "pc_denies_from H (pc_denies_to H r) = Some r"
    "length k = 32 \<Longrightarrow> length s = 64 \<Longrightarrow> length x = 16 \<Longrightarrow>
       pc_key_auth_from H (pc_key_auth_to H (k, s, x)) = Some (k, s, x)"
    "hs_b64_decode H (hs_b64_encode H b) = Some b"
  using assms by (simp_all add: handshake_env_ok_def)

lemma frame_type_frame_bytes:
  "varint_ok (hs_varint H) \<Longrightarrow>
     frame_type_from_bytes (hs_varint H) (frame_bytes H f) = Inr (frame_TAG f, frame_serialize H f)"
  by (simp add: frame_bytes_def frame_type_write_to_def frame_type_roundtrip)

lemma read_frame_delivered:
  assumes "varint_ok (hs_varint H)" "ws_in io = WsMsg (WsBinary (frame_bytes H f)) # es"
  shows "read_frame H expected io =
    (if frame_TAG f \<in> set expected then Inr (frame_TAG f, frame_serialize H f)
     else Inl (HsUnexpectedFrameType (frame_TAG f) expected), io\<lparr>ws_in := es\<rparr>)"
  using assms by (simp add: read_frame_def frame_type_frame_bytes)

lemma write_frame_ok:
  "ws_send_ok io (length (ws_out io)) \<Longrightarrow>
     write_frame H f io = (Inr (), io\<lparr>ws_out := ws_out io @ [frame_bytes H f]\<rparr>)"
  by (simp add: write_frame_def ws_start_send_def)

lemma write_frame_cases:
  "write_frame H f io = (Inr (), io\<lparr>ws_out := ws_out io @ [frame_bytes H f]\<rparr>) \<or>
   write_frame H f io = (Inl HsWebsocket, io)"
  by (simp add: write_frame_def ws_start_send_def)

lemma read_frame_tag: "read_frame H expected io = (Inr (t, b), io') \<Longrightarrow> t \<in> set expected"
  by (auto simp: read_frame_def split: prod.splits option.splits sum.splits if_splits)

lemma read_frame_out: "read_frame H expected io = (r, io') \<Longrightarrow> ws_out io' = ws_out io"
  by (auto simp: read_frame_def ws_next_def split: prod.splits option.splits sum.splits if_splits)

lemma frame_bytes_TAG_inj:
  "varint_ok (hs_varint H) \<Longrightarrow> frame_bytes H f = frame_bytes H g \<Longrightarrow> frame_TAG f = frame_TAG g"
  by (metis Inr_inject frame_type_frame_bytes fst_conv)

section \<open>Neither side panics\<close>

lemma clientside_total: "fst (clientside H sk io) \<noteq> None"
  unfolding clientside_def
  by (auto simp: clientside_finish_def split: prod.splits sum.splits option.splits
      dest!: read_frame_tag)

lemma signature_check_total: "signature_check C k m s = None \<Longrightarrow> \<not> key_valid C k"
  using public_key_verify_total [of C k m s] by (auto simp: signature_check_def)

lemma signature_check_Inr:
  "key_valid C k \<Longrightarrow> signature_check C k m s = Some (Inr ()) \<longleftrightarrow> vk_verify_strict C k m s"
  by (simp add: signature_check_def public_key_verify_def key_valid_def)

lemma deserialize_client_auth_valid:
  "ed25519_ok (hs_ed H) \<Longrightarrow> deserialize_client_auth H b = Inr a \<Longrightarrow> key_valid (hs_ed H) (ca_public_key a)"
  by (auto simp: deserialize_client_auth_def split: option.splits sum.splits
      dest!: public_key_try_from_InrD)

lemma deserialize_key_auth_valid:
  "ed25519_ok (hs_ed H) \<Longrightarrow> deserialize_key_auth H b = Some a \<Longrightarrow> key_valid (hs_ed H) (kma_public_key a)"
  by (auto simp: deserialize_key_auth_def split: option.splits sum.splits
      dest!: public_key_try_from_InrD)

lemma serverside_challenge_total:
  assumes "ed25519_ok (hs_ed H)"
  shows "fst (serverside_challenge H ch io) \<noteq> None"
  using deserialize_client_auth_valid [OF assms]
  by (auto simp: serverside_challenge_def client_auth_verify_def
      split: prod.splits sum.splits option.splits dest!: signature_check_total)

lemma serverside_total:
  assumes "ed25519_ok (hs_ed H)"
  shows "fst (serverside H header ch io) \<noteq> None"
  using deserialize_key_auth_valid [OF assms] serverside_challenge_total [OF assms]
  by (auto simp: serverside_def key_auth_verify_def Let_def
      split: prod.splits sum.splits option.splits if_splits dest!: signature_check_total)

section \<open>Authentication\<close>

text \<open>The evidence for a key: a signature that the client sent, valid for what it had to sign.\<close>

definition challenge_evidence :: "handshake_env \<Rightarrow> bytes \<Rightarrow> ws_io \<Rightarrow> public_key \<Rightarrow> bool" where
  "challenge_evidence H challenge io k \<longleftrightarrow>
     (\<exists>b rest sig es. ws_poll_next (ws_in io) = (Some (Inr b), es) \<and>
        frame_type_from_bytes (hs_varint H) b = Inr (FT_ClientAuth, rest) \<and>
        pc_client_auth_from H rest = Some (k, sig) \<and>
        vk_verify_strict (hs_ed H) k (message_to_sign H challenge) sig)"

definition key_material_evidence ::
  "handshake_env \<Rightarrow> bytes option \<Rightarrow> ws_io \<Rightarrow> public_key \<Rightarrow> bool" where
  "key_material_evidence H header io k \<longleftrightarrow>
     (\<exists>h b sig km. header = Some h \<and> hs_b64_decode H h = Some b \<and>
        ws_ekm io DOMAIN_SEP_TLS_EXPORT_LABEL (Some k) = Some km \<and>
        pc_key_auth_from H b = Some (k, sig, drop 16 km) \<and>
        vk_verify_strict (hs_ed H) k (take 16 km) sig)"

lemma read_frame_Inr:
  "read_frame H ts io = (Inr (t, rest), io') \<Longrightarrow>
     \<exists>b es. ws_poll_next (ws_in io) = (Some (Inr b), es) \<and>
       frame_type_from_bytes (hs_varint H) b = Inr (t, rest) \<and> t \<in> set ts"
  by (auto simp: read_frame_def ws_next_def split: prod.splits option.splits sum.splits if_splits)

lemma deserialize_client_auth_fields:
  "ed25519_ok (hs_ed H) \<Longrightarrow> deserialize_client_auth H b = Inr a \<Longrightarrow>
     pc_client_auth_from H b = Some (ca_public_key a, ca_signature a)"
  by (fastforce simp: deserialize_client_auth_def split: option.splits sum.splits
      dest: public_key_try_from_InrD)

lemma deserialize_key_auth_fields:
  "ed25519_ok (hs_ed H) \<Longrightarrow> deserialize_key_auth H b = Some a \<Longrightarrow>
     pc_key_auth_from H b = Some (kma_public_key a, kma_signature a, kma_suffix a)"
  by (fastforce simp: deserialize_key_auth_def split: option.splits sum.splits
      dest: public_key_try_from_InrD)

lemma write_frame_in: "write_frame H f io = (r, io') \<Longrightarrow> ws_in io' = ws_in io"
  using write_frame_cases [of H f io] by auto

lemma serverside_challenge_authentic:
  assumes ed: "ed25519_ok (hs_ed H)" and r: "fst (serverside_challenge H ch io) = Some (Inr a)"
  shows "auth_mechanism a = SignedChallenge \<and> key_valid (hs_ed H) (client_key a)
    \<and> challenge_evidence H ch io (client_key a)"
proof -
  obtain io1 io2 frame t ca where
    *: "write_frame H (ServerChallenge ch) io = (Inr (), io1)"
      "read_frame H [FT_ClientAuth] io1 = (Inr (t, frame), io2)"
      "deserialize_client_auth H frame = Inr ca"
      "client_auth_verify H ca ch = Some (Inr ())"
      "a = \<lparr>client_key = ca_public_key ca, auth_mechanism = SignedChallenge\<rparr>"
    using r by (auto simp: serverside_challenge_def split: prod.splits sum.splits option.splits)
  show ?thesis
    using read_frame_Inr [OF *(2)] write_frame_in [OF *(1)] *(4,5)
      deserialize_client_auth_fields [OF ed *(3)] deserialize_client_auth_valid [OF ed *(3)]
    by (auto simp: challenge_evidence_def client_auth_verify_def signature_check_Inr)
qed

lemma key_auth_verify_Inr:
  assumes "key_valid (hs_ed H) (kma_public_key a)" "key_auth_verify H a io = Some (Inr ())"
  shows "\<exists>km. ws_ekm io DOMAIN_SEP_TLS_EXPORT_LABEL (Some (kma_public_key a)) = Some km \<and>
    kma_suffix a = drop 16 km \<and> vk_verify_strict (hs_ed H) (kma_public_key a) (take 16 km) (kma_signature a)"
  using assms
  by (auto simp: key_auth_verify_def Let_def signature_check_Inr split: option.splits if_splits)

lemma serverside_header_or_challenge:
  assumes "fst (serverside H header ch io) = Some (Inr a)"
  shows "serverside H header ch io = serverside_challenge H ch io \<or>
    (\<exists>h b ka. header = Some h \<and> hs_b64_decode H h = Some b \<and> deserialize_key_auth H b = Some ka \<and>
       key_auth_verify H ka io = Some (Inr ()) \<and>
       a = \<lparr>client_key = kma_public_key ka, auth_mechanism = SignedKeyMaterial\<rparr>)"
  using assms by (auto simp: serverside_def split: option.splits sum.splits)

lemma serverside_authenticated:
  assumes ed: "ed25519_ok (hs_ed H)" and r: "fst (serverside H header ch io) = Some (Inr a)"
  shows "key_valid (hs_ed H) (client_key a) \<and>
    (case auth_mechanism a of
       SignedChallenge \<Rightarrow> challenge_evidence H ch io (client_key a)
     | SignedKeyMaterial \<Rightarrow> key_material_evidence H header io (client_key a))"
  using serverside_header_or_challenge [OF r]
proof (elim disjE exE conjE)
  assume "serverside H header ch io = serverside_challenge H ch io"
  then show ?thesis using serverside_challenge_authentic [OF ed, of ch io a] r by simp
next
  fix h b ka
  assume *: "header = Some h" "hs_b64_decode H h = Some b" "deserialize_key_auth H b = Some ka"
    "key_auth_verify H ka io = Some (Inr ())"
    "a = \<lparr>client_key = kma_public_key ka, auth_mechanism = SignedKeyMaterial\<rparr>"
  show ?thesis
    using * deserialize_key_auth_fields [OF ed *(3)] deserialize_key_auth_valid [OF ed *(3)]
      key_auth_verify_Inr [of H ka io]
    by (auto simp: key_material_evidence_def)
qed

section \<open>What the relay sends\<close>

lemma write_frame_out:
  "write_frame H f io = (r, io') \<Longrightarrow>
     ws_out io' = ws_out io @ (if is_ok r then [frame_bytes H f] else [])"
  using write_frame_cases [of H f io] by auto

lemma serverside_challenge_out:
  "\<exists>fs. ws_out (snd (serverside_challenge H ch io)) = ws_out io @ fs \<and>
     set fs \<subseteq> {frame_bytes H (ServerChallenge ch), frame_bytes H (ServerDeniesAuth ''signature invalid'')}"
proof -
  obtain r1 io1 where w: "write_frame H (ServerChallenge ch) io = (r1, io1)" by force
  obtain r2 io2 where r: "read_frame H [FT_ClientAuth] io1 = (r2, io2)" by force
  obtain r3 io3 where d: "write_frame H (ServerDeniesAuth ''signature invalid'') io2 = (r3, io3)" by force
  show ?thesis
    using write_frame_out [OF w] read_frame_out [OF r] write_frame_out [OF d]
    by (auto simp: serverside_challenge_def w r d split: sum.splits option.splits)
qed

lemma serverside_out:
  "\<exists>fs. ws_out (snd (serverside H header ch io)) = ws_out io @ fs \<and>
     set fs \<subseteq> {frame_bytes H (ServerChallenge ch), frame_bytes H (ServerDeniesAuth ''signature invalid'')}"
  using serverside_challenge_out [of H ch io]
  by (auto simp: serverside_def split: option.splits sum.splits)

lemma confirm_frame_distinct:
  assumes "varint_ok (hs_varint H)"
  shows "frame_bytes H ServerConfirmsAuth \<noteq> frame_bytes H (ServerChallenge c)"
    "frame_bytes H ServerConfirmsAuth \<noteq> frame_bytes H (ServerDeniesAuth r)"
  using frame_bytes_TAG_inj [OF assms] by fastforce+

text \<open>\<open>authorize_with\<close> sends one frame, the verdict; it admits exactly when that frame confirms.\<close>

lemma authorize_with_cases:
  assumes "authorize_with H a request on_connect io = (r, io', drops)"
  obtains
    (admitted) "on_connect request = Allow" "r = Inr (guard_for_access_control request)"
      "ws_out io' = ws_out io @ [frame_bytes H ServerConfirmsAuth]" "drops = []"
  | (lost) "on_connect request = Allow" "r = Inl HsWebsocket" "ws_out io' = ws_out io"
      "drops = [(req_endpoint_id request, req_connection_id request)]"
  | (denied) reason e where "on_connect request = Deny reason" "r = Inl e" "drops = []"
      "ws_out io' = ws_out io @
         (if e = HsWebsocket then [] else
           [frame_bytes H (ServerDeniesAuth (case reason of None \<Rightarrow> ''not authorized'' | Some x \<Rightarrow> x))])"
proof (cases "on_connect request")
  case Allow
  then show ?thesis
    using assms write_frame_cases [of H ServerConfirmsAuth io] that(1,2)
    by (auto simp: authorize_with_def auth_accept_def guard_drop_def guard_for_access_control_def)
next
  case (Deny reason)
  let ?f = "ServerDeniesAuth (case reason of None \<Rightarrow> ''not authorized'' | Some x \<Rightarrow> x)"
  show ?thesis
    using assms Deny write_frame_cases [of H ?f io] that(3)
    by (auto simp: authorize_with_def auth_deny_def Let_def)
qed

lemma relay_accept_admits:
  assumes "relay_accept H on_connect header ver auth query ch counter io = (Some (Inr g), counter', io', drops)"
  obtains a io1 where "serverside H header ch io = (Some (Inr a), io1)"
    "g = guard_for_access_control \<lparr>req_connection_id = counter, req_endpoint_id = client_key a,
       req_protocol_version = ver, req_authorization = auth, req_query = query\<rparr>"
    "on_connect \<lparr>req_connection_id = counter, req_endpoint_id = client_key a,
       req_protocol_version = ver, req_authorization = auth, req_query = query\<rparr> = Allow"
    "ws_out io' = ws_out io1 @ [frame_bytes H ServerConfirmsAuth]" "counter' = counter + 1" "drops = []"
proof -
  obtain a io1 where a: "serverside H header ch io = (Some (Inr a), io1)"
    using assms by (auto simp: relay_accept_def split: prod.splits option.splits sum.splits)
  let ?r = "\<lparr>req_connection_id = counter, req_endpoint_id = client_key a,
       req_protocol_version = ver, req_authorization = auth, req_query = query\<rparr>"
  have w: "authorize_with H a ?r on_connect io1 = (Inr g, io', drops)" "counter' = counter + 1"
    using assms a
    by (simp_all add: relay_accept_def client_request_new_def connection_id_next_def split: prod.splits)
  show ?thesis
    using w(1)
  proof (cases rule: authorize_with_cases)
    case admitted
    then show ?thesis using that [OF a _ _ _ w(2)] by simp
  qed simp_all
qed

lemma relay_accept_rejects:
  assumes "relay_accept H on_connect header ver auth query ch counter io = (Some (Inl e), counter', io', drops)"
  shows "counter' = counter \<and> drops = [] \<or>
    counter' = counter + 1 \<and> (drops = [] \<or> (\<exists>k. drops = [(k, counter)]))"
proof (cases "fst (serverside H header ch io)")
  case None
  then show ?thesis using assms by (auto simp: relay_accept_def split: prod.splits)
next
  case (Some r)
  then obtain io1 where s: "serverside H header ch io = (Some r, io1)" by (cases "serverside H header ch io") auto
  show ?thesis
  proof (cases r)
    case (Inl x)
    then show ?thesis using assms s by (simp add: relay_accept_def)
  next
    case (Inr a)
    let ?r = "\<lparr>req_connection_id = counter, req_endpoint_id = client_key a,
       req_protocol_version = ver, req_authorization = auth, req_query = query\<rparr>"
    have w: "authorize_with H a ?r on_connect io1 = (Inl e, io', drops)" "counter' = counter + 1"
      using assms s Inr
      by (simp_all add: relay_accept_def client_request_new_def connection_id_next_def split: prod.splits)
    show ?thesis using w(1) w(2) by (cases rule: authorize_with_cases) auto
  qed
qed

section \<open>Agreement\<close>

lemma honest_client_auth:
  assumes "handshake_env_ok H" "length sk = 32"
  shows "deserialize_client_auth H (frame_serialize H (ClientAuth (client_auth_new H sk ch)))
      = Inr (client_auth_new H sk ch)"
    and "client_auth_verify H (client_auth_new H sk ch) ch = Some (Inr ())"
proof -
  have ed: "ed25519_ok (hs_ed H)" using assms by (simp add: handshake_env_okD)
  have v: "key_valid (hs_ed H) (secret_key_public (hs_ed H) sk)"
    by (rule secret_key_public_valid [OF ed assms(2)])
  have l: "length (secret_key_sign (hs_ed H) sk m) = 64" for m
    using ed assms(2) by (simp add: ed25519_ok_def secret_key_sign_def)
  show "deserialize_client_auth H (frame_serialize H (ClientAuth (client_auth_new H sk ch)))
      = Inr (client_auth_new H sk ch)"
    using v l handshake_env_okD(4) [OF assms(1)]
    by (simp add: deserialize_client_auth_def client_auth_new_def key_valid_def PUBLIC_KEY_LENGTH_def
        public_key_try_from_def)
  show "client_auth_verify H (client_auth_new H sk ch) ch = Some (Inr ())"
    using public_key_verify_own_signature [OF ed assms(2)]
    by (simp add: client_auth_verify_def client_auth_new_def signature_check_def)
qed

text \<open>A connection with an open sink that delivers the given frames and then ends.\<close>

definition conn :: "(bytes \<Rightarrow> bytes option \<Rightarrow> bytes option) \<Rightarrow> bytes list \<Rightarrow> ws_io" where
  "conn ekm frames = \<lparr>ws_in = delivered frames, ws_out = [], ws_send_ok = (\<lambda>_. True), ws_ekm = ekm\<rparr>"

lemma conn_sel [simp]:
  "ws_in (conn ekm fs) = delivered fs" "ws_out (conn ekm fs) = []" "ws_send_ok (conn ekm fs) n"
  "ws_ekm (conn ekm fs) = ekm"
  by (simp_all add: conn_def)

lemma serverside_challenge_honest:
  assumes "handshake_env_ok H" "length sk = 32"
  shows "serverside_challenge H ch (conn ekm (frame_bytes H (ClientAuth (client_auth_new H sk ch)) # fs))
    = (Some (Inr \<lparr>client_key = secret_key_public (hs_ed H) sk, auth_mechanism = SignedChallenge\<rparr>),
       (conn ekm fs)\<lparr>ws_out := [frame_bytes H (ServerChallenge ch)]\<rparr>)"
  using assms honest_client_auth [OF assms]
  by (simp add: serverside_challenge_def write_frame_ok read_frame_delivered handshake_env_okD(1))
    (simp add: client_auth_new_def conn_def)

lemma serverside_challenge_first_frame:
  "\<exists>fs'. ws_out (snd (serverside_challenge H ch (conn ekm fs))) = frame_bytes H (ServerChallenge ch) # fs'"
proof -
  let ?io1 = "(conn ekm fs)\<lparr>ws_out := [frame_bytes H (ServerChallenge ch)]\<rparr>"
  obtain r2 io2 where r: "read_frame H [FT_ClientAuth] ?io1 = (r2, io2)" by force
  obtain r3 io3 where d: "write_frame H (ServerDeniesAuth ''signature invalid'') io2 = (r3, io3)" by force
  show ?thesis
    using read_frame_out [OF r] write_frame_out [OF d]
    by (auto simp: serverside_challenge_def write_frame_ok r d split: sum.splits option.splits)
qed

lemma relay_accept_first_frame:
  assumes "relay_accept H on_connect None ver auth query ch counter (conn ekm fs) = (r, counter', io', drops)"
  shows "\<exists>fs'. ws_out io' = frame_bytes H (ServerChallenge ch) # fs'"
proof -
  obtain r1 io1 where s: "serverside_challenge H ch (conn ekm fs) = (r1, io1)" by force
  obtain fs1 where f: "ws_out io1 = frame_bytes H (ServerChallenge ch) # fs1"
    using serverside_challenge_first_frame [of H ch ekm fs] s by auto
  have "\<exists>fs2. ws_out io2 = ws_out io1 @ fs2"
    if "authorize_with H a request on_connect io1 = (r2, io2, drops)" for a request r2 io2 drops
    using that by (cases rule: authorize_with_cases) simp_all
  with assms f show ?thesis
    by (fastforce simp: relay_accept_def serverside_def s split: prod.splits option.splits sum.splits)
qed

lemma clientside_challenge:
  assumes "handshake_env_ok H" "length ch = 16"
  shows "clientside H sk (conn ekm (frame_bytes H (ServerChallenge ch) # fs)) =
    (let io2 = (conn ekm fs)\<lparr>ws_out := [frame_bytes H (ClientAuth (client_auth_new H sk ch))]\<rparr> in
     case read_frame H [FT_ServerConfirmsAuth, FT_ServerDeniesAuth] io2 of
       (Inl e, io3) \<Rightarrow> (Some (Inl e), io3)
     | (Inr (tag', frame'), io3) \<Rightarrow> (clientside_finish H tag' frame', io3))"
  using assms handshake_env_okD(3) [OF assms]
  by (simp add: clientside_def read_frame_delivered handshake_env_okD(1) write_frame_ok Let_def)
    (simp add: conn_def)

lemma clientside_challenge_out:
  assumes "handshake_env_ok H" "length ch = 16"
  shows "ws_out (snd (clientside H sk (conn ekm (frame_bytes H (ServerChallenge ch) # fs))))
    = [frame_bytes H (ClientAuth (client_auth_new H sk ch))]"
  unfolding clientside_challenge [OF assms] Let_def
  by (auto split: prod.splits sum.splits dest!: read_frame_out)

lemma clientside_verdict:
  assumes "handshake_env_ok H" "length ch = 16" "v \<in> {ServerConfirmsAuth, ServerDeniesAuth r}"
  shows "fst (clientside H sk (conn ekm [frame_bytes H (ServerChallenge ch), frame_bytes H v]))
    = Some (if v = ServerConfirmsAuth then Inr () else Inl (HsServerDeniedAuth r))"
  unfolding clientside_challenge [OF assms(1,2)] Let_def
  using assms(3) handshake_env_okD(5,6) [OF assms(1)]
  by (auto simp: read_frame_delivered handshake_env_okD(1) [OF assms(1)] clientside_finish_def)

section \<open>Authentication without a round trip\<close>

lemma key_material_fast_path:
  assumes H: "handshake_env_ok H" and sk: "length sk = 32"
    and new: "key_auth_new H sk io = Some ka"
    and same: "ws_ekm io' DOMAIN_SEP_TLS_EXPORT_LABEL (Some (secret_key_public (hs_ed H) sk))
             = ws_ekm io DOMAIN_SEP_TLS_EXPORT_LABEL (Some (secret_key_public (hs_ed H) sk))"
    and len: "\<And>km. ws_ekm io DOMAIN_SEP_TLS_EXPORT_LABEL (Some (secret_key_public (hs_ed H) sk)) = Some km
             \<Longrightarrow> length km = 32"
  shows "serverside H (Some (into_header_value H ka)) ch io' =
    (Some (Inr \<lparr>client_key = secret_key_public (hs_ed H) sk, auth_mechanism = SignedKeyMaterial\<rparr>), io')"
proof -
  let ?pk = "secret_key_public (hs_ed H) sk"
  obtain km where km: "ws_ekm io DOMAIN_SEP_TLS_EXPORT_LABEL (Some ?pk) = Some km"
    and ka: "ka = \<lparr>kma_public_key = ?pk, kma_signature = secret_key_sign (hs_ed H) sk (take 16 km),
        kma_suffix = drop 16 km\<rparr>"
    using new by (auto simp: key_auth_new_def Let_def split: option.splits)
  have ed: "ed25519_ok (hs_ed H)" using H by (simp add: handshake_env_okD)
  have pk: "key_valid (hs_ed H) ?pk" by (rule secret_key_public_valid [OF ed sk])
  have lens: "length ?pk = 32" "length (kma_signature ka) = 64" "length (kma_suffix ka) = 16"
    using pk ed sk len [OF km] ka
    by (simp_all add: key_valid_def PUBLIC_KEY_LENGTH_def ed25519_ok_def secret_key_sign_def)
  have "deserialize_key_auth H (pc_key_auth_to H (?pk, kma_signature ka, kma_suffix ka)) = Some ka"
    using handshake_env_okD(7) [OF H lens] pk ka by (simp add: deserialize_key_auth_def)
  moreover have "key_auth_verify H ka io' = Some (Inr ())"
    using km same public_key_verify_own_signature [OF ed sk]
    by (simp add: key_auth_verify_def ka signature_check_def)
  ultimately show ?thesis
    using handshake_env_okD(8) [OF H] ka by (simp add: serverside_def into_header_value_def)
qed

text \<open>A header that decodes but does not verify leaves the challenge.\<close>

lemma key_material_fallback:
  assumes "hs_b64_decode H h = Some b" "deserialize_key_auth H b = Some ka"
    "key_auth_verify H ka io = Some (Inl e)"
  shows "serverside H (Some h) ch io = serverside_challenge H ch io"
  using assms by (simp add: serverside_def)

end
