(* ===== verification/Instances.thy ===== *)
theory Instances
  imports Relay_Proto
begin

text \<open>
  Concrete instances of the third-party interfaces, on which the witnesses evaluate the model:
  the ECN bits of RFC 3168, an LRU cache on a list, RFC 9000 variable-length integers, and a
  stand-in for the signature scheme that meets the documented laws (every 32 octets are a key, a
  key is its own secret, a signature is the key followed by a checksum of the message).
\<close>

definition rfc3168_ecn :: ecn_lib where
  "rfc3168_ecn =
     \<lparr>ecn_as_u8 = (\<lambda>e. case e of Ect0 \<Rightarrow> 2 | Ect1 \<Rightarrow> 1 | Ce \<Rightarrow> 3),
      ecn_from_bits = (\<lambda>b. let n = unat b mod 4 in
         if n = 2 then Some Ect0 else if n = 1 then Some Ect1 else if n = 3 then Some Ce else None)\<rparr>"

lemma rfc3168_ecn_ok: "ecn_ok rfc3168_ecn"
proof -
  have "ecn_from_bits rfc3168_ecn (ecn_as_u8 rfc3168_ecn e) = Some e" for e
    by (cases e) (simp_all add: rfc3168_ecn_def)
  then show ?thesis by (simp add: ecn_ok_def) (simp add: rfc3168_ecn_def)
qed

definition checksum_sig :: "bytes \<Rightarrow> bytes \<Rightarrow> bytes" where
  "checksum_sig sk m = sk @ replicate 32 (foldl (\<lambda>a b. 31 * a + b) 7 m)"

definition checksum_ed25519 :: ed25519 where
  "checksum_ed25519 =
     \<lparr>vk_from_bytes = (\<lambda>b. if length b = 32 then Some b else None),
      vk_verify_strict = (\<lambda>vk m s. s = checksum_sig vk m),
      sk_verifying_key = (\<lambda>sk. sk),
      sk_sign = checksum_sig\<rparr>"

lemma checksum_ed25519_ok: "ed25519_ok checksum_ed25519"
  by (simp add: ed25519_ok_def checksum_ed25519_def checksum_sig_def)

definition list_env :: "list_lru relay_env" where
  "list_env = \<lparr>env_varint = rfc9000_varint, env_ed = checksum_ed25519, env_ecn = rfc3168_ecn,
               env_lru = list_lru_lib\<rparr>"

lemma list_env_ok: "relay_env_ok list_env"
  by (simp add: relay_env_ok_def list_env_def rfc9000_varint_ok checksum_ed25519_ok rfc3168_ecn_ok
      list_lru_ok)

lemma list_env_sel [simp]:
  "env_varint list_env = rfc9000_varint" "env_ed list_env = checksum_ed25519"
  "env_ecn list_env = rfc3168_ecn" "env_lru list_env = list_lru_lib"
  by (simp_all add: list_env_def)

lemma checksum_key_valid [simp]: "key_valid checksum_ed25519 k \<longleftrightarrow> length k = 32"
  by (simp add: key_valid_def checksum_ed25519_def PUBLIC_KEY_LENGTH_def)

lemma list_env_cache_ready: "cache_ready list_env (key_cache_new list_lru_lib n)"
  by (simp add: cache_ready_def list_env_ok list_lru_ok)

text \<open>Lower-case hexadecimal, as \<open>data_encoding::HEXLOWER\<close> writes and reads it.\<close>

definition hex_digit :: "nat \<Rightarrow> char" where
  "hex_digit n = char_of (if n < 10 then 48 + n else 87 + n)"

definition hex_value :: "char \<Rightarrow> nat option" where
  "hex_value c = (let n = of_char c :: nat in
     if 48 \<le> n \<and> n \<le> 57 then Some (n - 48) else if 97 \<le> n \<and> n \<le> 102 then Some (n - 87) else None)"

definition hexlower_encode :: "bytes \<Rightarrow> string" where
  "hexlower_encode b = concat (map (\<lambda>x. [hex_digit (unat x div 16), hex_digit (unat x mod 16)]) b)"

fun hexlower_decode :: "string \<Rightarrow> bytes option" where
  "hexlower_decode [] = Some []"
| "hexlower_decode [_] = None"
| "hexlower_decode (a # b # s) =
     (case (hex_value a, hex_value b, hexlower_decode s) of
        (Some x, Some y, Some r) \<Rightarrow> Some (of_nat (16 * x + y) # r) | _ \<Rightarrow> None)"

lemma hex_value_digit: "n < 16 \<Longrightarrow> hex_value (hex_digit n) = Some n"
  by (auto simp: hex_value_def hex_digit_def Let_def of_char_of)

lemma hexlower_roundtrip: "hexlower_decode (hexlower_encode b) = Some b"
proof (induction b)
  case (Cons x b)
  have "unat x div 16 < 16" using unat_byte_less [of x] by (intro less_mult_imp_div_less) simp
  moreover have "16 * (unat x div 16) + unat x mod 16 = unat x" by simp
  ultimately show ?case
    using Cons by (simp add: hexlower_encode_def hex_value_digit flip: of_nat_mult of_nat_add)
qed (simp add: hexlower_encode_def)

lemma length_hexlower_encode: "length (hexlower_encode b) = 2 * length b"
  by (induction b) (simp_all add: hexlower_encode_def)

lemma length_hexlower_decode: "hexlower_decode s = Some b \<Longrightarrow> 2 * length b = length s"
  by (induction s arbitrary: b rule: hexlower_decode.induct) (auto split: option.splits)

definition hex_encodings :: text_encodings where
  "hex_encodings =
     \<lparr>hex_encode = hexlower_encode, hex_decode = hexlower_decode,
      base32_decode_len = (\<lambda>n. Some (n * 5 div 8)), base32_decode = (\<lambda>s. None),
      z32_encode = hexlower_encode, z32_decode = hexlower_decode\<rparr>"

lemma hex_digit_mem: "n < 16 \<Longrightarrow> hex_digit n \<in> set ''0123456789abcdef''"
proof -
  assume "n < 16"
  moreover have "\<forall>n \<in> set [0..<16]. hex_digit n \<in> set ''0123456789abcdef''" by code_simp
  ultimately show ?thesis by (metis set_upt atLeastLessThan_iff le0)
qed

lemma hexlower_digits:
  assumes "\<And>n. n < 16 \<Longrightarrow> hex_digit n \<in> H"
  shows "set (hexlower_encode b) \<subseteq> H"
proof (induction b)
  case (Cons x b)
  have "unat x div 16 < 16" using unat_byte_less [of x] by (intro less_mult_imp_div_less) simp
  then show ?case using Cons by (auto simp: hexlower_encode_def assms)
qed (simp add: hexlower_encode_def)

lemma hex_encodings_ok: "text_encodings_ok hex_encodings"
  unfolding text_encodings_ok_def hex_encodings_def text_encodings.simps
  using hexlower_digits [OF hex_digit_mem] hexlower_roundtrip length_hexlower_encode length_hexlower_decode
  by blast

end
