(* ===== verification/Handshake_Instance.thy ===== *)
theory Handshake_Instance
  imports Handshake Instances
begin

text \<open>
  A concrete instance of the handshake's third-party interfaces, for the witnesses: structures
  are the concatenation of their fields, the derived key is a checksum of the context and the
  material, and the header encoding is the identity on octets.
\<close>

definition plain_env :: handshake_env where
  "plain_env =
     \<lparr>hs_varint = rfc9000_varint, hs_ed = checksum_ed25519,
      pc_challenge_to = (\<lambda>c. c), pc_challenge_from = (\<lambda>b. if length b = 16 then Some b else None),
      pc_client_auth_to = (\<lambda>(k, s). k @ s),
      pc_client_auth_from = (\<lambda>b. if length b = 96 then Some (take 32 b, drop 32 b) else None),
      pc_confirms_to = [], pc_confirms_from = (\<lambda>_. Some ()),
      pc_denies_to = string_bytes, pc_denies_from = (\<lambda>b. Some (bytes_string b)),
      pc_key_auth_to = (\<lambda>(k, s, x). k @ s @ x),
      pc_key_auth_from = (\<lambda>b. if length b = 112
         then Some (take 32 b, take 64 (drop 32 b), drop 96 b) else None),
      hs_derive_key = (\<lambda>ctx m. drop 32 (checksum_sig (replicate 32 0) (string_bytes ctx @ m))),
      hs_b64_encode = (\<lambda>b. b), hs_b64_decode = Some\<rparr>"

lemma plain_env_sel [simp]:
  "hs_ed plain_env = checksum_ed25519" "hs_varint plain_env = rfc9000_varint"
  "pc_challenge_to plain_env c = c"
  "pc_challenge_from plain_env b = (if length b = 16 then Some b else None)"
  "pc_client_auth_to plain_env (k, s) = k @ s"
  "pc_client_auth_from plain_env b = (if length b = 96 then Some (take 32 b, drop 32 b) else None)"
  "pc_confirms_to plain_env = []" "pc_confirms_from plain_env b = Some ()"
  "pc_denies_to plain_env r = string_bytes r" "pc_denies_from plain_env b = Some (bytes_string b)"
  "pc_key_auth_to plain_env (k, s, x) = k @ s @ x"
  "pc_key_auth_from plain_env b =
     (if length b = 112 then Some (take 32 b, take 64 (drop 32 b), drop 96 b) else None)"
  "hs_b64_encode plain_env b = b" "hs_b64_decode plain_env b = Some b"
  by (simp_all add: plain_env_def)

lemma plain_env_ok: "handshake_env_ok plain_env"
  unfolding handshake_env_ok_def by (simp add: rfc9000_varint_ok checksum_ed25519_ok)

end
