(* ===== verification/Relay_Properties.thy ===== *)
theory Relay_Properties
  imports Relay_Proto Handshake Handshake_Instance
begin

text \<open>
  The properties of the relay's wire protocol and of its handshake, with their witnesses on the
  concrete instances.
\<close>

section \<open>The wire protocol\<close>

text \<open>C4: Every message the relay can send within the packet limit is decoded by the client as the
  same message, whatever the key cache holds; its length is the announced one; and whatever the
  client's decoder accepts is well formed, so that encoding it again gives a frame that decodes to
  the same message.\<close>

theorem relay_to_client_wire:
  assumes "relay_env_ok R" "key_cache_inv (env_ed R) (env_lru R) cache"
  shows "(r2c_wf (env_ed R) ver m \<longrightarrow>
      fst (r2c_from_bytes R cache ver (r2c_to_bytes R m)) = Inr m \<and>
      r2c_encoded_len m = Some (length (r2c_to_bytes R m))) \<and>
    (fst (r2c_from_bytes R cache ver buf) = Inr m \<longrightarrow>
      r2c_wf (env_ed R) ver m \<and> fst (r2c_from_bytes R cache ver (r2c_to_bytes R m)) = Inr m)"
  using r2c_roundtrip [OF assms, of ver m] r2c_from_bytes_sound [OF assms, of ver buf m]
    r2c_encoded_len_announced [OF relay_env_okD(1) [OF assms(1)], of "env_ed R" ver m]
  by (auto simp: r2c_wf_def)

theorem relay_to_client_wire_witness:
  "fst (r2c_from_bytes list_env (key_cache_new list_lru_lib 4) V2
     (r2c_to_bytes list_env (R2C_Datagrams (replicate 32 7)
        \<lparr>ecn = Some Ce, segment_size = Some 2, contents = [1, 2, 3]\<rparr>)))
   = Inr (R2C_Datagrams (replicate 32 7) \<lparr>ecn = Some Ce, segment_size = Some 2, contents = [1, 2, 3]\<rparr>)"
  using relay_to_client_wire [OF list_env_ok, of "key_cache_new list_lru_lib 4" V2
      "R2C_Datagrams (replicate 32 7) \<lparr>ecn = Some Ce, segment_size = Some 2, contents = [1, 2, 3]\<rparr>"]
  by (simp add: list_lru_ok r2c_wf_def datagrams_ok_def datagrams_encoded_len_def MAX_PACKET_SIZE_def)

text \<open>C5: The relay decodes every well-formed client message to itself, accepts nothing ill-formed,
  and its decoder panics on exactly the datagram frames whose content is shorter than an
  endpoint id.\<close>

theorem client_to_relay_wire:
  assumes "relay_env_ok R" "key_cache_inv (env_ed R) (env_lru R) cache"
  shows "(c2r_wf (env_ed R) m \<longrightarrow>
      fst (c2r_from_bytes R cache (c2r_to_bytes R m)) = Some (Inr m) \<and>
      c2r_encoded_len m = Some (length (c2r_to_bytes R m))) \<and>
    (fst (c2r_from_bytes R cache buf) = Some (Inr m) \<longrightarrow> c2r_wf (env_ed R) m) \<and>
    (fst (c2r_from_bytes R cache buf) = None \<longleftrightarrow>
       (\<exists>t content. frame_type_from_bytes (env_varint R) buf = Inr (t, content) \<and>
          t \<in> {FT_ClientToRelayDatagram, FT_ClientToRelayDatagramBatch} \<and> length content < 32))"
  using c2r_roundtrip [OF assms, of m] c2r_from_bytes_sound [OF assms, of buf m]
    c2r_encoded_len_announced [OF relay_env_okD(1) [OF assms(1)], of "env_ed R" m]
    c2r_from_bytes_panics_iff [of R cache buf]
  by (simp add: c2r_wf_def)

theorem client_to_relay_wire_witness:
  "fst (c2r_from_bytes list_env (key_cache_new list_lru_lib 4)
     (c2r_to_bytes list_env (C2R_Datagrams (replicate 32 9) (datagrams_from [1, 2, 3]))))
   = Some (Inr (C2R_Datagrams (replicate 32 9) (datagrams_from [1, 2, 3])))"
  using client_to_relay_wire [OF list_env_ok, of "key_cache_new list_lru_lib 4"
      "C2R_Datagrams (replicate 32 9) (datagrams_from [1, 2, 3])"]
  by (simp add: list_lru_ok c2r_wf_def datagrams_ok_def datagrams_from_def datagrams_encoded_len_def
      MAX_PACKET_SIZE_def)

text \<open>C15: Taking segments off a datagram batch is taking datagrams off the front of the list the batch
  stands for: the batch taken holds the first \<open>n\<close>, the batch left the others, no octet is lost, and
  both are canonical, with a segment size only if they hold more than one datagram.\<close>

theorem take_segments_refines:
  assumes "datagrams_ok d" "0 < n" "\<forall>s. segment_size d = Some s \<longrightarrow> n * unat s < 2 ^ 64"
  shows "datagrams_segments (fst (take_segments n d)) = take n (datagrams_segments d) \<and>
    datagrams_segments (snd (take_segments n d)) = drop n (datagrams_segments d) \<and>
    contents (fst (take_segments n d)) @ contents (snd (take_segments n d)) = contents d \<and>
    datagrams_canonical (fst (take_segments n d)) \<and> datagrams_canonical (snd (take_segments n d))"
  using take_segments_segments [OF assms(1,2)] take_segments_canonical [OF assms(1), of n] assms(3)
  by (simp add: take_segments_contents)

theorem take_segments_refines_witness:
  "datagrams_segments (fst (take_segments 2 \<lparr>ecn = None, segment_size = Some 2, contents = [1, 2, 3, 4, 5]\<rparr>))
     = [[1, 2], [3, 4]]"
  using take_segments_refines [of "\<lparr>ecn = None, segment_size = Some 2, contents = [1, 2, 3, 4, 5]\<rparr>" 2]
  by (simp add: datagrams_ok_def) (simp add: datagrams_segments_def chunks.simps)

text \<open>The key cache is transparent: looking a key up gives what parsing it gives, errors included,
  whatever the cache holds and evicts, and the cache keeps holding only valid keys.\<close>

theorem key_cache_transparent:
  assumes "ed25519_ok C" "lru_ok L" "key_cache_inv C L cache"
  shows "fst (key_from_slice C L cache sl) = public_key_try_from C sl \<and>
    key_cache_inv C L (snd (key_from_slice C L cache sl))"
  using key_from_slice_result [OF assms(2,3)] key_from_slice_inv [OF assms] by simp

theorem key_cache_transparent_witness:
  "fst (key_from_slice checksum_ed25519 list_lru_lib (key_cache_new list_lru_lib 1) (replicate 32 3))
     = Inr (replicate 32 3)"
  using key_cache_transparent [OF checksum_ed25519_ok list_lru_ok, of "key_cache_new list_lru_lib 1" "replicate 32 3"]
  by (simp add: list_lru_ok public_key_try_from_def checksum_ed25519_def PUBLIC_KEY_LENGTH_def)

text \<open>A websocket consumer sees exactly the payloads of the binary messages, in order, up to the
  close or the first error, whatever other messages are in between; frames sent by the peer arrive
  as they were sent.\<close>

theorem ws_stream_payloads:
  "ws_drain es = binary_payloads es \<and> ws_drain (delivered fs) = fs"
  by (simp add: ws_drain_binary_payloads)

section \<open>The handshake\<close>

text \<open>C2: The relay's side of the handshake never panics, and it authenticates a client under a key
  only if that key is valid and the client sent a signature under it: of the message derived from
  this connection's challenge, or of this connection's exported keying material.\<close>

theorem handshake_authenticates:
  assumes "ed25519_ok (hs_ed H)"
  shows "\<exists>r. fst (serverside H header challenge io) = Some r \<and>
    (\<forall>a. r = Inr a \<longrightarrow> key_valid (hs_ed H) (client_key a) \<and>
       (case auth_mechanism a of
          SignedChallenge \<Rightarrow> challenge_evidence H challenge io (client_key a)
        | SignedKeyMaterial \<Rightarrow> key_material_evidence H header io (client_key a)))"
  using serverside_total [OF assms, of header challenge io]
    serverside_authenticated [OF assms, of header challenge io] by auto

theorem handshake_authenticates_witness:
  "challenge_evidence plain_env (replicate 16 5)
     (conn (\<lambda>_ _. None) [frame_bytes plain_env (ClientAuth (client_auth_new plain_env (replicate 32 1) (replicate 16 5)))])
     (secret_key_public checksum_ed25519 (replicate 32 1))"
  using handshake_authenticates [of plain_env None "replicate 16 5" "conn (\<lambda>_ _. None)
      [frame_bytes plain_env (ClientAuth (client_auth_new plain_env (replicate 32 1) (replicate 16 5)))]"]
    serverside_challenge_honest [OF plain_env_ok, of "replicate 32 1" "replicate 16 5" "\<lambda>_ _. None" "[]"]
  by (simp add: serverside_def checksum_ed25519_ok)

text \<open>C1: When a client with secret key \<open>sk\<close> and the relay run the challenge handshake against each
  other, each reading what the other sends, then the exchange is the challenge, the client's
  signature and the verdict; if access control allows the request the relay holds the guard for the
  client's public key and the client is confirmed, and otherwise both end with the denial and its
  reason.\<close>

theorem handshake_agreement:
  assumes H: "handshake_env_ok H" and len: "length sk = 32" "length ch = 16"
    and client: "ws_out (snd (clientside H sk (conn ekm_c s2c))) = c2s"
    and relay: "relay_accept H on_connect None ver auth query ch counter (conn ekm_r c2s)
      = (r, counter', io', drops)" "ws_out io' = s2c"
    and req: "req = \<lparr>req_connection_id = counter, req_endpoint_id = secret_key_public (hs_ed H) sk,
      req_protocol_version = ver, req_authorization = auth, req_query = query\<rparr>"
  shows "c2s = [frame_bytes H (ClientAuth (client_auth_new H sk ch))] \<and> drops = [] \<and>
    (case on_connect req of
       Allow \<Rightarrow> r = Some (Inr (guard_for_access_control req)) \<and>
         fst (clientside H sk (conn ekm_c s2c)) = Some (Inr ())
     | Deny reason \<Rightarrow>
         (let why = (case reason of None \<Rightarrow> ''not authorized'' | Some x \<Rightarrow> x) in
          r = Some (Inl (HsServerDeniedAuth why)) \<and>
          fst (clientside H sk (conn ekm_c s2c)) = Some (Inl (HsServerDeniedAuth why))))"
proof -
  let ?a = "\<lparr>client_key = secret_key_public (hs_ed H) sk, auth_mechanism = SignedChallenge\<rparr>"
  let ?io = "(conn ekm_r [])\<lparr>ws_out := [frame_bytes H (ServerChallenge ch)]\<rparr>"
  obtain fs where "s2c = frame_bytes H (ServerChallenge ch) # fs"
    using relay_accept_first_frame [of H on_connect ver auth query ch counter ekm_r c2s] relay by auto
  then have c2s: "c2s = [frame_bytes H (ClientAuth (client_auth_new H sk ch))]"
    using client clientside_challenge_out [OF H len(2)] by simp
  then have "serverside H None ch (conn ekm_r c2s) = (Some (Inr ?a), ?io)"
    using serverside_challenge_honest [OF H len(1), of ch ekm_r "[]"] by (simp add: serverside_def)
  then have w: "authorize_with H ?a req on_connect ?io = (the r, io', drops)" "r = Some (the r)"
    using relay(1) by (auto simp: relay_accept_def client_request_new_def connection_id_next_def req
        split: prod.splits)
  show ?thesis
    using w c2s relay(2) clientside_verdict [OF H len(2), of _ _ sk ekm_c]
    by (auto simp: authorize_with_def auth_accept_def auth_deny_def write_frame_ok Let_def
        split: access.splits)
qed

theorem handshake_agreement_witness:
  "\<exists>s2c. fst (clientside plain_env (replicate 32 1) (conn (\<lambda>_ _. None) s2c)) = Some (Inr ())"
proof -
  let ?sk = "replicate 32 1 :: bytes" and ?ch = "replicate 16 5 :: bytes" and ?none = "\<lambda>_ _. None"
  let ?c2s = "[frame_bytes plain_env (ClientAuth (client_auth_new plain_env ?sk ?ch))]"
  let ?s2c = "[frame_bytes plain_env (ServerChallenge ?ch), frame_bytes plain_env ServerConfirmsAuth]"
  let ?req = "\<lparr>req_connection_id = 7, req_endpoint_id = secret_key_public (hs_ed plain_env) ?sk,
      req_protocol_version = V2, req_authorization = [], req_query = []\<rparr>"
  let ?io = "(conn ?none [])\<lparr>ws_out := ?s2c\<rparr>"
  have "ws_out (snd (clientside plain_env ?sk (conn ?none ?s2c))) = ?c2s"
    by (rule clientside_challenge_out [OF plain_env_ok]) simp
  moreover have "relay_accept plain_env (\<lambda>_. Allow) None V2 [] [] ?ch 7 (conn ?none ?c2s) =
      (Some (Inr (guard_for_access_control ?req)), 8, ?io, [])"
    using serverside_challenge_honest [OF plain_env_ok, of ?sk ?ch ?none "[]"]
    by (simp add: relay_accept_def serverside_def client_request_new_def connection_id_next_def
        authorize_with_def auth_accept_def write_frame_ok)
  ultimately have "fst (clientside plain_env ?sk (conn ?none ?s2c)) = Some (Inr ())"
    using handshake_agreement [OF plain_env_ok, of ?sk ?ch ?none ?s2c ?c2s "\<lambda>_. Allow" V2 "[]" "[]" 7
        ?none _ 8 ?io "[]" ?req] by simp
  then show ?thesis by blast
qed



text \<open>C6: A client that exports the same keying material as the relay is authenticated from its
  header alone: the relay sends nothing and accepts its public key.\<close>

theorem header_authentication_without_round_trip:
  assumes "handshake_env_ok H" "length sk = 32" "key_auth_new H sk io = Some ka"
    and "ws_ekm io' = ws_ekm io" "\<forall>l c km. ws_ekm io l c = Some km \<longrightarrow> length km = 32"
  shows "serverside H (Some (into_header_value H ka)) ch io' =
    (Some (Inr \<lparr>client_key = secret_key_public (hs_ed H) sk, auth_mechanism = SignedKeyMaterial\<rparr>), io')"
  using assms by (intro key_material_fast_path) auto

theorem header_authentication_without_round_trip_witness:
  "\<exists>ka. serverside plain_env (Some (into_header_value plain_env ka)) [] (conn (\<lambda>_ _. Some (replicate 32 3)) []) =
    (Some (Inr \<lparr>client_key = secret_key_public (hs_ed plain_env) (replicate 32 1), auth_mechanism = SignedKeyMaterial\<rparr>),
     conn (\<lambda>_ _. Some (replicate 32 3)) [])"
proof -
  let ?io = "conn (\<lambda>_ _. Some (replicate 32 3)) []" and ?sk = "replicate 32 1 :: bytes"
  obtain ka where ka: "key_auth_new plain_env ?sk ?io = Some ka"
    by (simp add: key_auth_new_def Let_def)
  show ?thesis
    using header_authentication_without_round_trip [OF plain_env_ok _ ka, of ?io "[]"]
    by auto
qed

end
