(* ===== verification/Rate_Limit.thy ===== *)
theory Rate_Limit
  imports Nexa_Prelude
begin

text \<open>
  The token bucket and the rate-limited reader of the relay (\<open>Bucket\<close> and \<open>RateLimited\<close> of
  \<open>iroh-relay/src/server/streams.rs\<close>, \<open>ClientRateLimit\<close> of \<open>iroh-relay/src/server.rs\<close>). \<open>i64\<close>
  values are integers with saturation and wrap-around written out, \<open>as u32\<close> casts keep the low
  32 bits, and the clock is an argument. Lemmas: the bucket's invariant, the deadline of a refused
  request is the first time at which the bucket is positive again, and the reader never lets
  through more than the configured rate.
\<close>

section \<open>Signed 64-bit arithmetic\<close>

definition I64_MAX :: int where "I64_MAX = 2 ^ 63 - 1"
definition I64_MIN :: int where "I64_MIN = - (2 ^ 63)"

definition sat_i64 :: "int \<Rightarrow> int" where
  "sat_i64 x = max I64_MIN (min I64_MAX x)"

definition wrap_i64 :: "int \<Rightarrow> int" where
  "wrap_i64 x = (x + 2 ^ 63) mod 2 ^ 64 - 2 ^ 63"

definition millis_as_u32 :: "duration \<Rightarrow> nat" where
  "millis_as_u32 d = as_millis d mod 2 ^ 32"

lemma sat_i64_id [simp]: "I64_MIN \<le> x \<Longrightarrow> x \<le> I64_MAX \<Longrightarrow> sat_i64 x = x"
  by (simp add: sat_i64_def)

lemma wrap_i64_id: "I64_MIN \<le> x \<Longrightarrow> x \<le> I64_MAX \<Longrightarrow> wrap_i64 x = x"
  by (simp add: wrap_i64_def I64_MIN_def I64_MAX_def)

lemma sat_i64_bounds: "I64_MIN \<le> sat_i64 x" "sat_i64 x \<le> I64_MAX"
  by (simp_all add: sat_i64_def I64_MIN_def I64_MAX_def)

lemma sat_i64_le: "I64_MIN \<le> x \<Longrightarrow> sat_i64 x \<le> x"
  by (simp add: sat_i64_def)

section \<open>The token bucket\<close>

record bucket =
  fill :: int
  bucket_max :: int
  last_fill :: instant
  refill_period :: duration
  refill :: int

datatype invalid_bucket_config = InvalidBucketConfig int int duration

definition bucket_new ::
  "instant \<Rightarrow> int \<Rightarrow> int \<Rightarrow> duration \<Rightarrow> invalid_bucket_config + bucket" where
  "bucket_new now mx bytes_per_second period =
     (let rf = sat_i64 (bytes_per_second * wrap_i64 (int (as_millis period))) div 1000 in
      if 0 < mx \<and> 0 < bytes_per_second \<and> 0 < millis_as_u32 period \<and> 0 < rf
      then Inr \<lparr>fill = mx, bucket_max = mx, last_fill = now, refill_period = period, refill = rf\<rparr>
      else Inl (InvalidBucketConfig mx bytes_per_second period))"

definition update_state :: "instant \<Rightarrow> bucket \<Rightarrow> bucket" where
  "update_state now b =
     (let refill_periods = millis_as_u32 (now - last_fill b) div millis_as_u32 (refill_period b) in
      if refill_periods = 0 then b
      else b\<lparr>fill := min (sat_i64 (fill b + wrap_i64 (int refill_periods * refill b))) (bucket_max b),
             last_fill := last_fill b + refill_period b * refill_periods\<rparr>)"

text \<open>\<open>usize\<close> values beyond \<open>i64::MAX\<close> become \<open>i64::MAX\<close>; \<open>/\<close> on non-negative values is \<open>div\<close>.\<close>

definition consume_deadline :: "bucket \<Rightarrow> instant" where
  "consume_deadline b =
     (let missing = sat_i64 (- fill b);
          periods_needed = missing div refill b + 1;
          periods_needed = (if periods_needed < 2 ^ 32 then nat periods_needed else 2 ^ 32 - 1)
      in last_fill b + periods_needed * refill_period b)"

definition consume :: "instant \<Rightarrow> nat \<Rightarrow> bucket \<Rightarrow> (instant + unit) \<times> bucket" where
  "consume now n b =
     (let bytes = min (int n) I64_MAX;
          b1 = update_state now b;
          b2 = b1\<lparr>fill := sat_i64 (fill b1 - bytes)\<rparr>
      in if 0 < fill b2 then (Inr (), b2) else (Inl (consume_deadline b2), b2))"

subsection \<open>Invariant\<close>

definition bucket_inv :: "bucket \<Rightarrow> bool" where
  "bucket_inv b \<longleftrightarrow> 0 < bucket_max b \<and> bucket_max b \<le> I64_MAX \<and> 0 < refill b \<and> refill b \<le> I64_MAX \<and>
     0 < millis_as_u32 (refill_period b) \<and> I64_MIN \<le> fill b \<and> fill b \<le> bucket_max b"

lemma bucket_new_inv:
  assumes "bucket_new now mx bps period = Inr b" "mx \<le> I64_MAX"
  shows "bucket_inv b"
proof -
  have "sat_i64 x div 1000 \<le> I64_MAX" for x
    using sat_i64_bounds(2) [of x] by (simp add: I64_MAX_def)
  then show ?thesis
    using assms
    by (auto simp: bucket_new_def bucket_inv_def Let_def I64_MIN_def split: if_splits)
qed

lemma update_state_inv: "bucket_inv b \<Longrightarrow> bucket_inv (update_state now b)"
  using sat_i64_bounds by (auto simp: bucket_inv_def update_state_def Let_def I64_MIN_def min_def)

lemma consume_inv:
  assumes "bucket_inv b"
  shows "bucket_inv (snd (consume now n b))"
proof -
  have u: "bucket_inv (update_state now b)" using assms by (rule update_state_inv)
  have "sat_i64 (fill (update_state now b) - min (int n) I64_MAX) \<le> bucket_max (update_state now b)"
    using u by (auto simp: bucket_inv_def sat_i64_def I64_MAX_def I64_MIN_def)
  then show ?thesis
    using u sat_i64_bounds(1) by (auto simp: consume_def Let_def bucket_inv_def)
qed

lemma update_state_params [simp]:
  "bucket_max (update_state now b) = bucket_max b" "refill (update_state now b) = refill b"
  "refill_period (update_state now b) = refill_period b"
  by (simp_all add: update_state_def Let_def)

lemma consume_params [simp]:
  "bucket_max (snd (consume now n b)) = bucket_max b" "refill (snd (consume now n b)) = refill b"
  "refill_period (snd (consume now n b)) = refill_period b"
  by (simp_all add: consume_def Let_def)

subsection \<open>Refilling without overflow\<close>

text \<open>
  The configurations of \<open>RateLimited::new\<close> (\<open>u32\<close> burst and rate, a period of whole
  milliseconds) and times less than \<open>2 ^ 32\<close> milliseconds after the last refill, which is about
  49 days: there the casts lose nothing.
\<close>

definition bucket_small :: "bucket \<Rightarrow> bool" where
  "bucket_small b \<longleftrightarrow> refill b < 2 ^ 31 \<and> bucket_max b < 2 ^ 32 \<and>
     refill_period b = from_millis (as_millis (refill_period b)) \<and> as_millis (refill_period b) < 2 ^ 32"

definition bucket_recent :: "instant \<Rightarrow> bucket \<Rightarrow> bool" where
  "bucket_recent now b \<longleftrightarrow> as_millis (now - last_fill b) < 2 ^ 32"

definition periods_since :: "instant \<Rightarrow> bucket \<Rightarrow> nat" where
  "periods_since now b = (now - last_fill b) div refill_period b"

lemma int_div_less_iff:
  assumes "0 < (r :: int)"
  shows "m div r < n \<longleftrightarrow> m < n * r"
proof -
  have "n \<le> m div r \<longleftrightarrow> n * r \<le> m"
  proof
    assume "n \<le> m div r"
    then have "n * r \<le> m div r * r" using assms by (simp add: mult_right_mono)
    also have "\<dots> \<le> m" using assms by (metis div_mult_mod_eq le_add_same_cancel1 pos_mod_sign)
    finally show "n * r \<le> m" .
  next
    assume "n * r \<le> m"
    then show "n \<le> m div r" using assms zdiv_mono1 [of "n * r" m r] by simp
  qed
  then show ?thesis by linarith
qed

lemma refill_period_pos: "bucket_inv b \<Longrightarrow> 0 < refill_period b"
  by (cases "refill_period b") (auto simp: bucket_inv_def millis_as_u32_def as_millis_def)

lemma millis_div:
  "p = from_millis (as_millis p) \<Longrightarrow> as_millis d div as_millis p = d div p"
  by (metis as_millis_def from_millis_def div_mult2_eq mult.commute)

lemma refill_periods_exact:
  assumes "bucket_inv b" "bucket_small b" "bucket_recent now b"
  shows "millis_as_u32 (now - last_fill b) div millis_as_u32 (refill_period b) = periods_since now b"
proof -
  have "millis_as_u32 (now - last_fill b) = as_millis (now - last_fill b)"
    using assms by (simp add: millis_as_u32_def bucket_recent_def)
  moreover have "millis_as_u32 (refill_period b) = as_millis (refill_period b)"
    using assms by (simp add: millis_as_u32_def bucket_small_def)
  ultimately show ?thesis
    using assms(2) millis_div [of "refill_period b"] by (simp add: periods_since_def bucket_small_def)
qed

lemma periods_since_bound:
  assumes "bucket_inv b" "bucket_small b" "bucket_recent now b"
  shows "periods_since now b < 2 ^ 32"
  using refill_periods_exact [OF assms] div_le_dividend
  by (metis le_less_trans millis_as_u32_def mod_less_divisor zero_less_numeral zero_less_power)

lemma update_state_exact:
  assumes "bucket_inv b" "bucket_small b" "bucket_recent now b"
  shows "fill (update_state now b) = min (fill b + int (periods_since now b) * refill b) (bucket_max b)"
    and "last_fill (update_state now b) = last_fill b + refill_period b * periods_since now b"
proof -
  let ?k = "periods_since now b"
  have k: "int ?k < 2 ^ 32" using periods_since_bound [OF assms] by simp
  have r: "0 < refill b" "refill b < 2 ^ 31"
    using assms by (auto simp: bucket_inv_def bucket_small_def)
  have "int ?k * refill b \<le> 2 ^ 32 * 2 ^ 31"
    using k r by (intro mult_mono) auto
  then have prod: "0 \<le> int ?k * refill b" "int ?k * refill b \<le> I64_MAX"
    using r k mult_strict_mono [of "int ?k" "2 ^ 32" "refill b" "2 ^ 31"]
    by (auto simp: I64_MAX_def)
  have w: "wrap_i64 (int ?k * refill b) = int ?k * refill b"
    using prod by (intro wrap_i64_id) (auto simp: I64_MIN_def)
  have lo: "I64_MIN \<le> fill b + int ?k * refill b" "bucket_max b \<le> I64_MAX"
    using assms(1) prod(1) unfolding bucket_inv_def by linarith+
  have f: "min (sat_i64 (fill b + int ?k * refill b)) (bucket_max b)
      = min (fill b + int ?k * refill b) (bucket_max b)"
    using lo by (auto simp: sat_i64_def min_def max_def)
  show "fill (update_state now b) = min (fill b + int ?k * refill b) (bucket_max b)"
    using assms(1)
    by (auto simp: update_state_def refill_periods_exact [OF assms] w f Let_def bucket_inv_def)
  show "last_fill (update_state now b) = last_fill b + refill_period b * ?k"
    by (simp add: update_state_def refill_periods_exact [OF assms] Let_def)
qed

text \<open>
  The deadline is exact: the refused bucket is still empty at any earlier refill and positive
  from the deadline on.
\<close>

lemma consume_deadline_exact:
  assumes inv: "bucket_inv b" "bucket_small b" and recent: "bucket_recent now b"
    and empty: "fill b \<le> 0" "- fill b < 2 ^ 32 * refill b - refill b"
  shows "0 < fill (update_state now b) \<longleftrightarrow> consume_deadline b \<le> now"
proof -
  let ?p = "refill_period b" and ?r = "refill b"
  define m where "m = - fill b"
  have r: "0 < ?r" and p: "0 < ?p" and mx: "0 < bucket_max b"
    using inv refill_period_pos [OF inv(1)] by (auto simp: bucket_inv_def)
  have m: "0 \<le> m" using empty by (simp add: m_def)
  have "m < (2 ^ 32 - 1) * ?r" using empty by (simp add: m_def left_diff_distrib)
  then have q: "m div ?r < 2 ^ 32 - 1" using r by (simp add: int_div_less_iff)
  have sat: "sat_i64 (- fill b) = m"
  proof -
    have "m \<le> I64_MAX"
    proof -
      have "m < 2 ^ 32 * ?r" using empty(2) r by (simp add: m_def)
      also have "\<dots> \<le> 2 ^ 32 * 2 ^ 31" using inv(2) by (simp add: bucket_small_def)
      finally show ?thesis by (simp add: I64_MAX_def)
    qed
    then show ?thesis using m by (simp add: m_def I64_MIN_def)
  qed
  define k where "k = nat (m div ?r + 1)"
  have k: "int k = m div ?r + 1" using m r by (simp add: k_def pos_imp_zdiv_nonneg_iff)
  have dl: "consume_deadline b = last_fill b + k * ?p"
    using q by (simp add: consume_deadline_def sat k_def Let_def)
  have "0 < k" using m r by (simp add: k_def pos_imp_zdiv_nonneg_iff)
  then have "0 < k * ?p" using p by simp
  then have "consume_deadline b \<le> now \<longleftrightarrow> k * ?p \<le> now - last_fill b"
    unfolding dl by linarith
  also have "\<dots> \<longleftrightarrow> k \<le> periods_since now b"
    using p by (simp add: periods_since_def less_eq_div_iff_mult_less_eq)
  finally have "consume_deadline b \<le> now \<longleftrightarrow> k \<le> periods_since now b" .
  also have "\<dots> \<longleftrightarrow> m div ?r < int (periods_since now b)"
    using k by auto
  also have "\<dots> \<longleftrightarrow> m < int (periods_since now b) * ?r"
    using r by (simp add: int_div_less_iff)
  also have "\<dots> \<longleftrightarrow> 0 < fill (update_state now b)"
    using mx by (auto simp: update_state_exact [OF inv recent] m_def)
  finally show ?thesis ..
qed

section \<open>The rate-limited reader\<close>

record client_rate_limit =
  bytes_per_second :: u32
  max_burst_bytes :: "u32 option"

text \<open>The two metrics counters are the contribution of this reader.\<close>

record rate_limited =
  rl_bucket :: "bucket option"
  bucket_refilled :: "instant option"
  limited_once :: bool
  bytes_rx_ratelimited :: nat
  conns_rx_ratelimited :: nat

definition rate_limited_unlimited :: rate_limited where
  "rate_limited_unlimited =
     \<lparr>rl_bucket = None, bucket_refilled = None, limited_once = False,
      bytes_rx_ratelimited = 0, conns_rx_ratelimited = 0\<rparr>"

definition rate_limited_new :: "instant \<Rightarrow> u32 \<Rightarrow> u32 \<Rightarrow> invalid_bucket_config + rate_limited" where
  "rate_limited_new now burst bps =
     and_then (bucket_new now (int (unat burst)) (int (unat bps)) (from_millis 100))
       (\<lambda>b. Inr (rate_limited_unlimited\<lparr>rl_bucket := Some b\<rparr>))"

definition rate_limited_from_cfg ::
  "instant \<Rightarrow> client_rate_limit option \<Rightarrow> invalid_bucket_config + rate_limited" where
  "rate_limited_from_cfg now cfg =
     (case cfg of
        Some c \<Rightarrow>
          (let bps = bytes_per_second c;
               burst = (case max_burst_bytes c of None \<Rightarrow> bps div 10 | Some m \<Rightarrow> m)
           in rate_limited_new now burst bps)
      | None \<Rightarrow> Inr rate_limited_unlimited)"

definition record_rate_limited :: "nat \<Rightarrow> rate_limited \<Rightarrow> rate_limited" where
  "record_rate_limited n rl =
     (let rl1 = rl\<lparr>bytes_rx_ratelimited := bytes_rx_ratelimited rl + n\<rparr> in
      if limited_once rl then rl1
      else rl1\<lparr>conns_rx_ratelimited := conns_rx_ratelimited rl1 + 1, limited_once := True\<rparr>)"

text \<open>What the inner stream answers to a poll, and what the reader answers.\<close>

datatype read_poll = ReadPending | ReadErr | ReadOk nat

definition rl_read :: "instant \<Rightarrow> read_poll \<Rightarrow> bucket \<Rightarrow> rate_limited \<Rightarrow> read_poll \<times> rate_limited" where
  "rl_read now inner b rl =
     (case inner of
        ReadPending \<Rightarrow> (ReadPending, rl)
      | ReadErr \<Rightarrow> (ReadErr, rl)
      | ReadOk n \<Rightarrow>
         (case consume now n b of
            (Inr _, b') \<Rightarrow> (ReadOk n, rl\<lparr>rl_bucket := Some b'\<rparr>)
          | (Inl refill_time, b') \<Rightarrow>
              (ReadOk n, (record_rate_limited n (rl\<lparr>rl_bucket := Some b'\<rparr>))
                 \<lparr>bucket_refilled := Some refill_time\<rparr>)))"

definition rl_poll_read :: "instant \<Rightarrow> read_poll \<Rightarrow> rate_limited \<Rightarrow> read_poll \<times> rate_limited" where
  "rl_poll_read now inner rl =
     (case rl_bucket rl of
        None \<Rightarrow> (inner, rl)
      | Some b \<Rightarrow>
         (case bucket_refilled rl of
            Some t \<Rightarrow>
              (if now < t then (ReadPending, rl)
               else rl_read now inner b (rl\<lparr>bucket_refilled := None\<rparr>))
          | None \<Rightarrow> rl_read now inner b rl))"

text \<open>A sequence of polls: the octets read and the final state.\<close>

fun rl_run :: "(instant \<times> read_poll) list \<Rightarrow> nat \<times> rate_limited \<Rightarrow> nat \<times> rate_limited" where
  "rl_run [] s = s"
| "rl_run ((now, inner) # ps) (sofar, rl) =
     (case rl_poll_read now inner rl of
        (ReadOk n, rl') \<Rightarrow> rl_run ps (sofar + n, rl')
      | (_, rl') \<Rightarrow> rl_run ps (sofar, rl'))"

text \<open>Exactly the configurations of at least ten octets per second are usable.\<close>

lemma bucket_new_100ms:
  assumes "n < 2 ^ 32"
  shows "bucket_new now (int m) (int n) (from_millis 100) =
    (if 0 < m \<and> 10 \<le> n
     then Inr \<lparr>fill = int m, bucket_max = int m, last_fill = now, refill_period = from_millis 100,
               refill = int n div 10\<rparr>
     else Inl (InvalidBucketConfig (int m) (int n) (from_millis 100)))"
proof -
  have "wrap_i64 100 = 100" by (rule wrap_i64_id) (simp_all add: I64_MIN_def I64_MAX_def)
  moreover have "sat_i64 (int n * 100) = int n * 100"
    using assms by (intro sat_i64_id) (simp_all add: I64_MIN_def I64_MAX_def)
  moreover have "int n * 100 div 1000 = int n div 10" by linarith
  ultimately show ?thesis
    by (auto simp: bucket_new_def Let_def millis_as_u32_def)
qed

lemma rate_limited_new_ok_iff:
  "is_ok (rate_limited_new now burst bps) \<longleftrightarrow> burst \<noteq> 0 \<and> 10 \<le> unat bps"
proof -
  have n: "unat bps < 2 ^ 32" using unsigned_less [of bps] by simp
  show ?thesis
    unfolding rate_limited_new_def bucket_new_100ms [OF n] by (simp add: unat_gt_0)
qed

lemma rate_limited_from_cfg_ok_iff:
  assumes "max_burst_bytes c \<noteq> Some 0"
  shows "is_ok (rate_limited_from_cfg now (Some c)) \<longleftrightarrow> 10 \<le> unat (bytes_per_second c)"
proof -
  have "bytes_per_second c div 10 \<noteq> 0" if "10 \<le> unat (bytes_per_second c)"
    using that by (simp add: word_unat_eq_iff unat_div div_greater_zero_iff)
  then show ?thesis
    using assms
    by (auto simp: rate_limited_from_cfg_def Let_def rate_limited_new_ok_iff split: option.splits)
qed

subsection \<open>The rate bound\<close>

text \<open>
  The state at time \<open>clock\<close> of a reader that started full, with reads of at most \<open>N\<close> octets: what
  was read and what is left never exceed the burst and the refills of the \<open>j\<close> periods so far, and
  the reader waits while the bucket is used up and its deadline is ahead.
\<close>

definition rl_waits :: "bucket \<Rightarrow> instant \<Rightarrow> rate_limited \<Rightarrow> bool" where
  "rl_waits b clock rl \<longleftrightarrow>
     (if 0 < fill b then bucket_refilled rl = None
      else bucket_refilled rl = Some (consume_deadline b) \<or>
        bucket_refilled rl = None \<and> consume_deadline b \<le> clock)"

definition rl_inv :: "bucket \<Rightarrow> nat \<Rightarrow> instant \<Rightarrow> nat \<Rightarrow> rate_limited \<Rightarrow> bool" where
  "rl_inv b0 N clock sofar rl \<longleftrightarrow>
     (\<exists>b j. rl_bucket rl = Some b \<and> bucket_inv b \<and> bucket_small b \<and>
        bucket_max b = bucket_max b0 \<and> refill b = refill b0 \<and> refill_period b = refill_period b0 \<and>
        last_fill b = last_fill b0 + refill_period b0 * j \<and> last_fill b \<le> clock \<and>
        int sofar + fill b \<le> bucket_max b0 + refill b0 * int j \<and> 1 - int N \<le> fill b \<and>
        rl_waits b clock rl)"

lemma update_state_positive:
  assumes "bucket_inv b" "bucket_small b" "bucket_recent now b" "1 - int N \<le> fill b" "int N \<le> 2 ^ 31"
    and "0 < fill b \<or> consume_deadline b \<le> now"
  shows "0 < fill (update_state now b)"
proof (cases "0 < fill b")
  case True
  then show ?thesis
    using assms(1) update_state_exact(1) [OF assms(1-3)] by (auto simp: bucket_inv_def add_pos_nonneg)
next
  case False
  have "1 \<le> refill b" using assms(1) by (simp add: bucket_inv_def)
  then have "(2 ^ 31 :: int) \<le> 2 ^ 32 * refill b - refill b" by simp
  moreover have "- fill b < 2 ^ 31" using assms(4,5) by linarith
  ultimately show ?thesis
    using consume_deadline_exact [OF assms(1-3)] False assms(6) by auto
qed

lemma consume_positive:
  assumes "bucket_inv b" "0 < fill (update_state now b)" "int n \<le> 2 ^ 31"
  shows "consume now n b =
    (let b2 = (update_state now b)\<lparr>fill := fill (update_state now b) - int n\<rparr> in
     (if 0 < fill b2 then Inr () else Inl (consume_deadline b2), b2))"
proof -
  have "min (int n) I64_MAX = int n"
    using assms(3) by (simp add: I64_MAX_def)
  moreover have "sat_i64 (fill (update_state now b) - int n) = fill (update_state now b) - int n"
    using assms update_state_inv [OF assms(1), of now]
    by (intro sat_i64_id) (auto simp: bucket_inv_def I64_MIN_def)
  ultimately show ?thesis by (simp add: consume_def Let_def)
qed

lemma rl_read_inv:
  assumes b: "bucket_inv b" "bucket_small b"
    and same: "bucket_max b = bucket_max b0" "refill b = refill b0" "refill_period b = refill_period b0"
    and lf: "last_fill b = last_fill b0 + refill_period b0 * j" "last_fill b \<le> now"
    and bound: "int sofar + fill b \<le> bucket_max b0 + refill b0 * int j" "1 - int N \<le> fill b"
    and now: "bucket_recent now b" "0 < fill b \<or> consume_deadline b \<le> now"
    and n: "n \<le> N" "int N \<le> 2 ^ 31" "bucket_refilled rl = None"
  shows "\<exists>rl'. rl_read now (ReadOk n) b rl = (ReadOk n, rl') \<and> rl_inv b0 N now (sofar + n) rl'"
proof -
  let ?u = "update_state now b" and ?k = "periods_since now b"
  let ?b2 = "?u\<lparr>fill := fill ?u - int n\<rparr>"
  have pos: "0 < fill ?u"
    by (rule update_state_positive [OF b now(1) bound(2) n(2) now(2)])
  have nn: "int n \<le> 2 ^ 31" "int n \<le> int N" using n by simp_all
  have c: "consume now n b = (if 0 < fill ?b2 then Inr () else Inl (consume_deadline ?b2), ?b2)"
    using consume_positive [OF b(1) pos nn(1)] by (simp add: Let_def)
  have inv: "bucket_inv ?b2"
    using consume_inv [OF b(1), of now n] c by simp
  have small: "bucket_small ?b2" using b(2) by (simp add: bucket_small_def)
  have u: "fill ?u \<le> fill b + int ?k * refill b0"
    "last_fill ?u = last_fill b0 + refill_period b0 * (j + ?k)"
    using update_state_exact [OF b now(1)] same lf(1) by (simp_all add: distrib_left)
  have "refill_period b * ?k \<le> now - last_fill b" by (simp add: periods_since_def)
  then have T: "last_fill ?u \<le> now"
    using update_state_exact(2) [OF b now(1)] lf(2) by linarith
  have tot: "int (sofar + n) + fill ?b2 \<le> bucket_max b0 + refill b0 * int (j + ?k)"
    using u(1) bound(1) by (simp add: distrib_left mult.commute)
  have inv_upd: "rl_inv b0 N now (sofar + n) rl'"
    if "rl_bucket rl' = Some ?b2"
      "bucket_refilled rl' = (if 0 < fill ?b2 then None else Some (consume_deadline ?b2))" for rl'
    unfolding rl_inv_def rl_waits_def
    using that inv small same u(2) T tot pos nn(2)
    by (intro exI [of _ ?b2] exI [of _ "j + ?k"]) simp
  show ?thesis
    unfolding rl_read_def read_poll.case c
    using n(3) by (auto simp: record_rate_limited_def Let_def intro!: inv_upd)
qed

lemma bucket_refilled_None: "bucket_refilled rl = None \<Longrightarrow> rl\<lparr>bucket_refilled := None\<rparr> = rl"
  by (cases rl) simp

lemma rl_poll_read_inv:
  assumes inv: "rl_inv b0 N clock sofar rl"
    and now: "clock \<le> now" "as_millis (now - last_fill b0) < 2 ^ 32" and N: "int N \<le> 2 ^ 31"
    and small: "\<And>n. inner = ReadOk n \<Longrightarrow> n \<le> N"
    and poll: "rl_poll_read now inner rl = (r, rl')"
  shows "rl_inv b0 N now (case r of ReadOk n \<Rightarrow> sofar + n | _ \<Rightarrow> sofar) rl'"
proof -
  obtain b j where b: "rl_bucket rl = Some b" "bucket_inv b" "bucket_small b"
    and same: "bucket_max b = bucket_max b0" "refill b = refill b0" "refill_period b = refill_period b0"
    and lf: "last_fill b = last_fill b0 + refill_period b0 * j" "last_fill b \<le> clock"
    and bound: "int sofar + fill b \<le> bucket_max b0 + refill b0 * int j" "1 - int N \<le> fill b"
    and wait: "rl_waits b clock rl"
    using inv unfolding rl_inv_def by blast
  have keep: "rl_inv b0 N now sofar rl''"
    if "rl_bucket rl'' = Some b" "rl_waits b now rl''" for rl''
    unfolding rl_inv_def using that b same lf bound now(1) by (intro exI [of _ b] exI [of _ j]) simp
  have recent: "bucket_recent now b"
    unfolding bucket_recent_def using now(2) lf(1)
    by (metis as_millis_le diff_le_mono2 le_add1 le_less_trans)
  let ?rl = "rl\<lparr>bucket_refilled := None\<rparr>"
  show ?thesis
  proof (cases "0 < fill b \<or> consume_deadline b \<le> now")
    case False
    then have "rl_poll_read now inner rl = (ReadPending, rl)" "rl_waits b now rl"
      using wait b(1) now(1) by (auto simp: rl_poll_read_def rl_waits_def)
    then show ?thesis using poll keep [OF b(1)] by simp
  next
    case True
    then have eq: "rl_poll_read now inner rl = rl_read now inner b ?rl"
      using wait b(1) by (cases "bucket_refilled rl") (auto simp: rl_poll_read_def rl_waits_def bucket_refilled_None split: if_splits)
    have idle: "rl_inv b0 N now sofar ?rl"
      using True b(1) by (intro keep) (auto simp: rl_waits_def)
    show ?thesis
    proof (cases inner)
      case (ReadOk n)
      have "last_fill b \<le> now" using lf(2) now(1) by simp
      then show ?thesis
        using rl_read_inv [OF b(2,3) same lf(1) _ bound recent True small [OF ReadOk] N, of ?rl]
          poll eq ReadOk by auto
    qed (use poll eq idle in \<open>auto simp: rl_read_def\<close>)
  qed
qed

lemma rl_run_inv:
  assumes "rl_inv b0 N clock sofar rl" "sorted (clock # map fst ps)"
    and "\<forall>(now, inner) \<in> set ps. as_millis (now - last_fill b0) < 2 ^ 32 \<and> (\<forall>n. inner = ReadOk n \<longrightarrow> n \<le> N)"
    and "int N \<le> 2 ^ 31"
  shows "rl_inv b0 N (last (clock # map fst ps)) (fst (rl_run ps (sofar, rl))) (snd (rl_run ps (sofar, rl)))"
  using assms(1-3)
proof (induction ps arbitrary: clock sofar rl)
  case (Cons p ps)
  obtain now inner where p: "p = (now, inner)" by force
  obtain r rl' where r: "rl_poll_read now inner rl = (r, rl')" by force
  have "rl_inv b0 N now (case r of ReadOk n \<Rightarrow> sofar + n | _ \<Rightarrow> sofar) rl'"
    using rl_poll_read_inv [OF Cons.prems(1) _ _ assms(4) _ r] Cons.prems(2,3) p by auto
  from Cons.IH [OF this] Cons.prems(2,3) p r show ?case by (auto split: read_poll.splits)
qed simp

lemma rl_inv_bound:
  assumes "rl_inv b0 N clock sofar rl" "bucket_inv b0"
  shows "int sofar < bucket_max b0 + refill b0 * int ((clock - last_fill b0) div refill_period b0) + int N"
proof -
  obtain b :: bucket and j where lf: "last_fill b = last_fill b0 + refill_period b0 * j" "last_fill b \<le> clock"
    and bound: "int sofar + fill b \<le> bucket_max b0 + refill b0 * int j" "1 - int N \<le> fill b"
    using assms(1) unfolding rl_inv_def by blast
  then have j: "last_fill b0 + refill_period b0 * j \<le> clock" by simp
  have "j \<le> (clock - last_fill b0) div refill_period b0"
    using j refill_period_pos [OF assms(2)]
    by (simp add: less_eq_div_iff_mult_less_eq mult.commute)
  then have "refill b0 * int j \<le> refill b0 * int ((clock - last_fill b0) div refill_period b0)"
    using assms(2) by (intro mult_left_mono) (auto simp: bucket_inv_def)
  then show ?thesis using bound by linarith
qed

end
