(* ===== verification/Relay_Clients.thy ===== *)
theory Relay_Clients
  imports Relay_Proto Handshake
begin

text \<open>
  The relay's registry of connected clients (\<open>iroh-relay/src/server/clients.rs\<close>) and the handle of
  one client (\<open>Client\<close> of \<open>iroh-relay/src/server/client.rs\<close>). A handle holds the sending halves of
  the two bounded queues its actor reads; the queues are part of the handle here. \<open>DashMap\<close>s are
  association lists, hash sets are lists without repetition. Lemmas: the registry is a stack of
  connections per endpoint, packets and notifications go to the top of the stack, queues stay
  within their capacity, and the inactive-client metrics count the inactive clients.
\<close>

section \<open>A client handle\<close>

record packet =
  packet_src :: endpoint_id
  packet_data :: datagrams

record client_config =
  cfg_guard :: on_disconnect_guard
  channel_capacity :: nat
  cfg_protocol_version :: protocol_version

definition config_new :: "on_disconnect_guard \<Rightarrow> protocol_version \<Rightarrow> client_config" where
  "config_new guard ver =
     \<lparr>cfg_guard = guard, channel_capacity = PER_CLIENT_SEND_QUEUE_DEPTH, cfg_protocol_version = ver\<rparr>"

record client =
  endpoint_id :: endpoint_id
  connection_id :: u64
  client_done :: bool
  packet_queue :: "packet chan"
  message_queue :: "relay_to_client_msg chan"
  protocol_version :: protocol_version

definition client_new :: "client_config \<Rightarrow> client" where
  "client_new config =
     \<lparr>endpoint_id = guard_endpoint_id (cfg_guard config),
      connection_id = guard_connection_id (cfg_guard config),
      client_done = False,
      packet_queue = chan_new (channel_capacity config),
      message_queue = chan_new (channel_capacity config),
      protocol_version = cfg_protocol_version config\<rparr>"

definition start_shutdown :: "client \<Rightarrow> client" where
  "start_shutdown c = c\<lparr>client_done := True\<rparr>"

definition try_send_packet ::
  "endpoint_id \<Rightarrow> datagrams \<Rightarrow> client \<Rightarrow> (try_send_error + unit) \<times> client" where
  "try_send_packet src data c =
     (case try_send \<lparr>packet_src = src, packet_data = data\<rparr> (packet_queue c) of
        (r, q) \<Rightarrow> (r, c\<lparr>packet_queue := q\<rparr>))"

definition try_send_peer_gone :: "endpoint_id \<Rightarrow> client \<Rightarrow> (try_send_error + unit) \<times> client" where
  "try_send_peer_gone key c =
     (case try_send (R2C_EndpointGone key) (message_queue c) of (r, q) \<Rightarrow> (r, c\<lparr>message_queue := q\<rparr>))"

definition health_message :: "protocol_version \<Rightarrow> status \<Rightarrow> relay_to_client_msg" where
  "health_message ver status =
     (case ver of V2 \<Rightarrow> R2C_Status status | V1 \<Rightarrow> R2C_Health (status_display status))"

definition try_send_health :: "status \<Rightarrow> client \<Rightarrow> (try_send_error + unit) \<times> client" where
  "try_send_health status c =
     (case try_send (health_message (protocol_version c) status) (message_queue c) of
        (r, q) \<Rightarrow> (r, c\<lparr>message_queue := q\<rparr>))"

section \<open>The registry\<close>

record client_state =
  active :: client
  inactive :: "client list"

record clients =
  clients_map :: "(endpoint_id \<times> client_state) list"
  sent_to :: "(endpoint_id \<times> endpoint_id list) list"

text \<open>The counters of \<open>Metrics\<close> that the registry and the client actor move.\<close>

record relay_metrics =
  clients_inactive_added :: nat
  clients_inactive_removed :: nat
  send_packets_dropped :: nat
  send_packets_recv :: nat
  send_packets_sent :: nat
  bytes_sent :: nat
  bytes_recv :: nat
  got_ping :: nat
  sent_pong :: nat
  accepts :: nat
  disconnects :: nat
  unique_client_keys :: nat

definition clients_default :: clients where
  "clients_default = \<lparr>clients_map = [], sent_to = []\<rparr>"

definition get_client :: "clients \<Rightarrow> endpoint_id \<Rightarrow> client_state option" where
  "get_client cs e = map_of (clients_map cs) e"

text \<open>The entry update of \<open>register\<close>, for the client whose actor was started before it.\<close>

definition register_client :: "client \<Rightarrow> clients \<times> relay_metrics \<Rightarrow> clients \<times> relay_metrics" where
  "register_client client s =
     (case s of (cs, ms) \<Rightarrow>
        (case get_client cs (endpoint_id client) of
           Some state \<Rightarrow>
             (let old_client = snd (try_send_health SameEndpointIdConnected (active state));
                  state' = \<lparr>active = client, inactive = inactive state @ [old_client]\<rparr>
              in (cs\<lparr>clients_map := al_update (endpoint_id client) state' (clients_map cs)\<rparr>,
                  ms\<lparr>clients_inactive_added := clients_inactive_added ms + 1\<rparr>))
         | None \<Rightarrow>
             (cs\<lparr>clients_map :=
                al_update (endpoint_id client) \<lparr>active = client, inactive = []\<rparr> (clients_map cs)\<rparr>, ms)))"

definition register :: "client_config \<Rightarrow> clients \<times> relay_metrics \<Rightarrow> clients \<times> relay_metrics" where
  "register config s = register_client (client_new config) s"

text \<open>The closure of \<open>remove_if_mut\<close>: \<open>None\<close> removes the entry.\<close>

definition unregister_entry ::
  "u64 \<Rightarrow> client_state \<Rightarrow> relay_metrics \<Rightarrow> client_state option \<times> relay_metrics" where
  "unregister_entry cid state ms =
     (if connection_id (active state) = cid then
        (if inactive state = [] then (None, ms)
         else (Some \<lparr>active = snd (try_send_health Healthy (last (inactive state))),
                     inactive = butlast (inactive state)\<rparr>,
               ms\<lparr>clients_inactive_removed := clients_inactive_removed ms + 1\<rparr>))
      else
        (Some (state\<lparr>inactive := filter (\<lambda>c. connection_id c \<noteq> cid) (inactive state)\<rparr>),
         ms\<lparr>clients_inactive_removed := clients_inactive_removed ms + 1\<rparr>))"

definition notify_peer_gone :: "endpoint_id \<Rightarrow> endpoint_id \<Rightarrow> clients \<Rightarrow> clients" where
  "notify_peer_gone gone peer_id cs =
     (case get_client cs peer_id of
        Some peer \<Rightarrow>
          cs\<lparr>clients_map :=
            al_update peer_id (peer\<lparr>active := snd (try_send_peer_gone gone (active peer))\<rparr>) (clients_map cs)\<rparr>
      | None \<Rightarrow> cs)"

definition unregister :: "endpoint_id \<Rightarrow> u64 \<Rightarrow> clients \<times> relay_metrics \<Rightarrow> clients \<times> relay_metrics" where
  "unregister e cid s =
     (case s of (cs, ms) \<Rightarrow>
        (case get_client cs e of
           None \<Rightarrow> (cs, ms)
         | Some state \<Rightarrow>
             (case unregister_entry cid state ms of
                (Some state', ms') \<Rightarrow> (cs\<lparr>clients_map := al_update e state' (clients_map cs)\<rparr>, ms')
              | (None, ms') \<Rightarrow>
                  (let peers = (case map_of (sent_to cs) e of None \<Rightarrow> [] | Some ps \<Rightarrow> ps);
                       cs1 = cs\<lparr>clients_map := al_remove e (clients_map cs), sent_to := al_remove e (sent_to cs)\<rparr>
                   in (fold (notify_peer_gone e) peers cs1, ms')))))"

definition shutdown_matching :: "(client \<Rightarrow> bool) \<Rightarrow> client_state \<Rightarrow> client_state" where
  "shutdown_matching P state =
     \<lparr>active = (if P (active state) then start_shutdown (active state) else active state),
      inactive = map (\<lambda>c. if P c then start_shutdown c else c) (inactive state)\<rparr>"

text \<open>
  With a connection id the source shuts down the first match among the inactive clients and then
  the active one; ids are unique in an entry, so that is every match.
\<close>

definition disconnect :: "endpoint_id \<Rightarrow> u64 option \<Rightarrow> clients \<Rightarrow> bool \<times> clients" where
  "disconnect e cid cs =
     (case get_client cs e of
        None \<Rightarrow> (False, cs)
      | Some state \<Rightarrow>
         (case cid of
            Some i \<Rightarrow>
              (if i \<in> connection_id ` set (inactive state @ [active state])
               then (True, cs\<lparr>clients_map :=
                      al_update e (shutdown_matching (\<lambda>c. connection_id c = i) state) (clients_map cs)\<rparr>)
               else (False, cs))
          | None \<Rightarrow>
              (True, cs\<lparr>clients_map := al_update e (shutdown_matching (\<lambda>_. True) state) (clients_map cs)\<rparr>)))"

datatype forward_error = ForwardFull | ForwardClosed

definition send_packet ::
  "endpoint_id \<Rightarrow> datagrams \<Rightarrow> endpoint_id \<Rightarrow> clients \<times> relay_metrics
     \<Rightarrow> (forward_error + unit) \<times> clients \<times> relay_metrics" where
  "send_packet dst data src s =
     (case s of (cs, ms) \<Rightarrow>
        (case get_client cs dst of
           None \<Rightarrow> (Inr (), cs, ms\<lparr>send_packets_dropped := send_packets_dropped ms + 1\<rparr>)
         | Some state \<Rightarrow>
             (case try_send_packet src data (active state) of
                (Inr _, c') \<Rightarrow>
                  (let peers = (case map_of (sent_to cs) src of None \<Rightarrow> [] | Some ps \<Rightarrow> ps)
                   in (Inr (), cs\<lparr>clients_map := al_update dst (state\<lparr>active := c'\<rparr>) (clients_map cs),
                                  sent_to := al_update src (List.insert dst peers) (sent_to cs)\<rparr>, ms))
              | (Inl TrySendFull, _) \<Rightarrow> (Inl ForwardFull, cs, ms)
              | (Inl TrySendClosed, _) \<Rightarrow>
                  (Inl ForwardClosed,
                   cs\<lparr>clients_map :=
                     al_update dst (state\<lparr>active := start_shutdown (active state)\<rparr>) (clients_map cs)\<rparr>, ms))))"

text \<open>\<open>shutdown\<close> takes every entry out of the map and cancels all its clients.\<close>

definition clients_shutdown :: "clients \<Rightarrow> client list \<times> clients" where
  "clients_shutdown cs =
     (concat (map (\<lambda>(_, state). map start_shutdown (active state # inactive state)) (clients_map cs)),
      cs\<lparr>clients_map := []\<rparr>)"

section \<open>The registry is a stack of connections per endpoint\<close>

definition conns :: "clients \<Rightarrow> endpoint_id \<Rightarrow> u64 list" where
  "conns cs e =
     (case get_client cs e of
        None \<Rightarrow> []
      | Some state \<Rightarrow> map connection_id (active state # rev (inactive state)))"

definition client_ok :: "client \<Rightarrow> bool" where
  "client_ok c \<longleftrightarrow> chan_ok (packet_queue c) \<and> chan_ok (message_queue c)"

definition clients_inv :: "clients \<Rightarrow> bool" where
  "clients_inv cs \<longleftrightarrow> distinct (al_keys (clients_map cs)) \<and> distinct (al_keys (sent_to cs)) \<and>
     (\<forall>e state. get_client cs e = Some state \<longrightarrow>
        distinct (map connection_id (active state # inactive state)) \<and>
        (\<forall>c \<in> set (active state # inactive state). endpoint_id c = e \<and> client_ok c)) \<and>
     (\<forall>e ps. map_of (sent_to cs) e = Some ps \<longrightarrow> distinct ps)"

definition inactive_count :: "clients \<Rightarrow> nat" where
  "inactive_count cs = sum_list (map (\<lambda>p. length (inactive (snd p))) (clients_map cs))"

lemma try_send_keeps [simp]:
  "connection_id (snd (try_send_health st c)) = connection_id c"
  "connection_id (snd (try_send_peer_gone k c)) = connection_id c"
  "connection_id (snd (try_send_packet src d c)) = connection_id c"
  "endpoint_id (snd (try_send_health st c)) = endpoint_id c"
  "endpoint_id (snd (try_send_peer_gone k c)) = endpoint_id c"
  "endpoint_id (snd (try_send_packet src d c)) = endpoint_id c"
  "connection_id (start_shutdown c) = connection_id c" "endpoint_id (start_shutdown c) = endpoint_id c"
  by (simp_all add: try_send_health_def try_send_peer_gone_def try_send_packet_def start_shutdown_def
      split: prod.splits)

lemma client_ok_ops [simp]:
  "client_ok c \<Longrightarrow> client_ok (snd (try_send_health st c))"
  "client_ok c \<Longrightarrow> client_ok (snd (try_send_peer_gone k c))"
  "client_ok c \<Longrightarrow> client_ok (snd (try_send_packet src d c))"
  "client_ok c \<Longrightarrow> client_ok (start_shutdown c)"
  "client_ok (client_new config)"
  by (simp_all add: client_ok_def try_send_health_def try_send_peer_gone_def try_send_packet_def
      start_shutdown_def client_new_def case_prod_beta)

lemma get_client_update [simp]:
  "get_client (cs\<lparr>clients_map := al_update e st (clients_map cs)\<rparr>) e' =
     (if e' = e then Some st else get_client cs e')"
  by (simp add: get_client_def)

lemma clients_inv_update:
  assumes "clients_inv cs"
    and "distinct (map connection_id (active st # inactive st))"
    and "\<forall>c \<in> set (active st # inactive st). endpoint_id c = e \<and> client_ok c"
  shows "clients_inv (cs\<lparr>clients_map := al_update e st (clients_map cs)\<rparr>)"
  using assms by (auto simp: clients_inv_def)

lemma clients_invD:
  assumes "clients_inv cs" "get_client cs e = Some st"
  shows "distinct (map connection_id (active st # inactive st))"
    "\<forall>c \<in> set (active st # inactive st). endpoint_id c = e \<and> client_ok c"
  using assms by (auto simp: clients_inv_def)

subsection \<open>Registering\<close>

lemma conns_register_client:
  "conns (fst (register_client c (cs, ms))) e =
     (if e = endpoint_id c then connection_id c # conns cs e else conns cs e)"
  by (auto simp: register_client_def conns_def Let_def split: option.splits)

lemma register_client_inv:
  assumes "clients_inv cs" "client_ok c" "endpoint_id c = e" "connection_id c \<notin> set (conns cs e)"
  shows "clients_inv (fst (register_client c (cs, ms)))"
proof (cases "get_client cs e")
  case None
  then show ?thesis
    using assms by (simp add: register_client_def clients_inv_update)
next
  case (Some st)
  let ?old = "snd (try_send_health SameEndpointIdConnected (active st))"
  have "connection_id c \<notin> connection_id ` set (active st # inactive st)"
    using assms(4) Some by (simp add: conns_def)
  then have "clients_inv (cs\<lparr>clients_map :=
      al_update e \<lparr>active = c, inactive = inactive st @ [?old]\<rparr> (clients_map cs)\<rparr>)"
    using assms(2,3) clients_invD [OF assms(1) Some] by (intro clients_inv_update [OF assms(1)]) auto
  then show ?thesis using Some assms(3) by (simp add: register_client_def)
qed

lemma inactive_count_update:
  "inactive_count (cs\<lparr>clients_map := al_update e st (clients_map cs)\<rparr>)
     + (case get_client cs e of None \<Rightarrow> 0 | Some u \<Rightarrow> length (inactive u))
   = inactive_count cs + length (inactive st)"
  using sum_al_update [of "\<lambda>st. length (inactive st)" e st "clients_map cs"]
  by (simp add: inactive_count_def get_client_def)

lemma register_client_count:
  "clients_inactive_added (snd (register_client c (cs, ms))) + inactive_count cs =
     clients_inactive_added ms + inactive_count (fst (register_client c (cs, ms)))"
proof (cases "get_client cs (endpoint_id c)")
  case None
  then show ?thesis
    using inactive_count_update [of "endpoint_id c" "\<lparr>active = c, inactive = []\<rparr>" cs]
    by (simp add: register_client_def)
next
  case (Some st)
  then show ?thesis
    using inactive_count_update [of "endpoint_id c" "\<lparr>active = c, inactive =
        inactive st @ [snd (try_send_health SameEndpointIdConnected (active st))]\<rparr>" cs]
    by (simp add: register_client_def)
qed

lemma register_client_removed [simp]:
  "clients_inactive_removed (snd (register_client c (cs, ms))) = clients_inactive_removed ms"
  by (simp add: register_client_def Let_def split: option.splits)

subsection \<open>Unregistering\<close>

lemma conns_notify [simp]: "conns (notify_peer_gone g p cs) = conns cs"
  by (auto simp: notify_peer_gone_def conns_def fun_eq_iff split: option.splits)

lemma conns_notify_fold [simp]: "conns (fold (notify_peer_gone g) ps cs) = conns cs"
  by (induction ps arbitrary: cs) simp_all

lemma clients_inv_active:
  assumes "clients_inv cs" "get_client cs e = Some st" "client_ok c"
    "connection_id c = connection_id (active st)" "endpoint_id c = endpoint_id (active st)"
  shows "clients_inv (cs\<lparr>clients_map := al_update e (st\<lparr>active := c\<rparr>) (clients_map cs)\<rparr>)"
  using clients_invD [OF assms(1,2)] assms(3-5) by (intro clients_inv_update [OF assms(1)]) simp_all

lemma notify_inv: "clients_inv cs \<Longrightarrow> clients_inv (notify_peer_gone g p cs)"
  using clients_invD(2) [of cs p]
  by (cases "get_client cs p") (simp_all add: notify_peer_gone_def clients_inv_active)

lemma notify_fold_inv: "clients_inv cs \<Longrightarrow> clients_inv (fold (notify_peer_gone g) ps cs)"
  by (induction ps arbitrary: cs) (simp_all add: notify_inv)

lemma inactive_count_notify [simp]: "inactive_count (notify_peer_gone g p cs) = inactive_count cs"
proof (cases "get_client cs p")
  case (Some st)
  then show ?thesis
    using inactive_count_update [of p "st\<lparr>active := snd (try_send_peer_gone g (active st))\<rparr>" cs]
    by (simp add: notify_peer_gone_def)
qed (simp add: notify_peer_gone_def)

lemma inactive_count_notify_fold [simp]:
  "inactive_count (fold (notify_peer_gone g) ps cs) = inactive_count cs"
  by (induction ps arbitrary: cs) simp_all

lemma get_client_removed [simp]:
  "get_client (cs\<lparr>clients_map := al_remove e (clients_map cs), sent_to := ss\<rparr>) e' =
     (if e' = e then None else get_client cs e')"
  by (simp add: get_client_def)

lemma removed_inv:
  "clients_inv cs \<Longrightarrow>
     clients_inv (cs\<lparr>clients_map := al_remove e (clients_map cs), sent_to := al_remove e (sent_to cs)\<rparr>)"
  by (auto simp: clients_inv_def)

lemma unregister_entry_conns:
  assumes "distinct (map connection_id (active st # inactive st))" "unregister_entry cid st ms = (r, ms')"
  shows "(case r of None \<Rightarrow> [] | Some st' \<Rightarrow> map connection_id (active st' # rev (inactive st')))
    = filter (\<lambda>i. i \<noteq> cid) (map connection_id (active st # rev (inactive st)))"
proof (cases "connection_id (active st) = cid")
  case True
  have keep: "filter (\<lambda>i. i \<noteq> cid) (map connection_id (rev (inactive st))) = map connection_id (rev (inactive st))"
    using assms(1) True by (auto simp: filter_id_conv image_iff)
  show ?thesis
    using assms(2) True keep
    by (cases "inactive st" rule: rev_cases) (auto simp: unregister_entry_def)
next
  case False
  then show ?thesis
    using assms(2) by (auto simp: unregister_entry_def filter_map comp_def rev_filter)
qed

lemma conns_unregister:
  assumes "clients_inv cs"
  shows "conns (fst (unregister e cid (cs, ms))) e' =
    (if e' = e then filter (\<lambda>i. i \<noteq> cid) (conns cs e) else conns cs e')"
proof (cases "get_client cs e")
  case None
  then show ?thesis by (simp add: unregister_def conns_def)
next
  case (Some st)
  obtain r ms' where r: "unregister_entry cid st ms = (r, ms')" by force
  show ?thesis
    using unregister_entry_conns [OF clients_invD(1) [OF assms Some] r] Some r
    by (cases r) (auto simp: unregister_def Let_def conns_def)
qed

lemma unregister_entry_ok:
  assumes "distinct (map connection_id (active st # inactive st))"
    "\<forall>c \<in> set (active st # inactive st). endpoint_id c = e \<and> client_ok c"
    "unregister_entry cid st ms = (Some st', ms')"
  shows "distinct (map connection_id (active st' # inactive st')) \<and>
    (\<forall>c \<in> set (active st' # inactive st'). endpoint_id c = e \<and> client_ok c)"
proof (cases "inactive st" rule: rev_cases)
  case Nil
  then show ?thesis using assms by (auto simp: unregister_entry_def split: if_splits)
next
  case (snoc ys y)
  then show ?thesis
    using assms by (auto simp: unregister_entry_def distinct_map_filter image_iff split: if_splits)
qed

lemma unregister_inv:
  assumes "clients_inv cs"
  shows "clients_inv (fst (unregister e cid (cs, ms)))"
proof (cases "get_client cs e")
  case None
  then show ?thesis using assms by (simp add: unregister_def)
next
  case (Some st)
  obtain r ms' where r: "unregister_entry cid st ms = (r, ms')" by force
  show ?thesis
  proof (cases r)
    case None
    then show ?thesis
      using Some r removed_inv [OF assms] by (simp add: unregister_def Let_def notify_fold_inv)
  next
    case (Some st')
    note ok = unregister_entry_ok [OF clients_invD [OF assms \<open>get_client cs e = Some st\<close>] r [unfolded Some]]
    show ?thesis
      using clients_inv_update [OF assms, of st' e] ok \<open>get_client cs e = Some st\<close> r Some
      by (simp add: unregister_def)
  qed
qed

lemma filter_remove_one:
  "distinct (map f xs) \<Longrightarrow> x \<in> f ` set xs \<Longrightarrow> Suc (length (filter (\<lambda>c. f c \<noteq> x) xs)) = length xs"
proof (induction xs)
  case (Cons a xs)
  then have "f a = x \<Longrightarrow> filter (\<lambda>c. f c \<noteq> x) xs = xs" by (auto simp: filter_id_conv image_iff)
  then show ?case using Cons by auto
qed simp

lemma inactive_count_removed:
  assumes "clients_inv cs" "get_client cs e = Some st"
  shows "inactive_count (cs\<lparr>clients_map := al_remove e (clients_map cs), sent_to := ss\<rparr>)
    + length (inactive st) = inactive_count cs"
  using sum_al_remove [of "clients_map cs" "\<lambda>st. length (inactive st)" e] assms
  by (simp add: inactive_count_def get_client_def clients_inv_def)

lemma unregister_count:
  assumes inv: "clients_inv cs" and mem: "cid \<in> set (conns cs e)"
  shows "clients_inactive_removed (snd (unregister e cid (cs, ms))) + inactive_count (fst (unregister e cid (cs, ms)))
      = clients_inactive_removed ms + inactive_count cs"
proof -
  obtain st where st: "get_client cs e = Some st"
    using mem by (cases "get_client cs e") (auto simp: conns_def)
  note d = clients_invD(1) [OF inv st]
  show ?thesis
  proof (cases "connection_id (active st) = cid \<and> inactive st = []")
    case True
    then show ?thesis
      using st inactive_count_removed [OF inv st] by (simp add: unregister_def unregister_entry_def)
  next
    case False
    then obtain st' where r: "unregister_entry cid st ms
        = (Some st', ms\<lparr>clients_inactive_removed := clients_inactive_removed ms + 1\<rparr>)"
      and len: "Suc (length (inactive st')) = length (inactive st)"
      using d mem st filter_remove_one [of connection_id "inactive st" cid]
      by (cases "connection_id (active st) = cid") (auto simp: unregister_entry_def conns_def)
    then show ?thesis
      using st inactive_count_update [of e st' cs] by (simp add: unregister_def)
  qed
qed

lemma unregister_added [simp]:
  "clients_inactive_added (snd (unregister e cid (cs, ms))) = clients_inactive_added ms"
  by (simp add: unregister_def unregister_entry_def Let_def split: option.splits)

subsection \<open>Forwarding and disconnecting\<close>

lemma clients_inv_sent:
  assumes "clients_inv cs" "distinct ps"
  shows "clients_inv (cs\<lparr>sent_to := al_update src ps (sent_to cs)\<rparr>)"
  using assms by (auto simp: clients_inv_def get_client_def)

lemma send_packet_inv:
  assumes "clients_inv cs"
  shows "clients_inv (fst (snd (send_packet dst data src (cs, ms))))"
proof (cases "get_client cs dst")
  case (Some st)
  note ok = clients_invD(2) [OF assms Some]
  obtain r c where r: "try_send_packet src data (active st) = (r, c)" by force
  have c: "connection_id c = connection_id (active st)" "endpoint_id c = endpoint_id (active st)" "client_ok c"
    using try_send_keeps(3,6) [of src data "active st"] client_ok_ops(3) [of "active st" src data] ok r by auto
  have "distinct (case map_of (sent_to cs) src of None \<Rightarrow> [] | Some ps \<Rightarrow> ps)"
    using assms by (auto simp: clients_inv_def split: option.splits)
  then have "clients_inv (cs\<lparr>clients_map := al_update dst (st\<lparr>active := c\<rparr>) (clients_map cs),
      sent_to := al_update src (List.insert dst (case map_of (sent_to cs) src of None \<Rightarrow> [] | Some ps \<Rightarrow> ps))
        (sent_to cs)\<rparr>)"
    using clients_inv_sent [OF clients_inv_active [OF assms Some c(3,1,2)]] by simp
  then show ?thesis
    using Some r ok clients_inv_active [OF assms Some, of "start_shutdown (active st)"] assms
    by (cases r) (simp_all add: send_packet_def Let_def split: try_send_error.splits)
qed (use assms in \<open>simp add: send_packet_def\<close>)

lemma conns_send_packet [simp]: "conns (fst (snd (send_packet dst data src (cs, ms)))) = conns cs"
proof (cases "get_client cs dst")
  case (Some st)
  obtain r c where r: "try_send_packet src data (active st) = (r, c)" by force
  have c: "connection_id c = connection_id (active st)"
    using try_send_keeps(3) [of src data "active st"] r by simp
  show ?thesis
    using Some r c
    by (auto simp: send_packet_def Let_def conns_def get_client_def fun_eq_iff
        split: sum.splits try_send_error.splits)
qed (simp add: send_packet_def)

text \<open>The three outcomes of forwarding.\<close>

lemma send_packet_queued:
  assumes "get_client cs dst = Some st" "chan_open (packet_queue (active st))"
    "length (chan_items (packet_queue (active st))) < chan_cap (packet_queue (active st))"
  shows "\<exists>cs'. send_packet dst data src (cs, ms) = (Inr (), cs', ms) \<and>
    get_client cs' dst = Some (st\<lparr>active := (active st)\<lparr>packet_queue := (packet_queue (active st))
      \<lparr>chan_items := chan_items (packet_queue (active st)) @ [\<lparr>packet_src = src, packet_data = data\<rparr>]\<rparr>\<rparr>\<rparr>) \<and>
    (\<forall>e. e \<noteq> dst \<longrightarrow> get_client cs' e = get_client cs e) \<and>
    (\<exists>ps. map_of (sent_to cs') src = Some ps \<and> dst \<in> set ps)"
  using assms by (auto simp: send_packet_def try_send_packet_def try_send_def Let_def get_client_def)

lemma send_packet_unknown:
  "get_client cs dst = None \<Longrightarrow>
     send_packet dst data src (cs, ms) = (Inr (), cs, ms\<lparr>send_packets_dropped := send_packets_dropped ms + 1\<rparr>)"
  by (simp add: send_packet_def)

lemma send_packet_full:
  assumes "get_client cs dst = Some st" "chan_open (packet_queue (active st))"
    "chan_cap (packet_queue (active st)) \<le> length (chan_items (packet_queue (active st)))"
  shows "send_packet dst data src (cs, ms) = (Inl ForwardFull, cs, ms)"
  using assms by (simp add: send_packet_def try_send_packet_def try_send_def)

lemma disconnect_result:
  "fst (disconnect e cid cs) \<longleftrightarrow>
     (case cid of None \<Rightarrow> conns cs e \<noteq> [] | Some i \<Rightarrow> i \<in> set (conns cs e))"
  by (auto simp: disconnect_def conns_def split: option.splits)

lemma conns_disconnect [simp]: "conns (snd (disconnect e cid cs)) = conns cs"
  by (auto simp: disconnect_def shutdown_matching_def conns_def fun_eq_iff rev_map split: option.splits)

text \<open>Everyone a departing endpoint had sent to is told, if connected and not too busy.\<close>

lemma notify_peer_gone_get:
  "get_client (notify_peer_gone g p cs) e =
     (if e = p then map_option (\<lambda>st. st\<lparr>active := snd (try_send_peer_gone g (active st))\<rparr>) (get_client cs e)
      else get_client cs e)"
  by (auto simp: notify_peer_gone_def split: option.splits)

lemma notify_fold_get:
  "distinct ps \<Longrightarrow> get_client (fold (notify_peer_gone g) ps cs) e =
     (if e \<in> set ps then map_option (\<lambda>st. st\<lparr>active := snd (try_send_peer_gone g (active st))\<rparr>) (get_client cs e)
      else get_client cs e)"
  by (induction ps arbitrary: cs) (auto simp: notify_peer_gone_get)

section \<open>The contract of the registry\<close>

text \<open>
  A registry of connections per key: adding a connection puts it on top of its key's stack, and
  removing one takes it out of the stack wherever it is.
\<close>

locale connection_stacks =
  fixes inv :: "'s \<Rightarrow> bool"
    and stack :: "'s \<Rightarrow> 'e \<Rightarrow> 'c list"
    and key_of :: "'x \<Rightarrow> 'e"
    and id_of :: "'x \<Rightarrow> 'c"
    and push :: "'x \<Rightarrow> 's \<Rightarrow> 's"
    and pull :: "'e \<Rightarrow> 'c \<Rightarrow> 's \<Rightarrow> 's"
  assumes push_inv: "inv s \<Longrightarrow> id_of x \<notin> set (stack s (key_of x)) \<Longrightarrow> inv (push x s)"
    and push_stack: "inv s \<Longrightarrow>
      stack (push x s) e = (if e = key_of x then id_of x # stack s e else stack s e)"
    and pull_inv: "inv s \<Longrightarrow> inv (pull e c s)"
    and pull_stack: "inv s \<Longrightarrow>
      stack (pull e c s) e' = (if e' = e then filter (\<lambda>i. i \<noteq> c) (stack s e) else stack s e')"
begin

lemma run_stack:
  assumes "inv s" "distinct (map id_of [x. Inl x \<leftarrow> evs])"
    and "\<forall>x. Inl x \<in> set evs \<longrightarrow> id_of x \<notin> set (stack s (key_of x))"
  shows "inv (fold (\<lambda>ev. case ev of Inl x \<Rightarrow> push x | Inr (e, c) \<Rightarrow> pull e c) evs s) \<and>
    stack (fold (\<lambda>ev. case ev of Inl x \<Rightarrow> push x | Inr (e, c) \<Rightarrow> pull e c) evs s) e =
      fold (\<lambda>ev st. case ev of
          Inl x \<Rightarrow> (if key_of x = e then id_of x # st else st)
        | Inr (e', c) \<Rightarrow> (if e' = e then filter (\<lambda>i. i \<noteq> c) st else st)) evs (stack s e)"
  using assms
proof (induction evs arbitrary: s)
  case (Cons ev evs)
  show ?case
  proof (cases ev)
    case (Inl x)
    have "inv (push x s)" using Cons.prems Inl by (intro push_inv) auto
    moreover have "\<forall>y. Inl y \<in> set evs \<longrightarrow> id_of y \<notin> set (stack (push x s) (key_of y))"
    proof (intro allI impI)
      fix y assume y: "Inl y \<in> set evs"
      then have "id_of y \<in> set (map id_of [x. Inl x \<leftarrow> evs])" by force
      then have "id_of y \<noteq> id_of x" using Cons.prems(2) Inl by auto
      moreover have "id_of y \<notin> set (stack s (key_of y))" using Cons.prems(3) y by simp
      ultimately show "id_of y \<notin> set (stack (push x s) (key_of y))"
        using push_stack [OF Cons.prems(1), of x "key_of y"] by (cases "key_of y = key_of x") simp_all
    qed
    ultimately show ?thesis
      using Cons.IH [of "push x s"] Cons.prems Inl by (auto simp: push_stack)
  next
    case (Inr p)
    obtain e' c where p: "p = (e', c)" by force
    have "\<forall>y. Inl y \<in> set evs \<longrightarrow> id_of y \<notin> set (stack (pull e' c s) (key_of y))"
    proof (intro allI impI)
      fix y assume "Inl y \<in> set evs"
      then have "id_of y \<notin> set (stack s (key_of y))" using Cons.prems(3) by simp
      then show "id_of y \<notin> set (stack (pull e' c s) (key_of y))"
        using pull_stack [OF Cons.prems(1), of e' c "key_of y"] by (cases "key_of y = e'") simp_all
    qed
    then show ?thesis
      using Cons.IH [of "pull e' c s"] Cons.prems Inr p pull_inv by (auto simp: pull_stack)
  qed
qed simp

end

definition conns_of :: "clients \<times> relay_metrics \<Rightarrow> endpoint_id \<Rightarrow> u64 list" where
  "conns_of s = conns (fst s)"

interpretation reg: connection_stacks "\<lambda>s. clients_inv (fst s)" conns_of
    "\<lambda>cfg. guard_endpoint_id (cfg_guard cfg)" "\<lambda>cfg. guard_connection_id (cfg_guard cfg)" register unregister
proof unfold_locales
  fix s :: "clients \<times> relay_metrics" and cfg e e' c
  assume inv: "clients_inv (fst s)"
  have new: "endpoint_id (client_new cfg) = guard_endpoint_id (cfg_guard cfg)"
    "connection_id (client_new cfg) = guard_connection_id (cfg_guard cfg)"
    by (simp_all add: client_new_def)
  show "conns_of (register cfg s) e =
      (if e = guard_endpoint_id (cfg_guard cfg) then guard_connection_id (cfg_guard cfg) # conns_of s e
       else conns_of s e)"
    using conns_register_client [of "client_new cfg" "fst s" "snd s" e] new
    by (simp add: conns_of_def register_def)
  show "clients_inv (fst (unregister e c s))"
    using unregister_inv [OF inv, of e c "snd s"] by simp
  show "conns_of (unregister e c s) e' =
      (if e' = e then filter (\<lambda>i. i \<noteq> c) (conns_of s e) else conns_of s e')"
    using conns_unregister [OF inv, of e c "snd s" e'] by (simp add: conns_of_def)
  show "clients_inv (fst (register cfg s))"
    if "guard_connection_id (cfg_guard cfg) \<notin> set (conns_of s (guard_endpoint_id (cfg_guard cfg)))"
    using register_client_inv [OF inv, of "client_new cfg" _ "snd s"] new that
    by (simp add: conns_of_def register_def)
qed

end
