(* ===== verification/Relay_Stream.thy ===== *)
theory Relay_Stream
  imports Relay_Proto Ws_Stream
begin

text \<open>
  The relay's stream of protocol messages to one client (\<open>RelayedStream\<close> of
  \<open>iroh-relay/src/server/streams.rs\<close>): the sink checks and encodes, the stream decodes with the
  shared key cache. \<open>None\<close> is a panic. Lemmas: what the sink accepts, the client decodes; which
  messages it refuses.
\<close>

datatype relay_send_error = SendStreamError | ExceedsMaxPacketSize nat | EmptyPacket

datatype relay_recv_error = RecvProto proto_error | RecvStreamError

fun empty_datagrams :: "relay_to_client_msg \<Rightarrow> bool" where
  "empty_datagrams (R2C_Datagrams _ d) = (contents d = [])"
| "empty_datagrams _ = False"

definition relayed_start_send ::
  "'c relay_env \<Rightarrow> relay_to_client_msg \<Rightarrow> ws_io \<Rightarrow> (relay_send_error + unit) option \<times> ws_io" where
  "relayed_start_send R item io =
     (case r2c_encoded_len item of
        None \<Rightarrow> (None, io)
      | Some len \<Rightarrow>
         (if MAX_PACKET_SIZE < len then (Some (Inl (ExceedsMaxPacketSize len)), io)
          else if empty_datagrams item then (Some (Inl EmptyPacket), io)
          else case ws_start_send (r2c_to_bytes R item) io of
                 (Inl _, io') \<Rightarrow> (Some (Inl SendStreamError), io')
               | (Inr _, io') \<Rightarrow> (Some (Inr ()), io')))"

definition relayed_poll_next ::
  "'c relay_env \<Rightarrow> 'c key_cache \<Rightarrow> ws_io
     \<Rightarrow> (relay_recv_error + client_to_relay_msg) option option \<times> 'c key_cache \<times> ws_io" where
  "relayed_poll_next R cache io =
     (case ws_next io of
        (None, io') \<Rightarrow> (Some None, cache, io')
      | (Some (Inl _), io') \<Rightarrow> (Some (Some (Inl RecvStreamError)), cache, io')
      | (Some (Inr msg), io') \<Rightarrow>
         (case c2r_from_bytes R cache msg of
            (None, cache') \<Rightarrow> (None, cache', io')
          | (Some r, cache') \<Rightarrow> (Some (Some (map_err RecvProto r)), cache', io')))"

lemma relayed_start_send_total: "fst (relayed_start_send R item io) \<noteq> None"
  by (auto simp: relayed_start_send_def r2c_encoded_len_def split: prod.splits sum.splits)

lemma r2c_encoded_len_eq [simp]: "r2c_encoded_len m = Some (1 + r2c_payload_len m)"
  by (simp add: r2c_encoded_len_def)

text \<open>The sink sends exactly the messages within the limit whose datagrams are not empty.\<close>

lemma relayed_start_send_result:
  "relayed_start_send R item io =
    (if MAX_PACKET_SIZE \<le> r2c_payload_len item then (Some (Inl (ExceedsMaxPacketSize (1 + r2c_payload_len item))), io)
     else if empty_datagrams item then (Some (Inl EmptyPacket), io)
     else if ws_send_ok io (length (ws_out io))
     then (Some (Inr ()), io\<lparr>ws_out := ws_out io @ [r2c_to_bytes R item]\<rparr>)
     else (Some (Inl SendStreamError), io))"
  by (auto simp: relayed_start_send_def ws_start_send_def)

lemma relayed_start_send_wf:
  assumes "relayed_start_send R item io = (Some (Inr ()), io')" "r2c_ok C ver item"
  shows "r2c_wf C ver item" "ws_out io' = ws_out io @ [r2c_to_bytes R item]"
  using assms by (auto simp: relayed_start_send_result r2c_wf_def split: if_splits)

lemma relayed_poll_next_client_frame:
  assumes "cache_ready R cache" "c2r_wf (env_ed R) m"
    "ws_in io = WsMsg (WsBinary (c2r_to_bytes R m)) # es"
  shows "\<exists>cache'. relayed_poll_next R cache io = (Some (Some (Inr m)), cache', io\<lparr>ws_in := es\<rparr>)
    \<and> cache_ready R cache'"
proof -
  obtain r cache' where r: "c2r_from_bytes R cache (c2r_to_bytes R m) = (r, cache')" by force
  have "r = Some (Inr m)" "key_cache_inv (env_ed R) (env_lru R) cache'"
    using c2r_roundtrip [of R cache m] c2r_from_bytes_cache_inv [of R cache "c2r_to_bytes R m"] assms(1,2) r
    by (auto simp: cache_ready_def)
  then show ?thesis
    using assms r by (simp add: relayed_poll_next_def cache_ready_def)
qed

lemma relayed_poll_next_cache:
  assumes "cache_ready R cache" "relayed_poll_next R cache io = (r, cache', io')"
  shows "cache_ready R cache'"
  using assms c2r_from_bytes_cache_inv [of R cache]
  by (auto simp: relayed_poll_next_def cache_ready_def split: prod.splits option.splits sum.splits)
    (metis snd_conv)+

lemma relayed_poll_next_wf:
  assumes "cache_ready R cache" "relayed_poll_next R cache io = (Some (Some (Inr m)), cache', io')"
  shows "c2r_wf (env_ed R) m"
proof -
  have "\<exists>b. fst (c2r_from_bytes R cache b) = Some (Inr m)"
    using assms(2)
    by (auto simp: relayed_poll_next_def split: prod.splits option.splits sum.splits) (metis fst_conv)
  then show ?thesis
    using assms(1) c2r_from_bytes_sound [of R cache] by (auto simp: cache_ready_def)
qed

end
