(* ===== verification/Ping_Tracker.thy ===== *)
theory Ping_Tracker
  imports Nexa_Prelude
begin

text \<open>
  The ping tracker of a relay connection (\<open>iroh-relay/src/ping_tracker.rs\<close>). The clock and the
  random payload are arguments. \<open>ping_timeout\<close> is \<open>None\<close> where \<open>Duration::clamp\<close> panics because
  the lower bound exceeds the upper one.
\<close>

definition PING_TIMEOUT :: duration where "PING_TIMEOUT = from_secs 5"
definition MIN_HEALTH_CHECK_TIMEOUT :: duration where "MIN_HEALTH_CHECK_TIMEOUT = from_millis 500"

record ping_inner =
  ping_data :: bytes
  ping_deadline :: instant
  ping_sent_at :: instant

record ping_tracker =
  ping_pending :: "ping_inner option"
  max_timeout :: duration
  last_rtt :: "duration option"

definition ping_tracker_new :: "duration \<Rightarrow> ping_tracker" where
  "ping_tracker_new t = \<lparr>ping_pending = None, max_timeout = t, last_rtt = None\<rparr>"

definition ping_tracker_default :: ping_tracker where
  "ping_tracker_default = ping_tracker_new PING_TIMEOUT"

definition clamp :: "nat \<Rightarrow> nat \<Rightarrow> nat \<Rightarrow> nat option" where
  "clamp lo hi x = (if hi < lo then None else Some (if x < lo then lo else if hi < x then hi else x))"

definition ping_timeout :: "ping_tracker \<Rightarrow> duration option" where
  "ping_timeout p =
     (case last_rtt p of
        None \<Rightarrow> Some (max_timeout p)
      | Some rtt \<Rightarrow> clamp MIN_HEALTH_CHECK_TIMEOUT (max_timeout p) (rtt * 3))"

definition new_ping_with_timeout ::
  "instant \<Rightarrow> bytes \<Rightarrow> duration \<Rightarrow> ping_tracker \<Rightarrow> bytes \<times> ping_tracker" where
  "new_ping_with_timeout now data timeout p =
     (data, p\<lparr>ping_pending := Some \<lparr>ping_data = data, ping_deadline = now + timeout, ping_sent_at = now\<rparr>\<rparr>)"

definition new_ping :: "instant \<Rightarrow> bytes \<Rightarrow> ping_tracker \<Rightarrow> (bytes \<times> ping_tracker) option" where
  "new_ping now data p =
     map_option (\<lambda>timeout. new_ping_with_timeout now data timeout p) (ping_timeout p)"

definition pong_received :: "instant \<Rightarrow> bytes \<Rightarrow> ping_tracker \<Rightarrow> ping_tracker" where
  "pong_received now data p =
     (case ping_pending p of
        Some i \<Rightarrow> (if ping_data i = data
                    then p\<lparr>last_rtt := Some (now - ping_sent_at i), ping_pending := None\<rparr> else p)
      | None \<Rightarrow> p)"

text \<open>
  \<open>timeout\<close> polled at time \<open>now\<close>: it resolves (\<open>True\<close>) once the deadline of the pending ping
  is reached, and stays pending otherwise.
\<close>

definition ping_timeout_poll :: "instant \<Rightarrow> ping_tracker \<Rightarrow> bool \<times> ping_tracker" where
  "ping_timeout_poll now p =
     (case ping_pending p of
        Some i \<Rightarrow> (if ping_deadline i \<le> now then (True, p\<lparr>ping_pending := None\<rparr>) else (False, p))
      | None \<Rightarrow> (False, p))"

text \<open>The timeouts stay within the bounds, and no operation panics, if the maximum allows it.\<close>

lemma ping_timeout_bounds:
  assumes "MIN_HEALTH_CHECK_TIMEOUT \<le> max_timeout p"
  shows "\<exists>t. ping_timeout p = Some t \<and> t \<le> max_timeout p \<and> MIN_HEALTH_CHECK_TIMEOUT \<le> t"
  using assms by (auto simp: ping_timeout_def clamp_def split: option.splits)

lemma ping_timeout_panics_iff:
  "ping_timeout p = None \<longleftrightarrow> last_rtt p \<noteq> None \<and> max_timeout p < MIN_HEALTH_CHECK_TIMEOUT"
  by (auto simp: ping_timeout_def clamp_def split: option.splits)

lemma max_timeout_unchanged [simp]:
  "max_timeout (snd (new_ping_with_timeout now data t p)) = max_timeout p"
  "max_timeout (pong_received now data p) = max_timeout p"
  "max_timeout (snd (ping_timeout_poll now p)) = max_timeout p"
  by (simp_all add: new_ping_with_timeout_def pong_received_def ping_timeout_poll_def split: option.splits)

text \<open>Only the latest ping counts: its pong clears it, and without it the deadline fires.\<close>

lemma ping_answered:
  assumes "new_ping_with_timeout now data t p = (d, p')" "now \<le> now'"
  shows "pong_received now' data p' = p'\<lparr>last_rtt := Some (now' - now), ping_pending := None\<rparr>"
    and "data' \<noteq> data \<Longrightarrow> pong_received now' data' p' = p'"
    and "fst (ping_timeout_poll now' (pong_received now' data p')) = False"
    and "fst (ping_timeout_poll now' p') = (now + t \<le> now')"
  using assms
  by (auto simp: new_ping_with_timeout_def pong_received_def ping_timeout_poll_def split: if_splits)

end
