(* ===== verification/Relay_Actor.thy ===== *)
theory Relay_Actor
  imports Relay_Clients Relay_Stream Ping_Tracker
begin

text \<open>
  The actor of one client connection (\<open>iroh-relay/src/server/client.rs\<close>). One iteration of its
  select loop is a function of the chosen event; what the runtime decides (the clock, whether a
  write finishes in time, whether the flush succeeds) is an argument. The actor's queues are the
  ones of its own handle in the registry. Lemmas: what each event does, that the registry's
  invariant is kept, and how a run of the loop ends.
\<close>

section \<open>Daily client counter\<close>

record client_counter =
  counter_clients :: "endpoint_id list"
  last_clear_date :: nat

definition client_counter_default :: "nat \<Rightarrow> client_counter" where
  "client_counter_default today = \<lparr>counter_clients = [], last_clear_date = today\<rparr>"

definition check_and_clear :: "nat \<Rightarrow> client_counter \<Rightarrow> client_counter" where
  "check_and_clear today c =
     (if today \<noteq> last_clear_date c then \<lparr>counter_clients = [], last_clear_date = today\<rparr> else c)"

definition client_counter_update :: "nat \<Rightarrow> endpoint_id \<Rightarrow> client_counter \<Rightarrow> bool \<times> client_counter" where
  "client_counter_update today client c =
     (let c1 = check_and_clear today c in
      (client \<notin> set (counter_clients c1),
       c1\<lparr>counter_clients := List.insert client (counter_clients c1)\<rparr>))"

text \<open>A counter answers whether the client was seen since it was last cleared.\<close>

lemma client_counter_update_iff:
  "fst (client_counter_update today client c) \<longleftrightarrow>
     today \<noteq> last_clear_date c \<or> client \<notin> set (counter_clients c)"
  by (simp add: client_counter_update_def check_and_clear_def Let_def)

lemma client_counter_update_again:
  "fst (client_counter_update today client (snd (client_counter_update today client c))) = False"
  by (simp add: client_counter_update_def check_and_clear_def Let_def)

section \<open>The actor\<close>

record actor =
  act_guard :: on_disconnect_guard
  act_io :: ws_io
  act_ping :: ping_tracker

datatype write_frame_error = WriteStream relay_send_error | WriteTimeout

datatype handle_frame_error =
    StreamTerminated
  | HandleRecv relay_recv_error
  | HandleSend write_frame_error

datatype run_error =
    RunFlush
  | RunHandleFrame handle_frame_error
  | RunPacketSend write_frame_error
  | RunHandleDropped
  | RunWriteFrame write_frame_error
  | RunTickFlush

text \<open>How the write of a frame under the timeout goes: done, or given up before or after the frame was taken.\<close>

datatype write_wait = WriteDone | TimedOutUnsent | TimedOutSent

definition actor_write_frame ::
  "'c relay_env \<Rightarrow> write_wait \<Rightarrow> relay_to_client_msg \<Rightarrow> ws_io \<Rightarrow> (write_frame_error + unit) option \<times> ws_io" where
  "actor_write_frame R wait frame io =
     (case wait of
        TimedOutUnsent \<Rightarrow> (Some (Inl WriteTimeout), io)
      | _ \<Rightarrow>
         (case relayed_start_send R frame io of
            (None, io') \<Rightarrow> (None, io')
          | (Some (Inl e), io') \<Rightarrow> (Some (Inl (WriteStream e)), io')
          | (Some (Inr _), io') \<Rightarrow>
              (Some (if wait = TimedOutSent then Inl WriteTimeout else Inr ()), io')))"

definition send_raw ::
  "'c relay_env \<Rightarrow> write_wait \<Rightarrow> packet \<Rightarrow> ws_io \<times> relay_metrics
     \<Rightarrow> (write_frame_error + unit) option \<times> ws_io \<times> relay_metrics" where
  "send_raw R wait p s =
     (case s of (io, ms) \<Rightarrow>
        (let ms1 = ms\<lparr>bytes_sent := bytes_sent ms + length (contents (packet_data p))\<rparr> in
         case actor_write_frame R wait (R2C_Datagrams (packet_src p) (packet_data p)) io of
           (r, io') \<Rightarrow> (r, io', ms1)))"

definition actor_send_packet ::
  "'c relay_env \<Rightarrow> write_wait \<Rightarrow> packet \<Rightarrow> ws_io \<times> relay_metrics
     \<Rightarrow> (write_frame_error + unit) option \<times> ws_io \<times> relay_metrics" where
  "actor_send_packet R wait p s =
     (case send_raw R wait p s of
        (Some (Inr _), io', ms') \<Rightarrow> (Some (Inr ()), io', ms'\<lparr>send_packets_sent := send_packets_sent ms' + 1\<rparr>)
      | (Some (Inl e), io', ms') \<Rightarrow> (Some (Inl e), io', ms'\<lparr>send_packets_dropped := send_packets_dropped ms' + 1\<rparr>)
      | (None, io', ms') \<Rightarrow> (None, io', ms'))"

text \<open>\<open>handle_frame_send_packet\<close>: the source of a forwarded packet is the guard's endpoint.\<close>

definition handle_frame_send_packet ::
  "on_disconnect_guard \<Rightarrow> endpoint_id \<Rightarrow> datagrams \<Rightarrow> clients \<times> relay_metrics
     \<Rightarrow> (forward_error + unit) \<times> clients \<times> relay_metrics" where
  "handle_frame_send_packet g dst data s =
     (case s of (cs, ms) \<Rightarrow>
        send_packet dst data (guard_endpoint_id g) (cs, ms\<lparr>send_packets_recv := send_packets_recv ms + 1\<rparr>))"

definition handle_frame ::
  "'c relay_env \<Rightarrow> instant \<Rightarrow> write_wait \<Rightarrow> (relay_recv_error + client_to_relay_msg) option
     \<Rightarrow> actor \<times> clients \<times> relay_metrics
     \<Rightarrow> (handle_frame_error + unit) option \<times> actor \<times> clients \<times> relay_metrics" where
  "handle_frame R now wait maybe_frame s =
     (case s of (a, cs, ms) \<Rightarrow>
        (case maybe_frame of
           None \<Rightarrow> (Some (Inl StreamTerminated), a, cs, ms)
         | Some (Inl e) \<Rightarrow> (Some (Inl (HandleRecv e)), a, cs, ms)
         | Some (Inr frame) \<Rightarrow>
            (case frame of
               C2R_Datagrams dst_key d \<Rightarrow>
                 (case handle_frame_send_packet (act_guard a) dst_key d (cs, ms) of
                    (_, cs', ms') \<Rightarrow>
                      (Some (Inr ()), a, cs', ms'\<lparr>bytes_recv := bytes_recv ms' + length (contents d)\<rparr>))
             | C2R_Ping data \<Rightarrow>
                 (let ms1 = ms\<lparr>got_ping := got_ping ms + 1\<rparr> in
                  case actor_write_frame R wait (R2C_Pong data) (act_io a) of
                    (None, io') \<Rightarrow> (None, a\<lparr>act_io := io'\<rparr>, cs, ms1)
                  | (Some (Inl e), io') \<Rightarrow> (Some (Inl (HandleSend e)), a\<lparr>act_io := io'\<rparr>, cs, ms1)
                  | (Some (Inr _), io') \<Rightarrow>
                      (Some (Inr ()), a\<lparr>act_io := io'\<rparr>, cs, ms1\<lparr>sent_pong := sent_pong ms1 + 1\<rparr>))
             | C2R_Pong data \<Rightarrow>
                 (Some (Inr ()), a\<lparr>act_ping := pong_received now data (act_ping a)\<rparr>, cs, ms))))"

section \<open>One iteration of the loop\<close>

definition own_client :: "endpoint_id \<Rightarrow> u64 \<Rightarrow> clients \<Rightarrow> client option" where
  "own_client e cid cs =
     (case get_client cs e of
        None \<Rightarrow> None
      | Some st \<Rightarrow> find (\<lambda>c. connection_id c = cid) (active st # inactive st))"

definition update_own :: "endpoint_id \<Rightarrow> u64 \<Rightarrow> (client \<Rightarrow> client) \<Rightarrow> clients \<Rightarrow> clients" where
  "update_own e cid f cs =
     (case get_client cs e of
        None \<Rightarrow> cs
      | Some st \<Rightarrow>
          (let g = (\<lambda>c. if connection_id c = cid then f c else c) in
           cs\<lparr>clients_map :=
             al_update e \<lparr>active = g (active st), inactive = map g (inactive st)\<rparr> (clients_map cs)\<rparr>))"

datatype actor_event = EvCancelled | EvFrame | EvPacket | EvMessage | EvPingTimeout | EvTick bytes

text \<open>The \<open>biased\<close> select takes the first ready branch in the order of the source.\<close>

definition select_event ::
  "bool \<Rightarrow> bool \<Rightarrow> bytes option \<Rightarrow> instant \<Rightarrow> client \<Rightarrow> actor \<Rightarrow> actor_event option" where
  "select_event cancelled frame_ready tick now c a =
     (if cancelled then Some EvCancelled
      else if frame_ready then Some EvFrame
      else if chan_items (packet_queue c) \<noteq> [] then Some EvPacket
      else if chan_items (message_queue c) \<noteq> [] then Some EvMessage
      else if fst (ping_timeout_poll now (act_ping a)) then Some EvPingTimeout
      else map_option EvTick tick)"

datatype actor_outcome = Running | Finished "run_error + unit" | Panicked

text \<open>The flush at the end of an iteration.\<close>

definition end_iteration :: "bool \<Rightarrow> actor_outcome" where
  "end_iteration flush_ok = (if flush_ok then Running else Finished (Inl RunTickFlush))"

record 'c relay =
  rel_clients :: clients
  rel_metrics :: relay_metrics
  rel_cache :: "'c key_cache"

definition iterate_frame ::
  "'c relay_env \<Rightarrow> instant \<Rightarrow> write_wait \<Rightarrow> bool \<Rightarrow> actor \<times> 'c relay \<Rightarrow> actor_outcome \<times> actor \<times> 'c relay" where
  "iterate_frame R now wait flush_ok s =
     (case s of (a, rel) \<Rightarrow>
        (case relayed_poll_next R (rel_cache rel) (act_io a) of
           (None, cache', io') \<Rightarrow> (Panicked, a\<lparr>act_io := io'\<rparr>, rel\<lparr>rel_cache := cache'\<rparr>)
         | (Some maybe_frame, cache', io') \<Rightarrow>
             (case handle_frame R now wait maybe_frame (a\<lparr>act_io := io'\<rparr>, rel_clients rel, rel_metrics rel) of
                (r, a', cs', ms') \<Rightarrow>
                  ((case r of
                      None \<Rightarrow> Panicked
                    | Some (Inl e) \<Rightarrow> Finished (Inl (RunHandleFrame e))
                    | Some (Inr _) \<Rightarrow> end_iteration flush_ok),
                   a', rel\<lparr>rel_clients := cs', rel_metrics := ms', rel_cache := cache'\<rparr>))))"

definition iterate_packet ::
  "'c relay_env \<Rightarrow> write_wait \<Rightarrow> bool \<Rightarrow> actor \<times> 'c relay \<Rightarrow> actor_outcome \<times> actor \<times> 'c relay" where
  "iterate_packet R wait flush_ok s =
     (case s of (a, rel) \<Rightarrow>
        (let e = guard_endpoint_id (act_guard a); cid = guard_connection_id (act_guard a) in
         case own_client e cid (rel_clients rel) of
           None \<Rightarrow> (Finished (Inl RunHandleDropped), a, rel)
         | Some c \<Rightarrow>
             (case recv (packet_queue c) of
                (None, _) \<Rightarrow> (Running, a, rel)
              | (Some p, q) \<Rightarrow>
                  (let cs' = update_own e cid (\<lambda>c. c\<lparr>packet_queue := q\<rparr>) (rel_clients rel) in
                   case actor_send_packet R wait p (act_io a, rel_metrics rel) of
                     (r, io', ms') \<Rightarrow>
                       ((case r of
                           None \<Rightarrow> Panicked
                         | Some (Inl err) \<Rightarrow> Finished (Inl (RunPacketSend err))
                         | Some (Inr _) \<Rightarrow> end_iteration flush_ok),
                        a\<lparr>act_io := io'\<rparr>, rel\<lparr>rel_clients := cs', rel_metrics := ms'\<rparr>)))))"

definition iterate_message ::
  "'c relay_env \<Rightarrow> write_wait \<Rightarrow> bool \<Rightarrow> actor \<times> 'c relay \<Rightarrow> actor_outcome \<times> actor \<times> 'c relay" where
  "iterate_message R wait flush_ok s =
     (case s of (a, rel) \<Rightarrow>
        (let e = guard_endpoint_id (act_guard a); cid = guard_connection_id (act_guard a) in
         case own_client e cid (rel_clients rel) of
           None \<Rightarrow> (Finished (Inl RunHandleDropped), a, rel)
         | Some c \<Rightarrow>
             (case recv (message_queue c) of
                (None, _) \<Rightarrow> (Running, a, rel)
              | (Some m, q) \<Rightarrow>
                  (let cs' = update_own e cid (\<lambda>c. c\<lparr>message_queue := q\<rparr>) (rel_clients rel) in
                   case actor_write_frame R wait m (act_io a) of
                     (r, io') \<Rightarrow>
                       ((case r of
                           None \<Rightarrow> Panicked
                         | Some (Inl err) \<Rightarrow> Finished (Inl (RunWriteFrame err))
                         | Some (Inr _) \<Rightarrow> end_iteration flush_ok),
                        a\<lparr>act_io := io'\<rparr>, rel\<lparr>rel_clients := cs'\<rparr>)))))"

definition iterate_tick ::
  "'c relay_env \<Rightarrow> instant \<Rightarrow> write_wait \<Rightarrow> bool \<Rightarrow> bytes \<Rightarrow> actor \<times> 'c relay
     \<Rightarrow> actor_outcome \<times> actor \<times> 'c relay" where
  "iterate_tick R now wait flush_ok random s =
     (case s of (a, rel) \<Rightarrow>
        (case new_ping now random (act_ping a) of
           None \<Rightarrow> (Panicked, a, rel)
         | Some (data, ping') \<Rightarrow>
             (case actor_write_frame R wait (R2C_Ping data) (act_io a) of
                (r, io') \<Rightarrow>
                  ((case r of
                      None \<Rightarrow> Panicked
                    | Some (Inl err) \<Rightarrow> Finished (Inl (RunWriteFrame err))
                    | Some (Inr _) \<Rightarrow> end_iteration flush_ok),
                   a\<lparr>act_io := io', act_ping := ping'\<rparr>, rel))))"

fun run_iteration ::
  "'c relay_env \<Rightarrow> instant \<Rightarrow> write_wait \<Rightarrow> bool \<Rightarrow> actor_event \<Rightarrow> actor \<times> 'c relay
     \<Rightarrow> actor_outcome \<times> actor \<times> 'c relay" where
  "run_iteration R now wait flush_ok EvCancelled (a, rel) =
     (Finished (if flush_ok then Inr () else Inl RunFlush), a, rel)"
| "run_iteration R now wait flush_ok EvFrame s = iterate_frame R now wait flush_ok s"
| "run_iteration R now wait flush_ok EvPacket s = iterate_packet R wait flush_ok s"
| "run_iteration R now wait flush_ok EvMessage s = iterate_message R wait flush_ok s"
| "run_iteration R now wait flush_ok EvPingTimeout (a, rel) =
     (Finished (Inr ()), a\<lparr>act_ping := snd (ping_timeout_poll now (act_ping a))\<rparr>, rel)"
| "run_iteration R now wait flush_ok (EvTick random) s = iterate_tick R now wait flush_ok random s"

section \<open>Start and end of an actor\<close>

text \<open>
  \<open>Client::new\<close> gives every actor its own fresh counter, so \<open>actor_start\<close> consults an empty one.
\<close>

definition actor_new :: "client_config \<Rightarrow> ws_io \<Rightarrow> actor" where
  "actor_new config io =
     \<lparr>act_guard = cfg_guard config, act_io = io, act_ping = ping_tracker_default\<rparr>"

definition actor_start :: "nat \<Rightarrow> actor \<Rightarrow> relay_metrics \<Rightarrow> relay_metrics" where
  "actor_start today a ms =
     (let ms1 = ms\<lparr>accepts := accepts ms + 1\<rparr> in
      if fst (client_counter_update today (guard_endpoint_id (act_guard a)) (client_counter_default today))
      then ms1\<lparr>unique_client_keys := unique_client_keys ms1 + 1\<rparr> else ms1)"

text \<open>The last component is the \<open>on_disconnect\<close> calls of the guard, which \<open>unregister\<close> consumes.\<close>

definition actor_finish :: "actor \<Rightarrow> 'c relay \<Rightarrow> 'c relay \<times> (endpoint_id \<times> u64) list" where
  "actor_finish a rel =
     (case unregister (guard_endpoint_id (act_guard a)) (guard_connection_id (act_guard a))
             (rel_clients rel, rel_metrics rel) of
        (cs', ms') \<Rightarrow>
          (rel\<lparr>rel_clients := cs', rel_metrics := ms'\<lparr>disconnects := disconnects ms' + 1\<rparr>\<rparr>,
           guard_drop (act_guard a)))"

text \<open>
  A panic unwinds the task: the actor's fields are dropped, so the queues close and the guard
  reports the disconnect, but \<open>unregister\<close> does not run.
\<close>

definition actor_unwind :: "actor \<Rightarrow> 'c relay \<Rightarrow> 'c relay \<times> (endpoint_id \<times> u64) list" where
  "actor_unwind a rel =
     (rel\<lparr>rel_clients := update_own (guard_endpoint_id (act_guard a)) (guard_connection_id (act_guard a))
        (\<lambda>c. c\<lparr>packet_queue := (packet_queue c)\<lparr>chan_open := False\<rparr>,
                message_queue := (message_queue c)\<lparr>chan_open := False\<rparr>\<rparr>) (rel_clients rel)\<rparr>,
      guard_drop (act_guard a))"

section \<open>An iteration keeps the registry\<close>

lemma update_own_conns [simp]:
  "(\<And>c. connection_id (f c) = connection_id c) \<Longrightarrow> conns (update_own e cid f cs) = conns cs"
  by (cases "get_client cs e") (auto simp: update_own_def conns_def Let_def fun_eq_iff rev_map)

lemma update_own_count [simp]: "inactive_count (update_own e cid f cs) = inactive_count cs"
proof (cases "get_client cs e")
  case (Some st)
  let ?g = "\<lambda>c. if connection_id c = cid then f c else c"
  show ?thesis
    using Some inactive_count_update [of e "\<lparr>active = ?g (active st), inactive = map ?g (inactive st)\<rparr>" cs]
    by (simp add: update_own_def Let_def)
qed (simp add: update_own_def)

lemma update_own_inv:
  assumes "clients_inv cs"
    and f: "\<And>c. connection_id (f c) = connection_id c" "\<And>c. endpoint_id (f c) = endpoint_id c"
    and ok: "\<And>c. connection_id c = cid \<Longrightarrow> client_ok c \<Longrightarrow> own_client e cid cs = Some c \<Longrightarrow> client_ok (f c)"
  shows "clients_inv (update_own e cid f cs)"
proof (cases "get_client cs e")
  case (Some st)
  let ?g = "\<lambda>c. if connection_id c = cid then f c else c"
  note inv = clients_invD [OF assms(1) Some]
  have own: "own_client e cid cs = Some c" if "c \<in> set (active st # inactive st)" "connection_id c = cid" for c
    using find_Some_iff_mem [OF inv(1), of cid c] that Some by (simp add: own_client_def)
  have ids: "map connection_id (map ?g xs) = map connection_id xs" for xs
    using f(1) by simp
  have "clients_inv (cs\<lparr>clients_map :=
      al_update e \<lparr>active = ?g (active st), inactive = map ?g (inactive st)\<rparr> (clients_map cs)\<rparr>)"
  proof (rule clients_inv_update [OF assms(1)])
    show "distinct (map connection_id (active \<lparr>active = ?g (active st), inactive = map ?g (inactive st)\<rparr>
        # inactive \<lparr>active = ?g (active st), inactive = map ?g (inactive st)\<rparr>))"
      using inv(1) ids [of "active st # inactive st"] by (simp only: client_state.simps list.map)
    show "\<forall>c\<in>set (active \<lparr>active = ?g (active st), inactive = map ?g (inactive st)\<rparr>
        # inactive \<lparr>active = ?g (active st), inactive = map ?g (inactive st)\<rparr>). endpoint_id c = e \<and> client_ok c"
      using inv(2) f(2) ok own by auto
  qed
  then show ?thesis using Some by (simp add: update_own_def Let_def)
qed (use assms in \<open>simp add: update_own_def\<close>)

text \<open>What one iteration may change of the registry and of the counters that pair up.\<close>

definition registry_kept :: "'c relay_env \<Rightarrow> 'c relay \<Rightarrow> 'c relay \<Rightarrow> bool" where
  "registry_kept R rel rel' \<longleftrightarrow>
     conns (rel_clients rel') = conns (rel_clients rel) \<and>
     (clients_inv (rel_clients rel) \<longrightarrow> clients_inv (rel_clients rel')) \<and>
     inactive_count (rel_clients rel') = inactive_count (rel_clients rel) \<and>
     clients_inactive_added (rel_metrics rel') = clients_inactive_added (rel_metrics rel) \<and>
     clients_inactive_removed (rel_metrics rel') = clients_inactive_removed (rel_metrics rel) \<and>
     accepts (rel_metrics rel') = accepts (rel_metrics rel) \<and>
     disconnects (rel_metrics rel') = disconnects (rel_metrics rel) \<and>
     (cache_ready R (rel_cache rel) \<longrightarrow> cache_ready R (rel_cache rel'))"

lemma registry_kept_refl [simp]: "registry_kept R rel rel"
  by (simp add: registry_kept_def)

lemma registry_kept_trans:
  "registry_kept R rel rel' \<Longrightarrow> registry_kept R rel' rel'' \<Longrightarrow> registry_kept R rel rel''"
  by (simp add: registry_kept_def)

lemma actor_unwind_kept: "registry_kept R rel (fst (actor_unwind a rel))"
  by (auto simp: registry_kept_def actor_unwind_def client_ok_def chan_ok_def intro!: update_own_inv)

lemma own_client_ok:
  assumes "clients_inv cs" "own_client e cid cs = Some c"
  shows "client_ok c \<and> endpoint_id c = e \<and> connection_id c = cid"
proof -
  obtain st where st: "get_client cs e = Some st" "find (\<lambda>c. connection_id c = cid) (active st # inactive st) = Some c"
    using assms(2) by (auto simp: own_client_def split: option.splits)
  then have "c \<in> set (active st # inactive st)" "connection_id c = cid"
    using find_Some_iff_mem [OF clients_invD(1) [OF assms(1) st(1)]] by auto
  then show ?thesis using clients_invD(2) [OF assms(1) st(1)] by auto
qed

lemma send_packet_counters [simp]:
  "clients_inactive_added (snd (snd (send_packet dst d src (cs, ms)))) = clients_inactive_added ms"
  "clients_inactive_removed (snd (snd (send_packet dst d src (cs, ms)))) = clients_inactive_removed ms"
  "accepts (snd (snd (send_packet dst d src (cs, ms)))) = accepts ms"
  "disconnects (snd (snd (send_packet dst d src (cs, ms)))) = disconnects ms"
  by (simp_all add: send_packet_def Let_def split: option.split prod.split sum.split try_send_error.split)

lemma send_packet_count [simp]:
  "inactive_count (fst (snd (send_packet dst d src (cs, ms)))) = inactive_count cs"
proof (cases "get_client cs dst")
  case (Some st)
  have keep: "inactive_count (cs\<lparr>clients_map := al_update dst (st\<lparr>active := c\<rparr>) (clients_map cs)\<rparr>) = inactive_count cs"
    for c using Some inactive_count_update [of dst "st\<lparr>active := c\<rparr>" cs] by simp
  have sent: "inactive_count (cs'\<lparr>sent_to := ss\<rparr>) = inactive_count cs'" for cs' ss
    by (simp add: inactive_count_def)
  show ?thesis
    using Some
    by (simp add: send_packet_def Let_def keep sent split: prod.split sum.split try_send_error.split)
qed (simp add: send_packet_def)

lemma handle_frame_kept:
  assumes "handle_frame R now wait mf (a, rel_clients rel, rel_metrics rel) = (r, a', cs', ms')"
    and "cache_ready R (rel_cache rel) \<longrightarrow> cache_ready R cache'"
  shows "act_guard a' = act_guard a \<and>
    registry_kept R rel (rel\<lparr>rel_clients := cs', rel_metrics := ms', rel_cache := cache'\<rparr>)"
proof (cases "\<exists>dst d. mf = Some (Inr (C2R_Datagrams dst d))")
  case True
  then obtain dst d where mf: "mf = Some (Inr (C2R_Datagrams dst d))" by blast
  let ?ms = "(rel_metrics rel)\<lparr>send_packets_recv := send_packets_recv (rel_metrics rel) + 1\<rparr>"
  let ?sp = "send_packet dst d (guard_endpoint_id (act_guard a)) (rel_clients rel, ?ms)"
  have "a' = a" "cs' = fst (snd ?sp)"
    "ms' = (snd (snd ?sp))\<lparr>bytes_recv := bytes_recv (snd (snd ?sp)) + length (contents d)\<rparr>"
    using assms(1) mf by (auto simp: handle_frame_def handle_frame_send_packet_def split: prod.splits)
  then show ?thesis using assms(2) by (simp add: registry_kept_def send_packet_inv)
next
  case False
  then show ?thesis
    using assms
    by (auto simp: handle_frame_def registry_kept_def Let_def
        split: option.splits sum.splits client_to_relay_msg.splits prod.splits)
qed

lemma iterate_frame_kept:
  assumes "iterate_frame R now wait fo (a, rel) = (out, a', rel')"
  shows "act_guard a' = act_guard a \<and> registry_kept R rel rel'"
proof -
  obtain m cache' io' where p: "relayed_poll_next R (rel_cache rel) (act_io a) = (m, cache', io')" by (metis prod_cases3)
  have c: "cache_ready R (rel_cache rel) \<longrightarrow> cache_ready R cache'"
    using relayed_poll_next_cache [OF _ p] by blast
  show ?thesis
  proof (cases m)
    case None
    then show ?thesis using assms p c by (auto simp: iterate_frame_def registry_kept_def)
  next
    case (Some mf)
    obtain r a2 cs' ms' where h: "handle_frame R now wait mf (a\<lparr>act_io := io'\<rparr>, rel_clients rel, rel_metrics rel)
        = (r, a2, cs', ms')" by (metis prod_cases4)
    show ?thesis using handle_frame_kept [OF h c] assms p Some h by (auto simp: iterate_frame_def)
  qed
qed

lemma recv_ok: "recv q = (r, q') \<Longrightarrow> chan_ok q \<Longrightarrow> chan_ok q'"
  using chan_ok_recv [of q] by simp

lemma update_own_kept:
  assumes "own_client e cid (rel_clients rel) = Some c"
    and f: "\<And>c. connection_id (f c) = connection_id c" "\<And>c. endpoint_id (f c) = endpoint_id c"
    and "client_ok c \<Longrightarrow> client_ok (f c)"
    and "rel_clients rel' = update_own e cid f (rel_clients rel)"
    and "clients_inactive_added (rel_metrics rel') = clients_inactive_added (rel_metrics rel)"
    and "clients_inactive_removed (rel_metrics rel') = clients_inactive_removed (rel_metrics rel)"
    and "accepts (rel_metrics rel') = accepts (rel_metrics rel)"
    and "disconnects (rel_metrics rel') = disconnects (rel_metrics rel)"
    and "rel_cache rel' = rel_cache rel"
  shows "registry_kept R rel rel'"
  using assms by (auto simp: registry_kept_def intro!: update_own_inv)

lemma actor_send_packet_counters:
  assumes "actor_send_packet R wait p (io, ms) = (r, io', ms')"
  shows "clients_inactive_added ms' = clients_inactive_added ms"
    "clients_inactive_removed ms' = clients_inactive_removed ms"
    "accepts ms' = accepts ms" "disconnects ms' = disconnects ms"
  using assms
  by (auto simp: actor_send_packet_def send_raw_def Let_def split: prod.splits option.splits sum.splits)

lemma iterate_packet_kept:
  assumes "iterate_packet R wait fo (a, rel) = (out, a', rel')"
  shows "act_guard a' = act_guard a \<and> registry_kept R rel rel'"
proof (cases "own_client (guard_endpoint_id (act_guard a)) (guard_connection_id (act_guard a)) (rel_clients rel)")
  case (Some c)
  let ?e = "guard_endpoint_id (act_guard a)" and ?cid = "guard_connection_id (act_guard a)"
  obtain m q where q: "recv (packet_queue c) = (m, q)" by force
  show ?thesis
  proof (cases m)
    case (Some p)
    obtain r io' ms' where w: "actor_send_packet R wait p (act_io a, rel_metrics rel) = (r, io', ms')"
      by (metis prod_cases3)
    let ?rel = "rel\<lparr>rel_clients := update_own ?e ?cid (\<lambda>c. c\<lparr>packet_queue := q\<rparr>) (rel_clients rel), rel_metrics := ms'\<rparr>"
    have "registry_kept R rel ?rel"
      using \<open>own_client _ _ _ = Some c\<close> actor_send_packet_counters [OF w] recv_ok [OF q]
      by (intro update_own_kept) (auto simp: client_ok_def)
    then show ?thesis
      using assms \<open>own_client _ _ _ = Some c\<close> q Some w by (auto simp: iterate_packet_def Let_def)
  qed (use assms q \<open>own_client _ _ _ = Some c\<close> in \<open>auto simp: iterate_packet_def Let_def\<close>)
qed (use assms in \<open>auto simp: iterate_packet_def Let_def\<close>)

lemma iterate_message_kept:
  assumes "iterate_message R wait fo (a, rel) = (out, a', rel')"
  shows "act_guard a' = act_guard a \<and> registry_kept R rel rel'"
proof (cases "own_client (guard_endpoint_id (act_guard a)) (guard_connection_id (act_guard a)) (rel_clients rel)")
  case (Some c)
  let ?e = "guard_endpoint_id (act_guard a)" and ?cid = "guard_connection_id (act_guard a)"
  obtain m q where q: "recv (message_queue c) = (m, q)" by force
  show ?thesis
  proof (cases m)
    case (Some msg)
    let ?rel = "rel\<lparr>rel_clients := update_own ?e ?cid (\<lambda>c. c\<lparr>message_queue := q\<rparr>) (rel_clients rel)\<rparr>"
    have "registry_kept R rel ?rel"
      using \<open>own_client _ _ _ = Some c\<close> recv_ok [OF q]
      by (intro update_own_kept) (auto simp: client_ok_def)
    then show ?thesis
      using assms \<open>own_client _ _ _ = Some c\<close> q Some by (auto simp: iterate_message_def Let_def split: prod.splits)
  qed (use assms q \<open>own_client _ _ _ = Some c\<close> in \<open>auto simp: iterate_message_def Let_def\<close>)
qed (use assms in \<open>auto simp: iterate_message_def Let_def\<close>)

lemma run_iteration_kept:
  assumes "run_iteration R now wait fo ev (a, rel) = (out, a', rel')"
  shows "act_guard a' = act_guard a \<and> registry_kept R rel rel'"
proof (cases ev)
  case EvFrame then show ?thesis using assms iterate_frame_kept by simp
next
  case EvPacket then show ?thesis using assms iterate_packet_kept by simp
next
  case EvMessage then show ?thesis using assms iterate_message_kept by simp
next
  case (EvTick random)
  then show ?thesis using assms by (auto simp: iterate_tick_def split: option.splits prod.splits)
qed (use assms in auto)

section \<open>What the events do\<close>

lemma actor_write_frame_total [simp]: "actor_write_frame R wait m io \<noteq> (None, io')"
  by (auto simp: actor_write_frame_def relayed_start_send_result split: write_wait.splits)

lemma actor_write_frame_done:
  "actor_write_frame R WriteDone m io =
     (case relayed_start_send R m io of
        (r, io') \<Rightarrow> (map_option (map_err WriteStream) r, io'))"
  by (auto simp: actor_write_frame_def split: prod.splits option.splits sum.splits)

text \<open>The actor panics exactly when the decoder does: on a datagram frame shorter than a key.\<close>

lemma ping_tracker_steady: "max_timeout p = PING_TIMEOUT \<Longrightarrow> ping_timeout p \<noteq> None"
  by (simp add: ping_timeout_panics_iff PING_TIMEOUT_def MIN_HEALTH_CHECK_TIMEOUT_def from_secs_def from_millis_def)

lemma handle_frame_total:
  "handle_frame R now wait mf s = (r, s') \<Longrightarrow> r \<noteq> None"
  by (cases s) (auto simp: handle_frame_def Let_def
      split: option.splits sum.splits client_to_relay_msg.splits prod.splits)

lemma actor_send_packet_total:
  "actor_send_packet R wait p s = (r, s') \<Longrightarrow> r \<noteq> None"
  by (cases s) (auto simp: actor_send_packet_def send_raw_def Let_def
      split: option.splits sum.splits prod.splits)

lemma run_iteration_panics_iff:
  assumes "max_timeout (act_ping a) = PING_TIMEOUT"
  shows "fst (run_iteration R now wait fo ev (a, rel)) = Panicked \<longleftrightarrow>
    ev = EvFrame \<and> fst (relayed_poll_next R (rel_cache rel) (act_io a)) = None"
proof (cases ev)
  case EvFrame
  then show ?thesis
    by (auto simp: iterate_frame_def end_iteration_def split: prod.splits option.splits sum.splits
        dest: handle_frame_total)
next
  case EvPacket
  then show ?thesis
    by (auto simp: iterate_packet_def Let_def end_iteration_def split: prod.splits option.splits sum.splits
        dest: actor_send_packet_total)
next
  case EvMessage
  then show ?thesis
    by (auto simp: iterate_message_def Let_def end_iteration_def split: prod.splits option.splits sum.splits)
next
  case (EvTick random)
  then show ?thesis
    using ping_tracker_steady [OF assms]
    by (auto simp: iterate_tick_def new_ping_def end_iteration_def split: prod.splits option.splits sum.splits)
qed (auto simp: end_iteration_def)

end
