(* ===== verification/Relay_System.thy ===== *)
theory Relay_System
  imports Relay_Actor
begin

text \<open>
  The relay as a whole: the accept path (\<open>Inner::accept\<close> of
  \<open>iroh-relay/src/server/http_server.rs\<close>), the registry, and one actor per connection, composed as
  a step relation in which the runtime picks the next actor and event. A client whose actor
  panicked is remembered as leaked, because nothing unregisters it. Lemmas: the invariant of every
  reachable state, and the way of a datagram from one client to another.
\<close>

section \<open>States and steps\<close>

record 'c relay_sys =
  sys_relay :: "'c relay"
  sys_actors :: "(u64 \<times> actor) list"
  sys_counter :: u64
  sys_drops :: "(endpoint_id \<times> u64) list"
  sys_leaked :: "(endpoint_id \<times> u64) list"

definition metrics_default :: relay_metrics where
  "metrics_default =
     \<lparr>clients_inactive_added = 0, clients_inactive_removed = 0, send_packets_dropped = 0,
      send_packets_recv = 0, send_packets_sent = 0, bytes_sent = 0, bytes_recv = 0, got_ping = 0,
      sent_pong = 0, accepts = 0, disconnects = 0, unique_client_keys = 0\<rparr>"

definition sys_init :: "'c key_cache \<Rightarrow> 'c relay_sys" where
  "sys_init cache =
     \<lparr>sys_relay = \<lparr>rel_clients = clients_default, rel_metrics = metrics_default, rel_cache = cache\<rparr>,
      sys_actors = [], sys_counter = 0, sys_drops = [], sys_leaked = []\<rparr>"

text \<open>The end of \<open>accept\<close>: build the client configuration, start the actor, register the client.\<close>

definition accept_client ::
  "nat \<Rightarrow> on_disconnect_guard \<Rightarrow> protocol_version \<Rightarrow> ws_io \<Rightarrow> 'c relay \<Rightarrow> actor \<times> 'c relay" where
  "accept_client today g ver io rel =
     (let cfg = config_new g ver;
          a = actor_new cfg io;
          ms1 = actor_start today a (rel_metrics rel)
      in case register cfg (rel_clients rel, ms1) of
           (cs', ms') \<Rightarrow> (a, rel\<lparr>rel_clients := cs', rel_metrics := ms'\<rparr>))"

inductive relay_step ::
  "'c relay_env \<Rightarrow> handshake_env \<Rightarrow> (client_request \<Rightarrow> access) \<Rightarrow> 'c relay_sys \<Rightarrow> 'c relay_sys \<Rightarrow> bool"
  for R H on_connect where
  step_accept:
    "relay_accept H on_connect header ver auth query ch (sys_counter s) io = (Some (Inr g), counter', io', drops) \<Longrightarrow>
     sys_counter s < counter' \<Longrightarrow>
     accept_client today g ver io' (sys_relay s) = (a, rel') \<Longrightarrow>
     relay_step R H on_connect s
       (s\<lparr>sys_relay := rel', sys_actors := (guard_connection_id g, a) # sys_actors s, sys_counter := counter'\<rparr>)"
| step_reject:
    "relay_accept H on_connect header ver auth query ch (sys_counter s) io = (Some (Inl e), counter', io', drops) \<Longrightarrow>
     sys_counter s \<le> counter' \<Longrightarrow>
     relay_step R H on_connect s (s\<lparr>sys_counter := counter', sys_drops := drops @ sys_drops s\<rparr>)"
| step_deliver:
    "map_of (sys_actors s) cid = Some a \<Longrightarrow>
     relay_step R H on_connect s
       (s\<lparr>sys_actors := al_update cid (a\<lparr>act_io := (act_io a)\<lparr>ws_in := ws_in (act_io a) @ evs\<rparr>\<rparr>) (sys_actors s)\<rparr>)"
| step_iterate:
    "map_of (sys_actors s) cid = Some a \<Longrightarrow>
     run_iteration R now wait fo ev (a, sys_relay s) = (Running, a', rel') \<Longrightarrow>
     relay_step R H on_connect s (s\<lparr>sys_relay := rel', sys_actors := al_update cid a' (sys_actors s)\<rparr>)"
| step_finish:
    "map_of (sys_actors s) cid = Some a \<Longrightarrow>
     run_iteration R now wait fo ev (a, sys_relay s) = (Finished r, a', rel') \<Longrightarrow>
     actor_finish a' rel' = (rel'', drops) \<Longrightarrow>
     relay_step R H on_connect s
       (s\<lparr>sys_relay := rel'', sys_actors := al_remove cid (sys_actors s), sys_drops := drops @ sys_drops s\<rparr>)"
| step_panic:
    "map_of (sys_actors s) cid = Some a \<Longrightarrow>
     run_iteration R now wait fo ev (a, sys_relay s) = (Panicked, a', rel') \<Longrightarrow>
     actor_unwind a' rel' = (rel'', drops) \<Longrightarrow>
     relay_step R H on_connect s
       (s\<lparr>sys_relay := rel'', sys_actors := al_remove cid (sys_actors s), sys_drops := drops @ sys_drops s,
          sys_leaked := (guard_endpoint_id (act_guard a'), cid) # sys_leaked s\<rparr>)"

inductive relay_reachable ::
  "'c relay_env \<Rightarrow> handshake_env \<Rightarrow> (client_request \<Rightarrow> access) \<Rightarrow> 'c key_cache \<Rightarrow> 'c relay_sys \<Rightarrow> bool"
  for R H on_connect cache where
  reach_init: "relay_reachable R H on_connect cache (sys_init cache)"
| reach_step: "relay_reachable R H on_connect cache s \<Longrightarrow> relay_step R H on_connect s s' \<Longrightarrow>
     relay_reachable R H on_connect cache s'"

section \<open>The invariant\<close>

definition owns :: "'c relay_sys \<Rightarrow> endpoint_id \<Rightarrow> u64 \<Rightarrow> bool" where
  "owns s e cid \<longleftrightarrow>
     (\<exists>a. map_of (sys_actors s) cid = Some a \<and> guard_endpoint_id (act_guard a) = e) \<or> (e, cid) \<in> set (sys_leaked s)"

definition inv_registry :: "'c relay_env \<Rightarrow> 'c relay_sys \<Rightarrow> bool" where
  "inv_registry R s \<longleftrightarrow>
     clients_inv (rel_clients (sys_relay s)) \<and> cache_ready R (rel_cache (sys_relay s)) \<and>
     (\<forall>e cid. cid \<in> set (conns (rel_clients (sys_relay s)) e) \<longleftrightarrow> owns s e cid)"

definition inv_ids :: "'c relay_sys \<Rightarrow> bool" where
  "inv_ids s \<longleftrightarrow>
     distinct (al_keys (sys_actors s)) \<and>
     (\<forall>cid a. map_of (sys_actors s) cid = Some a \<longrightarrow>
        guard_connection_id (act_guard a) = cid \<and> guard_access (act_guard a) \<and> cid < sys_counter s) \<and>
     (\<forall>e cid. (e, cid) \<in> set (sys_drops s) \<union> set (sys_leaked s) \<longrightarrow>
        cid < sys_counter s \<and> map_of (sys_actors s) cid = None) \<and>
     distinct (map snd (sys_drops s))"

definition inv_counts :: "'c relay_sys \<Rightarrow> bool" where
  "inv_counts s \<longleftrightarrow>
     clients_inactive_added (rel_metrics (sys_relay s)) =
       clients_inactive_removed (rel_metrics (sys_relay s)) + inactive_count (rel_clients (sys_relay s)) \<and>
     accepts (rel_metrics (sys_relay s)) =
       disconnects (rel_metrics (sys_relay s)) + length (sys_actors s) + length (sys_leaked s)"

definition relay_sys_inv :: "'c relay_env \<Rightarrow> 'c relay_sys \<Rightarrow> bool" where
  "relay_sys_inv R s \<longleftrightarrow> inv_registry R s \<and> inv_ids s \<and> inv_counts s"

lemma inv_init: "cache_ready R cache \<Longrightarrow> relay_sys_inv R (sys_init cache)"
  by (simp add: relay_sys_inv_def inv_registry_def inv_ids_def inv_counts_def sys_init_def owns_def
      clients_default_def clients_inv_def get_client_def conns_def inactive_count_def metrics_default_def)

subsection \<open>Accepting a client\<close>

lemma actor_start_counters [simp]:
  "accepts (actor_start today a ms) = accepts ms + 1" "disconnects (actor_start today a ms) = disconnects ms"
  "clients_inactive_added (actor_start today a ms) = clients_inactive_added ms"
  "clients_inactive_removed (actor_start today a ms) = clients_inactive_removed ms"
  by (simp_all add: actor_start_def Let_def)

lemma register_client_counters [simp]:
  "accepts (snd (register_client c (cs, ms))) = accepts ms"
  "disconnects (snd (register_client c (cs, ms))) = disconnects ms"
  by (simp_all add: register_client_def Let_def split: option.splits)

lemma accept_client_effect:
  assumes acc: "accept_client today g ver io rel = (a, rel')"
    and inv: "clients_inv (rel_clients rel)"
    and fresh: "guard_connection_id g \<notin> set (conns (rel_clients rel) (guard_endpoint_id g))"
  shows "act_guard a = g" "clients_inv (rel_clients rel')" "rel_cache rel' = rel_cache rel"
    "conns (rel_clients rel') e = (if e = guard_endpoint_id g then guard_connection_id g # conns (rel_clients rel) e
       else conns (rel_clients rel) e)"
    "accepts (rel_metrics rel') = accepts (rel_metrics rel) + 1"
    "disconnects (rel_metrics rel') = disconnects (rel_metrics rel)"
    "clients_inactive_removed (rel_metrics rel') = clients_inactive_removed (rel_metrics rel)"
    "clients_inactive_added (rel_metrics rel') + inactive_count (rel_clients rel) =
       clients_inactive_added (rel_metrics rel) + inactive_count (rel_clients rel')"
proof -
  let ?c = "client_new (config_new g ver)"
  let ?ms = "actor_start today (actor_new (config_new g ver) io) (rel_metrics rel)"
  have c: "endpoint_id ?c = guard_endpoint_id g" "connection_id ?c = guard_connection_id g"
    by (simp_all add: client_new_def config_new_def)
  have eq: "a = actor_new (config_new g ver) io"
    "rel' = rel\<lparr>rel_clients := fst (register_client ?c (rel_clients rel, ?ms)),
                rel_metrics := snd (register_client ?c (rel_clients rel, ?ms))\<rparr>"
    using acc by (auto simp: accept_client_def register_def Let_def split: prod.splits)
  show "act_guard a = g" by (simp add: eq(1) actor_new_def config_new_def)
  show "clients_inv (rel_clients rel')"
    using register_client_inv [OF inv _ c(1)] fresh c(2) by (simp add: eq(2))
  show "rel_cache rel' = rel_cache rel" by (simp add: eq(2))
  show "conns (rel_clients rel') e = (if e = guard_endpoint_id g then guard_connection_id g # conns (rel_clients rel) e
       else conns (rel_clients rel) e)"
    using conns_register_client [of ?c "rel_clients rel" ?ms e] c by (simp add: eq(2))
  show "accepts (rel_metrics rel') = accepts (rel_metrics rel) + 1"
    "disconnects (rel_metrics rel') = disconnects (rel_metrics rel)"
    "clients_inactive_removed (rel_metrics rel') = clients_inactive_removed (rel_metrics rel)"
    by (simp_all add: eq(2))
  show "clients_inactive_added (rel_metrics rel') + inactive_count (rel_clients rel) =
       clients_inactive_added (rel_metrics rel) + inactive_count (rel_clients rel')"
    using register_client_count [of ?c "rel_clients rel" ?ms] by (simp add: eq(2))
qed

lemma inv_ids_live:
  assumes "inv_ids s" "map_of (sys_actors s) cid = Some a"
  shows "(e, cid) \<notin> set (sys_drops s)" "(e, cid) \<notin> set (sys_leaked s)"
    "guard_connection_id (act_guard a) = cid" "guard_access (act_guard a)" "cid < sys_counter s"
proof -
  show "(e, cid) \<notin> set (sys_drops s)" "(e, cid) \<notin> set (sys_leaked s)"
    using assms unfolding inv_ids_def by (metis UnI1 option.distinct(1), metis UnI2 option.distinct(1))
  show "guard_connection_id (act_guard a) = cid" "guard_access (act_guard a)" "cid < sys_counter s"
    using assms unfolding inv_ids_def by blast+
qed

lemma inv_ids_fresh:
  assumes "inv_ids s"
  shows "map_of (sys_actors s) (sys_counter s) = None" "(e, sys_counter s) \<notin> set (sys_leaked s)"
    "(e, sys_counter s) \<notin> set (sys_drops s)"
proof -
  show "map_of (sys_actors s) (sys_counter s) = None"
    using assms unfolding inv_ids_def by (metis less_irrefl not_Some_eq)
  show "(e, sys_counter s) \<notin> set (sys_leaked s)" "(e, sys_counter s) \<notin> set (sys_drops s)"
    using assms by (fastforce simp: inv_ids_def)+
qed

lemma inv_accept:
  assumes inv: "relay_sys_inv R s" and lt: "sys_counter s < sys_counter s + 1"
    and acc: "accept_client today g ver io (sys_relay s) = (a, rel')"
    and g: "guard_connection_id g = sys_counter s" "guard_access g"
  shows "relay_sys_inv R (s\<lparr>sys_relay := rel', sys_actors := (guard_connection_id g, a) # sys_actors s,
    sys_counter := sys_counter s + 1\<rparr>)" (is "relay_sys_inv R ?s")
proof -
  have ids: "inv_ids s" and reg: "inv_registry R s" and cnt: "inv_counts s"
    using inv by (simp_all add: relay_sys_inv_def)
  note new = inv_ids_fresh [OF ids]
  have fresh: "guard_connection_id g \<notin> set (conns (rel_clients (sys_relay s)) (guard_endpoint_id g))"
    using reg g(1) new by (simp add: inv_registry_def owns_def)
  note eff = accept_client_effect [OF acc _ fresh]
  have ci: "clients_inv (rel_clients (sys_relay s))" using reg by (simp add: inv_registry_def)
  have less: "c < sys_counter s \<Longrightarrow> c < sys_counter s + 1" for c
    using lt by order
  have "owns ?s e cid \<longleftrightarrow> owns s e cid \<or> e = guard_endpoint_id g \<and> cid = guard_connection_id g" for e cid
    using eff(1) [OF ci] new g(1) by (auto simp: owns_def)
  then have "inv_registry R ?s"
    using reg eff(2,3,4) [OF ci] by (auto simp: inv_registry_def)
  moreover have "inv_ids ?s"
    using ids new eff(1) [OF ci] g less lt by (auto simp: inv_ids_def map_of_eq_None_iff)
  moreover have "inv_counts ?s"
    using cnt eff(5-8) [OF ci] by (auto simp: inv_counts_def)
  ultimately show ?thesis by (simp add: relay_sys_inv_def)
qed

subsection \<open>Rejecting, delivering and iterating\<close>

lemma inv_reject:
  assumes inv: "relay_sys_inv R s"
    and c: "counter' = sys_counter s \<and> drops = [] \<or>
      counter' = sys_counter s + 1 \<and> (drops = [] \<or> (\<exists>k. drops = [(k, sys_counter s)]))"
    and le: "sys_counter s \<le> counter'"
  shows "relay_sys_inv R (s\<lparr>sys_counter := counter', sys_drops := drops @ sys_drops s\<rparr>)" (is "relay_sys_inv R ?s")
proof -
  have ids: "inv_ids s" using inv by (simp add: relay_sys_inv_def)
  have mono: "x < sys_counter s \<Longrightarrow> x < counter'" for x using le by order
  have top: "sys_counter s < counter'" if "drops \<noteq> []"
    using that c le by (auto simp: order_less_le)
  have d: "\<forall>(e, cid) \<in> set drops. cid = sys_counter s \<and> cid < counter'" "length drops \<le> 1"
    using c top by auto
  have "distinct (map snd (drops @ sys_drops s))"
    using ids c inv_ids_fresh(3) [OF ids] by (auto simp: inv_ids_def)
  then have "inv_ids ?s"
    using ids d(1) mono inv_ids_fresh(1) [OF ids] unfolding inv_ids_def by (simp add: Ball_def) blast
  then show ?thesis
    using inv by (simp add: relay_sys_inv_def inv_registry_def inv_counts_def owns_def)
qed

lemma inv_actor_update:
  assumes inv: "relay_sys_inv R s" and a: "map_of (sys_actors s) cid = Some a" "act_guard a' = act_guard a"
    and kept: "registry_kept R (sys_relay s) rel'"
  shows "relay_sys_inv R (s\<lparr>sys_relay := rel', sys_actors := al_update cid a' (sys_actors s)\<rparr>)"
    (is "relay_sys_inv R ?s")
proof -
  have ids: "inv_ids s" and reg: "inv_registry R s" and cnt: "inv_counts s"
    using inv by (simp_all add: relay_sys_inv_def)
  have "owns ?s = owns s"
    using a by (auto simp: owns_def fun_eq_iff)
  then have "inv_registry R ?s"
    using reg kept by (simp add: inv_registry_def registry_kept_def)
  moreover have "inv_ids ?s"
    using ids a(2) inv_ids_live [OF ids a(1)] unfolding inv_ids_def by (auto simp: map_of_al_update)
  moreover have "inv_counts ?s"
    using cnt kept a(1) map_of_SomeD [OF a(1)]
    by (auto simp: inv_counts_def registry_kept_def length_al_update rev_image_eqI)
  ultimately show ?thesis by (simp add: relay_sys_inv_def)
qed

subsection \<open>The end of an actor\<close>

lemma unregister_counters [simp]:
  "accepts (snd (unregister e cid (cs, ms))) = accepts ms"
  "disconnects (snd (unregister e cid (cs, ms))) = disconnects ms"
  by (simp_all add: unregister_def unregister_entry_def Let_def split: option.splits)

lemma actor_finish_effect:
  assumes fin: "actor_finish a rel = (rel', drops)" and inv: "clients_inv (rel_clients rel)"
  shows "clients_inv (rel_clients rel')" "rel_cache rel' = rel_cache rel" "drops = guard_drop (act_guard a)"
    "accepts (rel_metrics rel') = accepts (rel_metrics rel)"
    "disconnects (rel_metrics rel') = disconnects (rel_metrics rel) + 1"
    "conns (rel_clients rel') e = (if e = guard_endpoint_id (act_guard a)
       then filter (\<lambda>i. i \<noteq> guard_connection_id (act_guard a)) (conns (rel_clients rel) e)
       else conns (rel_clients rel) e)"
    "clients_inactive_added (rel_metrics rel') = clients_inactive_added (rel_metrics rel)"
    "guard_connection_id (act_guard a) \<in> set (conns (rel_clients rel) (guard_endpoint_id (act_guard a))) \<Longrightarrow>
     clients_inactive_removed (rel_metrics rel') + inactive_count (rel_clients rel') =
       clients_inactive_removed (rel_metrics rel) + inactive_count (rel_clients rel)"
proof -
  let ?u = "unregister (guard_endpoint_id (act_guard a)) (guard_connection_id (act_guard a))
    (rel_clients rel, rel_metrics rel)"
  have eq: "rel' = rel\<lparr>rel_clients := fst ?u, rel_metrics := (snd ?u)\<lparr>disconnects := disconnects (snd ?u) + 1\<rparr>\<rparr>"
    "drops = guard_drop (act_guard a)"
    using fin by (auto simp: actor_finish_def case_prod_beta)
  show "clients_inv (rel_clients rel')" "rel_cache rel' = rel_cache rel" "drops = guard_drop (act_guard a)"
    "accepts (rel_metrics rel') = accepts (rel_metrics rel)"
    "disconnects (rel_metrics rel') = disconnects (rel_metrics rel) + 1"
    "clients_inactive_added (rel_metrics rel') = clients_inactive_added (rel_metrics rel)"
    using unregister_inv [OF inv] by (simp_all add: eq)
  show "conns (rel_clients rel') e = (if e = guard_endpoint_id (act_guard a)
       then filter (\<lambda>i. i \<noteq> guard_connection_id (act_guard a)) (conns (rel_clients rel) e)
       else conns (rel_clients rel) e)"
    using conns_unregister [OF inv] by (simp add: eq)
  assume "guard_connection_id (act_guard a) \<in> set (conns (rel_clients rel) (guard_endpoint_id (act_guard a)))"
  then show "clients_inactive_removed (rel_metrics rel') + inactive_count (rel_clients rel') =
       clients_inactive_removed (rel_metrics rel) + inactive_count (rel_clients rel)"
    using unregister_count [OF inv] by (simp add: eq)
qed

text \<open>An actor that is gone: its guard reports the disconnect once, and its identifier is free of any actor.\<close>

lemma inv_ids_end:
  assumes ids: "inv_ids s" and a: "map_of (sys_actors s) cid = Some a"
    and leak: "leak = [] \<or> leak = [(e, cid)]"
  shows "inv_ids (s\<lparr>sys_relay := rel, sys_actors := al_remove cid (sys_actors s),
    sys_drops := guard_drop (act_guard a) @ sys_drops s, sys_leaked := leak @ sys_leaked s\<rparr>)"
proof -
  have g: "guard_connection_id (act_guard a) = cid" "guard_access (act_guard a)" "cid < sys_counter s"
    using inv_ids_live [OF ids a] by simp_all
  have drop: "guard_drop (act_guard a) = [(guard_endpoint_id (act_guard a), cid)]"
    using g by (simp add: guard_drop_def)
  have "distinct (map snd ((guard_endpoint_id (act_guard a), cid) # sys_drops s))"
    using ids inv_ids_live(1) [OF ids a] by (auto simp: inv_ids_def)
  then show ?thesis
    using ids g(3) leak unfolding inv_ids_def drop by auto
qed

lemma length_removed_actor:
  assumes "inv_ids s" "map_of (sys_actors s) cid = Some a"
  shows "Suc (length (al_remove cid (sys_actors s))) = length (sys_actors s)"
  using length_al_remove [OF _ assms(2)] assms(1) by (simp add: inv_ids_def)

lemma inv_finish:
  assumes inv: "relay_sys_inv R s" and a: "map_of (sys_actors s) cid = Some a" "act_guard a' = act_guard a"
    and kept: "registry_kept R (sys_relay s) rel'" and fin: "actor_finish a' rel' = (rel'', drops)"
  shows "relay_sys_inv R (s\<lparr>sys_relay := rel'', sys_actors := al_remove cid (sys_actors s),
    sys_drops := drops @ sys_drops s\<rparr>)" (is "relay_sys_inv R ?s")
proof -
  have ids: "inv_ids s" and reg: "inv_registry R s" and cnt: "inv_counts s"
    using inv by (simp_all add: relay_sys_inv_def)
  note live = inv_ids_live [OF ids a(1)]
  have own: "owns s (guard_endpoint_id (act_guard a)) cid" using a(1) by (simp add: owns_def)
  have ci: "clients_inv (rel_clients rel')" using reg kept by (simp add: inv_registry_def registry_kept_def)
  note eff = actor_finish_effect [OF fin ci, unfolded a(2) live(3)]
  have "owns ?s e c \<longleftrightarrow> owns s e c \<and> c \<noteq> cid" for e c
    using a(1) live(2) by (auto simp: owns_def)
  moreover have "c \<noteq> cid" if "owns s e c" "e \<noteq> guard_endpoint_id (act_guard a)" for e c
    using that a(1) live(2) by (auto simp: owns_def)
  ultimately have "inv_registry R ?s"
    using reg kept eff(1,2,6) by (auto simp: inv_registry_def registry_kept_def)
  moreover have "inv_ids ?s"
    using inv_ids_end [OF ids a(1), of "[]" undefined rel''] eff(3) by simp
  moreover have "inv_counts ?s"
    using cnt kept eff(4,5,7) eff(8) own reg length_removed_actor [OF ids a(1)]
    by (auto simp: inv_counts_def registry_kept_def inv_registry_def)
  ultimately show ?thesis by (simp add: relay_sys_inv_def)
qed

lemma inv_panic:
  assumes inv: "relay_sys_inv R s" and a: "map_of (sys_actors s) cid = Some a" "act_guard a' = act_guard a"
    and kept: "registry_kept R (sys_relay s) rel'"
  shows "relay_sys_inv R (s\<lparr>sys_relay := rel', sys_actors := al_remove cid (sys_actors s),
    sys_drops := guard_drop (act_guard a') @ sys_drops s,
    sys_leaked := (guard_endpoint_id (act_guard a'), cid) # sys_leaked s\<rparr>)" (is "relay_sys_inv R ?s")
proof -
  have ids: "inv_ids s" and reg: "inv_registry R s" and cnt: "inv_counts s"
    using inv by (simp_all add: relay_sys_inv_def)
  have "owns ?s = owns s"
    using a by (auto simp: owns_def fun_eq_iff)
  then have "inv_registry R ?s"
    using reg kept by (simp add: inv_registry_def registry_kept_def)
  moreover have "inv_ids ?s"
    using inv_ids_end [OF ids a(1), of "[(guard_endpoint_id (act_guard a), cid)]"] a(2) by simp
  moreover have "inv_counts ?s"
    using cnt kept length_removed_actor [OF ids a(1)] by (auto simp: inv_counts_def registry_kept_def)
  ultimately show ?thesis by (simp add: relay_sys_inv_def)
qed

lemma inv_step:
  assumes step: "relay_step R H on_connect s s'" and inv: "relay_sys_inv R s"
  shows "relay_sys_inv R s'"
  using step
proof (cases rule: relay_step.cases)
  case (step_accept header ver auth query ch io g counter' io' drops today a rel')
  have g: "counter' = sys_counter s + 1" "guard_connection_id g = sys_counter s" "guard_access g"
    by (rule relay_accept_admits [OF step_accept(2)], simp add: guard_for_access_control_def)+
  show ?thesis
    using inv_accept [OF inv step_accept(3) [unfolded g(1)] step_accept(4) g(2,3)]
    by (simp only: step_accept(1) g(1))
next
  case (step_reject header ver auth query ch io e counter' io' drops)
  show ?thesis
    using inv_reject [OF inv relay_accept_rejects [OF step_reject(2)] step_reject(3)] by (simp only: step_reject(1))
next
  case (step_deliver cid a evs)
  have "relay_sys_inv R (s\<lparr>sys_relay := sys_relay s, sys_actors :=
      al_update cid (a\<lparr>act_io := (act_io a)\<lparr>ws_in := ws_in (act_io a) @ evs\<rparr>\<rparr>) (sys_actors s)\<rparr>)"
    by (rule inv_actor_update [OF inv step_deliver(2)]) simp_all
  then show ?thesis using step_deliver(1) by simp
next
  case (step_iterate cid a now wait fo ev a' rel')
  show ?thesis
    using inv_actor_update [OF inv step_iterate(2)] run_iteration_kept [OF step_iterate(3)]
    by (simp only: step_iterate(1))
next
  case (step_finish cid a now wait fo ev r a' rel' rel'' drops)
  show ?thesis
    using inv_finish [OF inv step_finish(2) _ _ step_finish(4)] run_iteration_kept [OF step_finish(3)]
    by (simp only: step_finish(1))
next
  case (step_panic cid a now wait fo ev a' rel' rel'' drops)
  have k: "act_guard a' = act_guard a" "registry_kept R (sys_relay s) rel'"
    using run_iteration_kept [OF step_panic(3)] by simp_all
  have d: "drops = guard_drop (act_guard a')" "rel'' = fst (actor_unwind a' rel')"
    using step_panic(4) by (auto simp: actor_unwind_def)
  show ?thesis
    using inv_panic [OF inv step_panic(2) k(1) registry_kept_trans [OF k(2) actor_unwind_kept]]
    by (simp only: step_panic(1) d)
qed

lemma reachable_inv:
  assumes "relay_reachable R H on_connect cache s" "cache_ready R cache"
  shows "relay_sys_inv R s"
  using assms by induction (blast intro: inv_init inv_step)+

subsection \<open>Consequences of reachability\<close>

lemma run_iteration_max_timeout:
  assumes "run_iteration R now wait fo ev (a, rel) = (out, a', rel')"
  shows "max_timeout (act_ping a') = max_timeout (act_ping a)"
proof (cases ev)
  case EvFrame
  then show ?thesis
    using assms
    by (auto simp: iterate_frame_def handle_frame_def handle_frame_send_packet_def Let_def
        split: prod.splits option.splits sum.splits client_to_relay_msg.splits)
next
  case EvPacket
  then show ?thesis using assms by (auto simp: iterate_packet_def Let_def split: prod.splits option.splits)
next
  case EvMessage
  then show ?thesis using assms by (auto simp: iterate_message_def Let_def split: prod.splits option.splits)
next
  case (EvTick random)
  then show ?thesis
    using assms by (auto simp: iterate_tick_def new_ping_def new_ping_with_timeout_def split: prod.splits option.splits)
qed (use assms in auto)

lemma reachable_ping:
  assumes "relay_reachable R H on_connect cache s"
  shows "map_of (sys_actors s) cid = Some a \<Longrightarrow> max_timeout (act_ping a) = PING_TIMEOUT"
  using assms
proof (induction arbitrary: cid a)
  case reach_init
  then show ?case by (simp add: sys_init_def)
next
  case (reach_step s s')
  from reach_step(2) show ?case
  proof (cases rule: relay_step.cases)
    case (step_accept header ver auth query ch io g counter' io' drops today b rel')
    have "max_timeout (act_ping b) = PING_TIMEOUT"
      using step_accept(4)
      by (auto simp: accept_client_def Let_def actor_new_def ping_tracker_default_def ping_tracker_new_def
          split: prod.splits)
    then show ?thesis using step_accept(1) reach_step(3,4) by (auto split: if_splits)
  next
    case (step_iterate c b now wait fo ev b' rel')
    then show ?thesis
      using run_iteration_max_timeout [OF step_iterate(3)] reach_step(3,4) by (auto split: if_splits)
  qed (use reach_step(3,4) in \<open>auto split: if_splits\<close>)
qed

lemma leaked_stays:
  assumes "relay_step R H on_connect s s'"
  shows "set (sys_leaked s) \<subseteq> set (sys_leaked s')"
  using assms by (cases rule: relay_step.cases) auto

lemma leaked_registered:
  assumes "(relay_step R H on_connect)\<^sup>*\<^sup>* s s'" "relay_sys_inv R s" "(e, cid) \<in> set (sys_leaked s)"
  shows "cid \<in> set (conns (rel_clients (sys_relay s')) e)"
proof -
  have "relay_sys_inv R s' \<and> (e, cid) \<in> set (sys_leaked s')"
    using assms by induction (auto dest: inv_step leaked_stays)
  then show ?thesis by (simp add: relay_sys_inv_def inv_registry_def owns_def)
qed

section \<open>The way of a datagram\<close>

lemma forward_frame:
  assumes "cache_ready R (rel_cache rel)" "c2r_wf (env_ed R) (C2R_Datagrams dst d)"
    and "ws_in (act_io a) = WsMsg (WsBinary (c2r_to_bytes R (C2R_Datagrams dst d))) # es"
    and st: "get_client (rel_clients rel) dst = Some st" "chan_open (packet_queue (active st))"
      "length (chan_items (packet_queue (active st))) < chan_cap (packet_queue (active st))"
  shows "\<exists>a' rel'. run_iteration R now wait True EvFrame (a, rel) = (Running, a', rel') \<and>
    get_client (rel_clients rel') dst = Some (st\<lparr>active := (active st)\<lparr>packet_queue := (packet_queue (active st))
      \<lparr>chan_items := chan_items (packet_queue (active st)) @
         [\<lparr>packet_src = guard_endpoint_id (act_guard a), packet_data = d\<rparr>]\<rparr>\<rparr>\<rparr>)"
proof -
  obtain cache' where p: "relayed_poll_next R (rel_cache rel) (act_io a) =
      (Some (Some (Inr (C2R_Datagrams dst d))), cache', (act_io a)\<lparr>ws_in := es\<rparr>)"
    using relayed_poll_next_client_frame [OF assms(1-3)] by blast
  let ?ms = "(rel_metrics rel)\<lparr>send_packets_recv := send_packets_recv (rel_metrics rel) + 1\<rparr>"
  obtain cs' where "send_packet dst d (guard_endpoint_id (act_guard a)) (rel_clients rel, ?ms) = (Inr (), cs', ?ms)"
    "get_client cs' dst = Some (st\<lparr>active := (active st)\<lparr>packet_queue := (packet_queue (active st))
      \<lparr>chan_items := chan_items (packet_queue (active st)) @
         [\<lparr>packet_src = guard_endpoint_id (act_guard a), packet_data = d\<rparr>]\<rparr>\<rparr>\<rparr>)"
    using send_packet_queued [OF st, of d "guard_endpoint_id (act_guard a)" ?ms] by blast
  then show ?thesis
    by (simp add: iterate_frame_def p handle_frame_def handle_frame_send_packet_def end_iteration_def)
qed

lemma own_client_active:
  "get_client cs e = Some st \<Longrightarrow> own_client e (connection_id (active st)) cs = Some (active st)"
  by (simp add: own_client_def)

lemma deliver_packet:
  assumes own: "own_client (guard_endpoint_id (act_guard b)) (guard_connection_id (act_guard b)) (rel_clients rel) = Some c"
    and q: "chan_items (packet_queue c) = p # ps"
    and sent: "relayed_start_send R (R2C_Datagrams (packet_src p) (packet_data p)) (act_io b) = (Some r, io')"
  shows "\<exists>rel'. run_iteration R now WriteDone True EvPacket (b, rel) =
    ((case r of Inl e \<Rightarrow> Finished (Inl (RunPacketSend (WriteStream e))) | Inr _ \<Rightarrow> Running), b\<lparr>act_io := io'\<rparr>, rel')"
  using assms
  by (auto simp: iterate_packet_def recv_def actor_send_packet_def send_raw_def actor_write_frame_done
      end_iteration_def Let_def split: sum.splits)

end
