(* ===== verification/Server_Properties.thy ===== *)
theory Server_Properties
  imports Rate_Limit Relay_System Handshake_Instance
begin

text \<open>
  The properties of the relay server: the rate limiter, the registry, the actors and the system
  they form, with their witnesses.
\<close>

section \<open>Rate limiting\<close>

lemma rate_limited_new_bucket:
  assumes "rate_limited_new t0 burst bps = Inr rl"
  obtains b where "rl = rate_limited_unlimited\<lparr>rl_bucket := Some b\<rparr>" "bucket_inv b" "bucket_small b"
    "fill b = int (unat burst)" "bucket_max b = int (unat burst)" "refill b = int (unat bps) div 10"
    "refill_period b = from_millis 100" "last_fill b = t0"
proof -
  let ?b = "\<lparr>fill = int (unat burst), bucket_max = int (unat burst), last_fill = t0,
    refill_period = from_millis 100, refill = int (unat bps) div 10\<rparr>"
  have n: "unat bps < 2 ^ 32" and m: "unat burst < 2 ^ 32"
    using unsigned_less [of bps] unsigned_less [of burst] by simp_all
  have new: "bucket_new t0 (int (unat burst)) (int (unat bps)) (from_millis 100) = Inr ?b"
    and rl: "rl = rate_limited_unlimited\<lparr>rl_bucket := Some ?b\<rparr>"
    using assms unfolding rate_limited_new_def bucket_new_100ms [OF n] by (auto split: if_splits)
  have "int (unat burst) < int (2 ^ 32)" "int (unat bps) < int (2 ^ 32)"
    using m n by (simp_all only: of_nat_less_iff)
  then have mi: "int (unat burst) < 2 ^ 32" and ni: "int (unat bps) < 2 ^ 32" by simp_all
  have "bucket_inv ?b"
    by (rule bucket_new_inv [OF new]) (use mi in \<open>simp add: I64_MAX_def\<close>)
  moreover have "bucket_small ?b"
    using mi ni by (simp add: bucket_small_def as_millis_def from_millis_def)
  ultimately show ?thesis using that [OF rl] by simp
qed

text \<open>C10: A rate-limited connection whose configuration is accepted stays within it: whatever the
  inner stream offers and whenever it is polled, in non-decreasing times up to 49 days after the
  start, the octets read are less than the burst, plus a tenth of the rate for every 100 ms that
  have passed, plus one read.\<close>

theorem rate_limit_bound:
  assumes "rate_limited_new t0 burst bps = Inr rl" "sorted (t0 # map fst polls)"
    and "\<forall>(now, inner) \<in> set polls. as_millis (now - t0) < 2 ^ 32 \<and> (\<forall>n. inner = ReadOk n \<longrightarrow> n \<le> N)"
    and "N \<le> 2 ^ 31" "1 \<le> N"
  shows "int (fst (rl_run polls (0, rl))) <
    int (unat burst) + int (unat bps) div 10 * int ((last (t0 # map fst polls) - t0) div from_millis 100) + int N"
proof -
  obtain b where b: "rl = rate_limited_unlimited\<lparr>rl_bucket := Some b\<rparr>" "bucket_inv b" "bucket_small b"
    "fill b = int (unat burst)" "bucket_max b = int (unat burst)" "refill b = int (unat bps) div 10"
    "refill_period b = from_millis 100" "last_fill b = t0"
    using rate_limited_new_bucket [OF assms(1)] .
  have "0 < bucket_max b" using b(2) by (simp add: bucket_inv_def)
  then have "rl_inv b N t0 0 rl"
    unfolding rl_inv_def rl_waits_def
    using b assms(5) by (intro exI [of _ b] exI [of _ 0]) (simp add: rate_limited_unlimited_def)
  then have "rl_inv b N (last (t0 # map fst polls)) (fst (rl_run polls (0, rl))) (snd (rl_run polls (0, rl)))"
    using assms b(8) by (intro rl_run_inv) simp_all
  from rl_inv_bound [OF this b(2)] show ?thesis by (simp add: b)
qed

theorem rate_limit_bound_witness:
  "\<exists>rl. rate_limited_new 0 50 100 = Inr rl \<and>
     int (fst (rl_run [(0, ReadOk 60), (1, ReadOk 60)] (0, rl))) < 110"
proof -
  obtain rl where rl: "rate_limited_new 0 50 100 = Inr rl"
    using rate_limited_new_ok_iff [of 0 50 100] by (cases "rate_limited_new 0 50 100") auto
  then show ?thesis
    using rate_limit_bound [OF rl, of "[(0, ReadOk 60), (1, ReadOk 60)]" 60]
    by (simp add: as_millis_def from_millis_def)
qed

text \<open>C13: When a bucket refuses, the time it names is exact: at any later time within 49 days, and
  with an overdraft below what it can pay back in \<open>2 ^ 32\<close> periods, the refilled bucket is positive
  exactly from that time on.\<close>

theorem refused_until_deadline:
  assumes "bucket_inv b" "bucket_small b" "consume now n b = (Inl t, b')"
    and "as_millis (later - last_fill b') < 2 ^ 32" "- fill b' < 2 ^ 32 * refill b - refill b"
  shows "fill b' \<le> 0 \<and> (0 < fill (update_state later b') \<longleftrightarrow> t \<le> later)"
proof -
  have b': "b' = snd (consume now n b)" "fill b' \<le> 0" "t = consume_deadline b'"
    using assms(3) by (auto simp: consume_def Let_def split: if_splits)
  have "bucket_inv b'" "refill b' = refill b"
    unfolding b'(1) using consume_inv [OF assms(1)] by simp_all
  moreover have "bucket_small b'"
    unfolding b'(1) using assms(2) by (simp add: bucket_small_def)
  ultimately show ?thesis
    using consume_deadline_exact [of b' later] assms(4,5) b' by (simp add: bucket_recent_def)
qed

theorem refused_until_deadline_witness:
  "let b = \<lparr>fill = 50, bucket_max = 50, last_fill = 0, refill_period = from_millis 100, refill = 10\<rparr> in
   case consume 0 60 b of
     (Inl t, b') \<Rightarrow> (0 < fill (update_state (from_millis 300) b') \<longleftrightarrow> t \<le> from_millis 300)
   | _ \<Rightarrow> False"
proof -
  let ?b = "\<lparr>fill = 50, bucket_max = 50, last_fill = 0, refill_period = from_millis 100, refill = 10\<rparr>"
  have ok: "bucket_inv ?b" "bucket_small ?b"
    by (simp_all add: bucket_inv_def bucket_small_def I64_MAX_def I64_MIN_def millis_as_u32_def
        as_millis_def from_millis_def)
  have u: "update_state 0 ?b = ?b"
    by (simp add: update_state_def Let_def millis_as_u32_def as_millis_def)
  have c: "consume 0 60 ?b = (Inl (consume_deadline (?b\<lparr>fill := -10\<rparr>)), ?b\<lparr>fill := -10\<rparr>)"
    unfolding consume_def u by (simp add: Let_def I64_MAX_def I64_MIN_def sat_i64_def)
  show ?thesis
    using refused_until_deadline [OF ok c, of "from_millis 300"] c by (simp add: as_millis_def from_millis_def)
qed

text \<open>A configured client rate limit is usable exactly from ten octets per second on, whatever
  the burst; without a limit the reader is unlimited and passes every poll through.\<close>

theorem rate_limit_config:
  assumes "max_burst_bytes c \<noteq> Some 0"
  shows "(is_ok (rate_limited_from_cfg now (Some c)) \<longleftrightarrow> 10 \<le> unat (bytes_per_second c)) \<and>
    rate_limited_from_cfg now None = Inr rate_limited_unlimited \<and>
    rl_poll_read now inner rate_limited_unlimited = (inner, rate_limited_unlimited)"
  using rate_limited_from_cfg_ok_iff [OF assms, of now]
  by (simp add: rate_limited_from_cfg_def rl_poll_read_def rate_limited_unlimited_def)

theorem rate_limit_config_witness:
  "\<not> is_ok (rate_limited_from_cfg 0 (Some \<lparr>bytes_per_second = 9, max_burst_bytes = Some 100\<rparr>))"
  using rate_limit_config [of "\<lparr>bytes_per_second = 9, max_burst_bytes = Some 100\<rparr>" 0] by simp

section \<open>Keep-alive\<close>



section \<open>The registry\<close>

text \<open>C9: Over any sequence of registrations with distinct connection ids and of unregistrations, the
  connections of an endpoint are a stack: a registration pushes, an unregistration takes the
  connection out wherever it is; packets go to the top.\<close>

theorem registry_refines_stacks:
  assumes "distinct (map (\<lambda>cfg. guard_connection_id (cfg_guard cfg)) [cfg. Inl cfg \<leftarrow> evs])"
    and "s = fold (\<lambda>ev. case ev of Inl cfg \<Rightarrow> register cfg | Inr (e, c) \<Rightarrow> unregister e c) evs (clients_default, ms)"
  shows "clients_inv (fst s) \<and>
    conns_of s e = fold (\<lambda>ev st. case ev of
        Inl cfg \<Rightarrow> (if guard_endpoint_id (cfg_guard cfg) = e then guard_connection_id (cfg_guard cfg) # st else st)
      | Inr (e', c) \<Rightarrow> (if e' = e then filter (\<lambda>i. i \<noteq> c) st else st)) evs [] \<and>
    (conns_of s e \<noteq> [] \<longrightarrow> (\<exists>st. get_client (fst s) e = Some st \<and> connection_id (active st) = hd (conns_of s e)))"
proof -
  have empty: "clients_inv clients_default" "conns_of (clients_default, ms) = (\<lambda>_. [])"
    by (simp_all add: clients_default_def clients_inv_def get_client_def conns_of_def conns_def fun_eq_iff)
  have top: "conns_of s e \<noteq> [] \<longrightarrow> (\<exists>st. get_client (fst s) e = Some st \<and> connection_id (active st) = hd (conns_of s e))"
    by (auto simp: conns_of_def conns_def split: option.splits)
  show ?thesis
    using reg.run_stack [of "(clients_default, ms)" evs e] assms(1) empty top unfolding assms(2) by simp
qed

theorem registry_refines_stacks_witness:
  "let g = (\<lambda>e c. config_new \<lparr>guard_access = True, guard_endpoint_id = e, guard_connection_id = c\<rparr> V2) in
   conns_of (fold (\<lambda>ev. case ev of Inl cfg \<Rightarrow> register cfg | Inr (e, c) \<Rightarrow> unregister e c)
     [Inl (g [1] 10), Inl (g [1] 11), Inl (g [1] 12), Inr ([1], 11)] (clients_default, metrics_default)) [1] = [12, 10]"
  using registry_refines_stacks [of "let g = (\<lambda>e c. config_new \<lparr>guard_access = True, guard_endpoint_id = e, guard_connection_id = c\<rparr> V2) in [Inl (g [1] 10), Inl (g [1] 11), Inl (g [1] 12), Inr ([1], 11)]"
      _ metrics_default "[1]"]
  by (simp add: config_new_def Let_def)

lemma sent_to_notify [simp]: "sent_to (fold (notify_peer_gone g) ps cs) = sent_to cs"
  by (induction ps arbitrary: cs) (auto simp: notify_peer_gone_def split: option.splits)

text \<open>C14: When the last connection of an endpoint is unregistered, the endpoint disappears from the
  registry together with the record of whom it sent to, the connected endpoints it had sent to are
  offered a peer-gone notification on their active connection, and nobody else is touched.\<close>

theorem peer_gone_notification:
  assumes "clients_inv cs" "get_client cs e = Some st" "inactive st = []" "map_of (sent_to cs) e = Some ps"
    and "unregister e (connection_id (active st)) (cs, ms) = (cs', ms')"
  shows "get_client cs' e = None \<and> map_of (sent_to cs') e = None \<and> ms' = ms \<and>
    (\<forall>p. p \<noteq> e \<longrightarrow> get_client cs' p =
       (if p \<in> set ps then map_option (\<lambda>st. st\<lparr>active := snd (try_send_peer_gone e (active st))\<rparr>) (get_client cs p)
        else get_client cs p))"
proof -
  have d: "distinct ps" using assms(1,4) by (auto simp: clients_inv_def)
  have "cs' = fold (notify_peer_gone e) ps
      (cs\<lparr>clients_map := al_remove e (clients_map cs), sent_to := al_remove e (sent_to cs)\<rparr>)" "ms' = ms"
    using assms(2-5) by (auto simp: unregister_def unregister_entry_def)
  then show ?thesis by (simp add: notify_fold_get [OF d])
qed

theorem peer_gone_notification_witness:
  "let c = (\<lambda>e i. client_new (config_new \<lparr>guard_access = True, guard_endpoint_id = e, guard_connection_id = i\<rparr> V2));
       cs = \<lparr>clients_map = [([1], \<lparr>active = c [1] 10, inactive = []\<rparr>), ([2], \<lparr>active = c [2] 11, inactive = []\<rparr>)],
             sent_to = [([1], [[2]])]\<rparr>;
       cs' = fst (unregister [1] 10 (cs, metrics_default)) in
   map_option (\<lambda>st. chan_items (message_queue (active st))) (get_client cs' [2]) = Some [R2C_EndpointGone [1]]"
proof -
  let ?c = "\<lambda>e i. client_new (config_new \<lparr>guard_access = True, guard_endpoint_id = e, guard_connection_id = i\<rparr> V2)"
  let ?cs = "\<lparr>clients_map = [([1], \<lparr>active = ?c [1] 10, inactive = []\<rparr>), ([2], \<lparr>active = ?c [2] 11, inactive = []\<rparr>)],
             sent_to = [([1], [[2]])]\<rparr>"
  have sel: "connection_id (?c e i) = i" "endpoint_id (?c e i) = e" "client_ok (?c e i)" for e i
    by (simp_all add: client_new_def config_new_def client_ok_def)
  have inv: "clients_inv ?cs"
    by (auto simp: clients_inv_def get_client_def sel)
  have "get_client ?cs [1] = Some \<lparr>active = ?c [1] 10, inactive = []\<rparr>" by (simp add: get_client_def)
  from peer_gone_notification [OF inv this, of "[[2]]" metrics_default] show ?thesis
    by (cases "unregister [1] 10 (?cs, metrics_default)")
      (simp add: sel, simp add: get_client_def try_send_peer_gone_def try_send_def client_new_def config_new_def
        chan_new_def PER_CLIENT_SEND_QUEUE_DEPTH_def)
qed

section \<open>The relay as a whole\<close>

lemma one_client:
  obtains s a where "relay_reachable list_env plain_env (\<lambda>_. Allow) (key_cache_new list_lru_lib 4) s"
    "sys_actors s = [(0, a)]" "ws_in (act_io a) = []" "sys_leaked s = []"
    "guard_endpoint_id (act_guard a) = replicate 32 1"
proof -
  let ?sk = "replicate 32 1 :: bytes" and ?ch = "replicate 16 5 :: bytes" and ?none = "\<lambda>_ _. None"
  let ?c2s = "[frame_bytes plain_env (ClientAuth (client_auth_new plain_env ?sk ?ch))]"
  let ?io = "(conn ?none [])\<lparr>ws_out := [frame_bytes plain_env (ServerChallenge ?ch), frame_bytes plain_env ServerConfirmsAuth]\<rparr>"
  let ?g = "\<lparr>guard_access = True, guard_endpoint_id = secret_key_public (hs_ed plain_env) ?sk, guard_connection_id = 0\<rparr>"
  let ?s = "sys_init (key_cache_new list_lru_lib 4)"
  have acc: "relay_accept plain_env (\<lambda>_. Allow) None V2 [] [] ?ch (sys_counter ?s) (conn ?none ?c2s) =
      (Some (Inr ?g), 1, ?io, [])"
    using serverside_challenge_honest [OF plain_env_ok, of ?sk ?ch ?none "[]"]
    by (simp add: relay_accept_def serverside_def client_request_new_def connection_id_next_def
        authorize_with_def auth_accept_def write_frame_ok sys_init_def guard_for_access_control_def)
  obtain a rel' where c: "accept_client 0 ?g V2 ?io (sys_relay ?s) = (a, rel')" by force
  have "relay_step list_env plain_env (\<lambda>_. Allow) ?s
      (?s\<lparr>sys_relay := rel', sys_actors := (guard_connection_id ?g, a) # sys_actors ?s, sys_counter := 1\<rparr>)"
    by (rule relay_step.step_accept [OF acc _ c]) (simp add: sys_init_def)
  from reach_step [OF reach_init this] show ?thesis
  proof (rule that)
    show "ws_in (act_io a) = []" "guard_endpoint_id (act_guard a) = replicate 32 1"
      using c by (auto simp: accept_client_def Let_def actor_new_def config_new_def
          secret_key_public_def checksum_ed25519_def split: prod.splits)
  qed (simp_all add: sys_init_def)
qed



text \<open>C11: A running actor of a reachable state panics in exactly one situation: the frame it receives
  is a datagram frame whose content is shorter than an endpoint id.\<close>

theorem relay_actor_panics_iff:
  assumes "relay_reachable R H on_connect cache s" "map_of (sys_actors s) cid = Some a"
  shows "fst (run_iteration R now wait fo ev (a, sys_relay s)) = Panicked \<longleftrightarrow>
    ev = EvFrame \<and>
    (\<exists>msg t content. fst (ws_next (act_io a)) = Some (Inr msg) \<and>
       frame_type_from_bytes (env_varint R) msg = Inr (t, content) \<and>
       t \<in> {FT_ClientToRelayDatagram, FT_ClientToRelayDatagramBatch} \<and> length content < 32)"
proof -
  have "fst (relayed_poll_next R (rel_cache (sys_relay s)) (act_io a)) = None \<longleftrightarrow>
    (\<exists>msg. fst (ws_next (act_io a)) = Some (Inr msg) \<and> fst (c2r_from_bytes R (rel_cache (sys_relay s)) msg) = None)"
    by (auto simp: relayed_poll_next_def split: prod.splits option.splits sum.splits)
  then show ?thesis
    using run_iteration_panics_iff [OF reachable_ping [OF assms(1,2)], of R now wait fo ev "sys_relay s"]
    by (simp add: c2r_from_bytes_panics_iff)
qed

lemma short_frame_client:
  obtains s a where "relay_reachable list_env plain_env (\<lambda>_. Allow) (key_cache_new list_lru_lib 4) s"
    "map_of (sys_actors s) 0 = Some a" "guard_endpoint_id (act_guard a) = replicate 32 1"
    "fst (ws_next (act_io a)) = Some (Inr (frame_type_write_to rfc9000_varint FT_ClientToRelayDatagram []))"
proof -
  let ?ev = "[WsMsg (WsBinary (frame_type_write_to rfc9000_varint FT_ClientToRelayDatagram []))]"
  obtain s a where s: "relay_reachable list_env plain_env (\<lambda>_. Allow) (key_cache_new list_lru_lib 4) s"
    "sys_actors s = [(0, a)]" "ws_in (act_io a) = []" "sys_leaked s = []"
    "guard_endpoint_id (act_guard a) = replicate 32 1" by (rule one_client)
  have "map_of (sys_actors s) 0 = Some a" using s(2) by simp
  from reach_step [OF s(1) relay_step.step_deliver [OF this, of _ _ _ ?ev]] show ?thesis
    by (rule that [of _ "a\<lparr>act_io := (act_io a)\<lparr>ws_in := ?ev\<rparr>\<rparr>"]) (use s in \<open>simp_all add: ws_next_def\<close>)
qed

theorem relay_actor_panics_iff_witness:
  "\<exists>s a. relay_reachable list_env plain_env (\<lambda>_. Allow) (key_cache_new list_lru_lib 4) s \<and>
     map_of (sys_actors s) 0 = Some a \<and>
     fst (run_iteration list_env 0 WriteDone True EvFrame (a, sys_relay s)) = Panicked"
proof -
  obtain s a where s: "relay_reachable list_env plain_env (\<lambda>_. Allow) (key_cache_new list_lru_lib 4) s"
    "map_of (sys_actors s) 0 = Some a" "guard_endpoint_id (act_guard a) = replicate 32 1"
    "fst (ws_next (act_io a)) = Some (Inr (frame_type_write_to rfc9000_varint FT_ClientToRelayDatagram []))"
    by (rule short_frame_client)
  have "frame_type_from_bytes rfc9000_varint (frame_type_write_to rfc9000_varint FT_ClientToRelayDatagram [])
      = Inr (FT_ClientToRelayDatagram, [])"
    using frame_type_roundtrip [OF rfc9000_varint_ok, of FT_ClientToRelayDatagram "[]"]
    by (simp add: frame_type_write_to_def)
  then show ?thesis
    using relay_actor_panics_iff [OF s(1,2), of 0 WriteDone True EvFrame] s by auto
qed



text \<open>C8: The way of a datagram through the relay. When a client's frame arrives for an endpoint whose
  active connection has an empty open queue, the sender's actor keeps running, and the recipient's
  actor then writes one frame that the recipient decodes to the same datagrams under the sender's
  authenticated key. If instead the datagrams are empty, or their frame is as long as the packet
  limit allows the sender, the recipient's actor ends with an error.\<close>

theorem datagram_forwarding:
  assumes ready: "cache_ready R (rel_cache rel)" "key_cache_inv (env_ed R) (env_lru R) cache"
    and frame: "c2r_wf (env_ed R) (C2R_Datagrams dst d)"
      "ws_in (act_io a) = WsMsg (WsBinary (c2r_to_bytes R (C2R_Datagrams dst d))) # es"
    and src: "src = guard_endpoint_id (act_guard a)" "key_valid (env_ed R) src"
    and st: "get_client (rel_clients rel) dst = Some st" "chan_open (packet_queue (active st))"
      "chan_items (packet_queue (active st)) = []" "0 < chan_cap (packet_queue (active st))"
    and b: "guard_endpoint_id (act_guard b) = dst" "guard_connection_id (act_guard b) = connection_id (active st)"
      "ws_send_ok (act_io b) (length (ws_out (act_io b)))"
  shows "\<exists>a' rel' b' rel''.
    run_iteration R now wait True EvFrame (a, rel) = (Running, a', rel') \<and>
    (if contents d \<noteq> [] \<and> 32 + datagrams_encoded_len d < MAX_PACKET_SIZE
     then run_iteration R now' WriteDone True EvPacket (b, rel') = (Running, b', rel'') \<and>
       (\<exists>out. ws_out (act_io b') = ws_out (act_io b) @ [out] \<and>
          fst (r2c_from_bytes R cache ver out) = Inr (R2C_Datagrams src d))
     else \<exists>e. run_iteration R now' WriteDone True EvPacket (b, rel') =
       (Finished (Inl (RunPacketSend (WriteStream e))), b', rel''))"
proof -
  let ?q = "(packet_queue (active st))\<lparr>chan_items := [\<lparr>packet_src = src, packet_data = d\<rparr>]\<rparr>"
  let ?st = "st\<lparr>active := (active st)\<lparr>packet_queue := ?q\<rparr>\<rparr>"
  obtain a' rel' where first: "run_iteration R now wait True EvFrame (a, rel) = (Running, a', rel')"
    "get_client (rel_clients rel') dst = Some ?st"
    using forward_frame [OF ready(1) frame st(1,2), of now wait] st(3,4) src(1) by auto
  have own: "own_client (guard_endpoint_id (act_guard b)) (guard_connection_id (act_guard b)) (rel_clients rel') =
      Some ((active st)\<lparr>packet_queue := ?q\<rparr>)"
    using own_client_active [OF first(2)] b(1,2) by simp
  obtain r io' where r: "relayed_start_send R (R2C_Datagrams src d) (act_io b) = (Some r, io')"
    using relayed_start_send_total [of R "R2C_Datagrams src d" "act_io b"] by (metis not_None_eq prod.collapse)
  obtain rel'' where second: "run_iteration R now' WriteDone True EvPacket (b, rel') =
    ((case r of Inl e \<Rightarrow> Finished (Inl (RunPacketSend (WriteStream e))) | Inr _ \<Rightarrow> Running), b\<lparr>act_io := io'\<rparr>, rel'')"
    using deliver_packet [OF own, of "\<lparr>packet_src = src, packet_data = d\<rparr>" "[]" R r io' now'] r by auto
  have ok: "r2c_ok (env_ed R) ver (R2C_Datagrams src d)"
    using frame(1) src(2) by (simp add: c2r_wf_def)
  have env: "relay_env_ok R" using ready(1) by (simp add: cache_ready_def)
  show ?thesis
  proof (cases "contents d \<noteq> [] \<and> 32 + datagrams_encoded_len d < MAX_PACKET_SIZE")
    case True
    then have "r = Inr ()" "io' = (act_io b)\<lparr>ws_out := ws_out (act_io b) @ [r2c_to_bytes R (R2C_Datagrams src d)]\<rparr>"
      using r b(3) by (auto simp: relayed_start_send_result)
    moreover have "fst (r2c_from_bytes R cache ver (r2c_to_bytes R (R2C_Datagrams src d))) = Inr (R2C_Datagrams src d)"
      using True ok by (intro r2c_roundtrip [OF env ready(2)]) (simp add: r2c_wf_def)
    ultimately show ?thesis using first(1) second True by auto
  next
    case False
    then obtain e where "r = Inl e"
      using r by (auto simp: relayed_start_send_result not_less split: if_splits)
    then show ?thesis using first(1) second False by auto
  qed
qed

theorem datagram_forwarding_witness:
  "\<exists>a b rel a' rel' b' rel'' out.
     run_iteration list_env 0 WriteDone True EvFrame (a, rel) = (Running, a', rel') \<and>
     run_iteration list_env 0 WriteDone True EvPacket (b, rel') = (Running, b', rel'') \<and>
     ws_out (act_io b') = [out] \<and>
     fst (r2c_from_bytes list_env (key_cache_new list_lru_lib 4) V2 out) =
       Inr (R2C_Datagrams (replicate 32 1) (datagrams_from [1, 2, 3]))"
proof -
  let ?cfg = "\<lambda>k i. config_new \<lparr>guard_access = True, guard_endpoint_id = replicate 32 k, guard_connection_id = i\<rparr> V2"
  let ?m = "C2R_Datagrams (replicate 32 2) (datagrams_from [1, 2, 3])" and ?none = "\<lambda>_ _. None"
  let ?a = "actor_new (?cfg 1 0) (conn ?none [c2r_to_bytes list_env ?m])"
  let ?b = "actor_new (?cfg 2 1) (conn ?none [])"
  let ?st = "\<lparr>active = client_new (?cfg 2 1), inactive = []\<rparr>"
  let ?rel = "\<lparr>rel_clients = \<lparr>clients_map = [(replicate 32 2, ?st)], sent_to = []\<rparr>,
    rel_metrics = metrics_default, rel_cache = key_cache_new list_lru_lib 4\<rparr>"
  have "cache_ready list_env (rel_cache ?rel)"
    "key_cache_inv (env_ed list_env) (env_lru list_env) (key_cache_new list_lru_lib 4)"
    using list_env_cache_ready by (simp_all add: cache_ready_def)
  moreover have "c2r_wf (env_ed list_env) ?m"
    by (simp add: c2r_wf_def datagrams_ok_def datagrams_from_def datagrams_encoded_len_def MAX_PACKET_SIZE_def)
  moreover have "ws_in (act_io ?a) = WsMsg (WsBinary (c2r_to_bytes list_env ?m)) # []"
    by (simp add: actor_new_def)
  moreover have "replicate 32 1 = guard_endpoint_id (act_guard ?a)" "key_valid (env_ed list_env) (replicate 32 1)"
    "get_client (rel_clients ?rel) (replicate 32 2) = Some ?st" "chan_open (packet_queue (active ?st))"
    "chan_items (packet_queue (active ?st)) = []" "0 < chan_cap (packet_queue (active ?st))"
    "guard_endpoint_id (act_guard ?b) = replicate 32 2"
    "guard_connection_id (act_guard ?b) = connection_id (active ?st)"
    "ws_send_ok (act_io ?b) (length (ws_out (act_io ?b)))"
    by (simp_all add: actor_new_def config_new_def client_new_def get_client_def chan_new_def PER_CLIENT_SEND_QUEUE_DEPTH_def)
  ultimately have "\<exists>a' rel' b' rel''.
    run_iteration list_env 0 WriteDone True EvFrame (?a, ?rel) = (Running, a', rel') \<and>
    (if contents (datagrams_from [1, 2, 3]) \<noteq> [] \<and> 32 + datagrams_encoded_len (datagrams_from [1, 2, 3]) < MAX_PACKET_SIZE
     then run_iteration list_env 0 WriteDone True EvPacket (?b, rel') = (Running, b', rel'') \<and>
       (\<exists>out. ws_out (act_io b') = ws_out (act_io ?b) @ [out] \<and>
          fst (r2c_from_bytes list_env (key_cache_new list_lru_lib 4) V2 out) =
            Inr (R2C_Datagrams (replicate 32 1) (datagrams_from [1, 2, 3])))
     else \<exists>e. run_iteration list_env 0 WriteDone True EvPacket (?b, rel') =
       (Finished (Inl (RunPacketSend (WriteStream e))), b', rel''))"
    by (rule datagram_forwarding)
  moreover have "contents (datagrams_from [1, 2, 3]) \<noteq> [] \<and>
      32 + datagrams_encoded_len (datagrams_from [1, 2, 3]) < MAX_PACKET_SIZE" "ws_out (act_io ?b) = []"
    by (simp_all add: datagrams_from_def datagrams_encoded_len_def MAX_PACKET_SIZE_def actor_new_def)
  ultimately show ?thesis by (simp only: if_True append_Nil simp_thms) blast
qed

end
