(* ===== verification/Text_Format.thy ===== *)
theory Text_Format
  imports Nexa_Prelude
begin

text \<open>
  The text formatting and parsing of the standard library that the components share: \<open>{:x}\<close> and
  \<open>{}\<close> for unsigned integers, \<open>from_str_radix\<close>, \<open>str::split_once\<close> and \<open>str::split\<close>, with their
  round trips.
\<close>

section \<open>Numbers\<close>

definition hex_digit_char :: "nat \<Rightarrow> char" where
  "hex_digit_char n = char_of (if n < 10 then 48 + n else 87 + n)"

definition digit16 :: "char \<Rightarrow> nat option" where
  "digit16 c = (let n = of_char c :: nat in
     if 48 \<le> n \<and> n \<le> 57 then Some (n - 48)
     else if 97 \<le> n \<and> n \<le> 102 then Some (n - 87)
     else if 65 \<le> n \<and> n \<le> 70 then Some (n - 55) else None)"

fun show_hex :: "nat \<Rightarrow> string" where
  "show_hex n = (if n < 16 then [hex_digit_char n] else show_hex (n div 16) @ [hex_digit_char (n mod 16)])"

declare show_hex.simps [simp del]

text \<open>The digits of \<open>u64::from_str_radix(_, 16)\<close>, with its overflow check at every digit.\<close>

fun parse16 :: "nat \<Rightarrow> string \<Rightarrow> nat option" where
  "parse16 acc [] = Some acc"
| "parse16 acc (c # cs) =
     (case digit16 c of
        None \<Rightarrow> None
      | Some d \<Rightarrow> (if acc * 16 + d < 2 ^ 64 then parse16 (acc * 16 + d) cs else None))"

text \<open>An empty string and a lone sign are errors; a leading plus sign is accepted.\<close>

definition u64_from_str_radix16 :: "string \<Rightarrow> u64 option" where
  "u64_from_str_radix16 s =
     (case s of
        [] \<Rightarrow> None
      | c # cs \<Rightarrow> map_option of_nat (if c = CHR ''+'' \<and> cs \<noteq> [] then parse16 0 cs else parse16 0 s))"

lemma digit16_hex_digit [simp]: "n < 16 \<Longrightarrow> digit16 (hex_digit_char n) = Some n"
  by (auto simp: digit16_def hex_digit_char_def Let_def of_char_of)

lemma parse16_append: "parse16 acc (s @ t) = Option.bind (parse16 acc s) (\<lambda>a. parse16 a t)"
  by (induction acc s rule: parse16.induct) (auto split: option.splits)

lemma parse16_show_hex: "n < 2 ^ 64 \<Longrightarrow> parse16 0 (show_hex n) = Some n"
proof (induction n rule: show_hex.induct)
  case (1 n)
  have "n div 16 * 16 + n mod 16 = n" by simp
  then show ?case
    using 1 by (subst show_hex.simps) (auto simp: parse16_append)
qed

lemma show_hex_chars: "c \<in> set (show_hex n) \<Longrightarrow> digit16 c \<noteq> None"
proof (induction n rule: show_hex.induct)
  case (1 n)
  then show ?case by (subst (asm) (2) show_hex.simps) (auto split: if_splits)
qed

lemma show_hex_nonempty [simp]: "show_hex n \<noteq> []"
  by (subst show_hex.simps) simp

lemma digit16_separators [simp]: "digit16 (CHR ''_'') = None" "digit16 (CHR ''+'') = None"
  by (simp_all add: digit16_def Let_def of_char_def)

lemma u64_from_show_hex [simp]: "u64_from_str_radix16 (show_hex (unat w)) = Some w"
proof -
  have "unat w < 2 ^ 64" using unsigned_less [of w] by simp
  moreover obtain c cs where s: "show_hex (unat w) = c # cs" by (cases "show_hex (unat w)") auto
  moreover have "c \<noteq> CHR ''+''" using show_hex_chars [of c "unat w"] s by auto
  ultimately show ?thesis using parse16_show_hex [of "unat w"] by (simp add: u64_from_str_radix16_def)
qed

section \<open>Splitting\<close>

definition split_once :: "char \<Rightarrow> string \<Rightarrow> (string \<times> string) option" where
  "split_once c s =
     (if c \<in> set s then Some (takeWhile (\<lambda>x. x \<noteq> c) s, tl (dropWhile (\<lambda>x. x \<noteq> c) s)) else None)"

lemma split_once_append:
  assumes "c \<notin> set a"
  shows "split_once c (a @ c # b) = Some (a, b)"
proof -
  have "takeWhile (\<lambda>x. x \<noteq> c) (a @ c # b) = a" using assms by (induction a) auto
  moreover have "dropWhile (\<lambda>x. x \<noteq> c) (a @ c # b) = c # b" using assms by (induction a) auto
  ultimately show ?thesis by (simp add: split_once_def)
qed

lemma split_once_SomeD:
  assumes "split_once c s = Some (a, b)"
  shows "s = a @ c # b" "c \<notin> set a"
proof -
  have "c \<in> set s" using assms by (simp add: split_once_def split: if_splits)
  then obtain ys zs where s: "s = ys @ c # zs" "c \<notin> set ys" using split_list_first by metis
  then show "s = a @ c # b" "c \<notin> set a" using assms split_once_append [OF s(2), of zs] by simp_all
qed

text \<open>\<open>str::split\<close> on a character: the pieces between its occurrences, at least one.\<close>

fun split_char :: "char \<Rightarrow> string \<Rightarrow> string list" where
  "split_char c [] = [[]]"
| "split_char c (x # xs) =
     (if x = c then [] # split_char c xs
      else case split_char c xs of [] \<Rightarrow> [[x]] | p # ps \<Rightarrow> (x # p) # ps)"

lemma split_char_nonempty [simp]: "split_char c s \<noteq> []"
  by (induction s) (auto split: list.splits)

lemma split_char_plain: "c \<notin> set s \<Longrightarrow> split_char c s = [s]"
  by (induction s) auto

lemma split_char_append: "c \<notin> set a \<Longrightarrow> split_char c (a @ c # b) = a # split_char c b"
  by (induction a) auto

lemma split_char_pieces: "p \<in> set (split_char c s) \<Longrightarrow> c \<notin> set p"
proof (induction s arbitrary: p)
  case (Cons x xs)
  then show ?case by (cases "split_char c xs") (auto split: if_splits)
qed simp

text \<open>Joining with a separator, and that splitting undoes it.\<close>

fun join :: "string \<Rightarrow> string list \<Rightarrow> string" where
  "join sep [] = []"
| "join sep [s] = s"
| "join sep (s # t # ss) = s @ sep @ join sep (t # ss)"

lemma split_char_join:
  "ss \<noteq> [] \<Longrightarrow> \<forall>s \<in> set ss. c \<notin> set s \<Longrightarrow> split_char c (join [c] ss) = ss"
  by (induction "[c]" ss rule: join.induct) (simp_all add: split_char_plain split_char_append)

end
