(* ===== verification/Endpoint_Addr.thy ===== *)
theory Endpoint_Addr
  imports Keys Text_Format "HOL-Library.List_Lexorder"
begin

text \<open>
  Addresses of endpoints (\<open>iroh-base/src/endpoint_addr.rs\<close>, \<open>iroh-base/src/relay_url.rs\<close>): custom
  transport addresses with their text and binary encodings, transport addresses and the ordered
  set of them an \<open>EndpointAddr\<close> holds. A relay URL is its serialisation; parsing URLs is a
  parameter. A \<open>BTreeSet\<close> is the sorted list of its elements. Lemmas: both encodings of a custom
  address round-trip, and an endpoint address depends only on the set of addresses put into it.
\<close>

section \<open>IP and socket addresses\<close>

text \<open>The octets of an IP address: four or sixteen.\<close>

datatype ip_addr = IpV4 bytes | IpV6 bytes

datatype socket_addr = SocketV4 bytes u16 | SocketV6 bytes u16 u32 u32

fun socket_ip :: "socket_addr \<Rightarrow> ip_addr" where
  "socket_ip (SocketV4 ip port) = IpV4 ip"
| "socket_ip (SocketV6 ip port flow scope) = IpV6 ip"

fun socket_port :: "socket_addr \<Rightarrow> u16" where
  "socket_port (SocketV4 ip port) = port"
| "socket_port (SocketV6 ip port flow scope) = port"

text \<open>\<open>SocketAddr::new\<close>\<close>

fun socket_addr_new :: "ip_addr \<Rightarrow> u16 \<Rightarrow> socket_addr" where
  "socket_addr_new (IpV4 ip) port = SocketV4 ip port"
| "socket_addr_new (IpV6 ip) port = SocketV6 ip port 0 0"

section \<open>Relay URLs\<close>

type_synonym relay_url = string

definition relay_url_from_str :: "(string \<Rightarrow> string option) \<Rightarrow> string \<Rightarrow> unit + relay_url" where
  "relay_url_from_str url_parse s = ok_or () (url_parse s)"

section \<open>Custom transport addresses\<close>

datatype custom_addr_bytes = Inline u8 bytes | Heap bytes

record custom_addr =
  custom_id :: u64
  custom_data :: custom_addr_bytes

definition custom_len :: "custom_addr_bytes \<Rightarrow> nat" where
  "custom_len b = (case b of Inline len d \<Rightarrow> unat len | Heap d \<Rightarrow> length d)"

text \<open>\<open>None\<close> is the panic of the slice \<open>data[..size]\<close> beyond the 30 octets of the inline buffer.\<close>

definition custom_as_bytes :: "custom_addr_bytes \<Rightarrow> bytes option" where
  "custom_as_bytes b =
     (case b of
        Inline len d \<Rightarrow> (if unat len \<le> length d then Some (take (unat len) d) else None)
      | Heap d \<Rightarrow> Some d)"

definition custom_copy_from_slice :: "bytes \<Rightarrow> custom_addr_bytes" where
  "custom_copy_from_slice d =
     (if length d \<le> 30 then Inline (of_nat (length d)) (d @ replicate (30 - length d) 0) else Heap d)"

definition custom_from_parts :: "u64 \<Rightarrow> bytes \<Rightarrow> custom_addr" where
  "custom_from_parts i d = \<lparr>custom_id = i, custom_data = custom_copy_from_slice d\<rparr>"

definition custom_to_vec :: "custom_addr \<Rightarrow> bytes option" where
  "custom_to_vec a = map_option (\<lambda>d. u64_to_le (custom_id a) @ d) (custom_as_bytes (custom_data a))"

definition custom_from_bytes :: "bytes \<Rightarrow> string + custom_addr" where
  "custom_from_bytes d =
     (if length d < 8 then Inl ''data too short''
      else Inr (custom_from_parts (u64_of_le (take 8 d)) (drop 8 d)))"

definition custom_display :: "text_encodings \<Rightarrow> custom_addr \<Rightarrow> string option" where
  "custom_display T a =
     map_option (\<lambda>d. show_hex (unat (custom_id a)) @ ''_'' @ hex_encode T d) (custom_as_bytes (custom_data a))"

datatype custom_addr_parse_error = MissingSeparator | InvalidId | InvalidData

definition custom_from_str :: "text_encodings \<Rightarrow> string \<Rightarrow> custom_addr_parse_error + custom_addr" where
  "custom_from_str T s =
     (case split_once (CHR ''_'') s of
        None \<Rightarrow> Inl MissingSeparator
      | Some (id_str, data_str) \<Rightarrow>
         (case u64_from_str_radix16 id_str of
            None \<Rightarrow> Inl InvalidId
          | Some i \<Rightarrow>
             (case hex_decode T data_str of
                None \<Rightarrow> Inl InvalidData
              | Some d \<Rightarrow> Inr (custom_from_parts i d))))"

text \<open>The addresses the constructors produce: inline exactly up to 30 octets, padded with zeros.\<close>

definition custom_ok :: "custom_addr \<Rightarrow> bool" where
  "custom_ok a \<longleftrightarrow> (\<exists>d. custom_data a = custom_copy_from_slice d)"

lemma custom_from_parts_ok [simp]: "custom_ok (custom_from_parts i d)"
  by (auto simp: custom_ok_def custom_from_parts_def)

lemma custom_as_copy [simp]: "custom_as_bytes (custom_copy_from_slice d) = Some d"
  by (auto simp: custom_as_bytes_def custom_copy_from_slice_def unat_of_nat)

lemma custom_len_copy [simp]: "custom_len (custom_copy_from_slice d) = length d"
  by (auto simp: custom_len_def custom_copy_from_slice_def unat_of_nat)

lemma custom_copy_inj [simp]: "custom_copy_from_slice d = custom_copy_from_slice d' \<longleftrightarrow> d = d'"
  by (metis custom_as_copy option.inject)

lemma custom_okE:
  assumes "custom_ok a"
  obtains d where "a = custom_from_parts (custom_id a) d" "custom_as_bytes (custom_data a) = Some d"
  using assms by (cases a) (auto simp: custom_ok_def custom_from_parts_def)

lemma custom_binary_roundtrip:
  assumes "custom_ok a"
  shows "\<exists>v. custom_to_vec a = Some v \<and> custom_from_bytes v = Inr a \<and> length v = 8 + custom_len (custom_data a)"
proof -
  obtain d where d: "a = custom_from_parts (custom_id a) d" "custom_as_bytes (custom_data a) = Some d"
    using assms by (rule custom_okE)
  have "custom_data a = custom_copy_from_slice d" by (subst d(1)) (simp add: custom_from_parts_def)
  then show ?thesis
    using d by (simp add: custom_to_vec_def custom_from_bytes_def)
qed

lemma custom_binary_surj:
  assumes "custom_from_bytes v = Inr a"
  shows "custom_to_vec a = Some v" "custom_ok a"
  using assms
  by (auto simp: custom_from_bytes_def custom_to_vec_def custom_from_parts_def custom_ok_def u64_to_of_le
      split: if_splits)

lemma custom_text_roundtrip:
  assumes "text_encodings_ok T" "custom_ok a"
  shows "\<exists>s. custom_display T a = Some s \<and> custom_from_str T s = Inr a"
proof -
  obtain d where d: "a = custom_from_parts (custom_id a) d" "custom_as_bytes (custom_data a) = Some d"
    using assms(2) by (rule custom_okE)
  have "split_once (CHR ''_'') (show_hex (unat (custom_id a)) @ CHR ''_'' # hex_encode T d) =
      Some (show_hex (unat (custom_id a)), hex_encode T d)"
    by (rule split_once_append) (auto dest: show_hex_chars)
  then show ?thesis
    using d assms(1) by (simp add: custom_display_def custom_from_str_def text_encodings_ok_def)
qed

lemma custom_as_bytes_panics_iff:
  "custom_as_bytes b = None \<longleftrightarrow> (\<exists>len d. b = Inline len d \<and> length d < unat len)"
  by (auto simp: custom_as_bytes_def split: custom_addr_bytes.splits)

section \<open>Transport addresses and their order\<close>

datatype transport_addr = TA_Relay relay_url | TA_Ip socket_addr | TA_Custom custom_addr

fun transport_is_relay :: "transport_addr \<Rightarrow> bool" where
  "transport_is_relay (TA_Relay _) = True"
| "transport_is_relay _ = False"

fun transport_is_ip :: "transport_addr \<Rightarrow> bool" where
  "transport_is_ip (TA_Ip _) = True"
| "transport_is_ip _ = False"

fun transport_is_custom :: "transport_addr \<Rightarrow> bool" where
  "transport_is_custom (TA_Custom _) = True"
| "transport_is_custom _ = False"

text \<open>
  The derived \<open>Ord\<close> compares variants in the order of the declaration and then their fields; it is
  the lexicographic order of the following keys.
\<close>

fun transport_key :: "transport_addr \<Rightarrow> nat list" where
  "transport_key (TA_Relay url) = 0 # map of_char url"
| "transport_key (TA_Ip (SocketV4 ip port)) = 1 # 0 # map unat ip @ [unat port]"
| "transport_key (TA_Ip (SocketV6 ip port flow scope)) = 1 # 1 # map unat ip @ [unat port, unat flow, unat scope]"
| "transport_key (TA_Custom a) = 2 # unat (custom_id a) #
     (case custom_data a of Inline len d \<Rightarrow> 0 # unat len # map unat d | Heap d \<Rightarrow> 1 # map unat d)"

lemma map_of_char_inj: "map of_char s = (map of_char t :: nat list) \<Longrightarrow> s = t"
  by (erule map_injective) (simp add: inj_on_def)

lemma map_unat_inj [simp]: "map unat xs = map unat ys \<longleftrightarrow> xs = (ys :: bytes)"
  by (rule inj_map_eq_map) (simp add: inj_on_def word_unat_eq_iff)

lemma transport_key_inj: "transport_key a = transport_key b \<Longrightarrow> a = b"
proof (induction a rule: transport_key.induct)
  case (1 url)
  then show ?case by (cases b rule: transport_key.cases) (auto dest: map_of_char_inj)
next
  case (4 a)
  then show ?case
    by (cases b rule: transport_key.cases)
      (auto simp: word_unat_eq_iff split: custom_addr_bytes.splits intro: custom_addr.equality)
qed (cases b rule: transport_key.cases; auto simp: word_unat_eq_iff)+

instantiation transport_addr :: linorder
begin

definition less_eq_transport_addr :: "transport_addr \<Rightarrow> transport_addr \<Rightarrow> bool" where
  "less_eq_transport_addr a b \<longleftrightarrow> transport_key a \<le> transport_key b"

definition less_transport_addr :: "transport_addr \<Rightarrow> transport_addr \<Rightarrow> bool" where
  "less_transport_addr a b \<longleftrightarrow> transport_key a < transport_key b"

instance
  by standard (auto simp: less_eq_transport_addr_def less_transport_addr_def intro: transport_key_inj)

end

section \<open>Endpoint addresses\<close>

record endpoint_addr =
  ea_id :: bytes
  ea_addrs :: "transport_addr list"

abbreviation btree_insert :: "'a::linorder \<Rightarrow> 'a list \<Rightarrow> 'a list" where
  "btree_insert \<equiv> List.linorder_class.insort_insert"

definition endpoint_addr_new :: "bytes \<Rightarrow> endpoint_addr" where
  "endpoint_addr_new i = \<lparr>ea_id = i, ea_addrs = []\<rparr>"

definition endpoint_addr_from_parts :: "bytes \<Rightarrow> transport_addr list \<Rightarrow> endpoint_addr" where
  "endpoint_addr_from_parts i as = \<lparr>ea_id = i, ea_addrs = fold btree_insert as []\<rparr>"

definition with_relay_url :: "relay_url \<Rightarrow> endpoint_addr \<Rightarrow> endpoint_addr" where
  "with_relay_url u ea = ea\<lparr>ea_addrs := btree_insert (TA_Relay u) (ea_addrs ea)\<rparr>"

definition with_ip_addr :: "socket_addr \<Rightarrow> endpoint_addr \<Rightarrow> endpoint_addr" where
  "with_ip_addr a ea = ea\<lparr>ea_addrs := btree_insert (TA_Ip a) (ea_addrs ea)\<rparr>"

definition with_addrs :: "transport_addr list \<Rightarrow> endpoint_addr \<Rightarrow> endpoint_addr" where
  "with_addrs as ea = ea\<lparr>ea_addrs := fold btree_insert as (ea_addrs ea)\<rparr>"

definition endpoint_addr_is_empty :: "endpoint_addr \<Rightarrow> bool" where
  "endpoint_addr_is_empty ea \<longleftrightarrow> ea_addrs ea = []"

definition ea_ip_addrs :: "endpoint_addr \<Rightarrow> socket_addr list" where
  "ea_ip_addrs ea = List.map_filter (\<lambda>a. case a of TA_Ip s \<Rightarrow> Some s | _ \<Rightarrow> None) (ea_addrs ea)"

definition ea_relay_urls :: "endpoint_addr \<Rightarrow> relay_url list" where
  "ea_relay_urls ea = List.map_filter (\<lambda>a. case a of TA_Relay u \<Rightarrow> Some u | _ \<Rightarrow> None) (ea_addrs ea)"

text \<open>A sorted list without repetition is determined by its elements.\<close>

definition btree_ok :: "'a::linorder list \<Rightarrow> bool" where
  "btree_ok xs \<longleftrightarrow> sorted xs \<and> distinct xs"

lemma btree_insert_ok [simp]: "btree_ok xs \<Longrightarrow> btree_ok (btree_insert x xs)"
  by (simp add: btree_ok_def sorted_insort_insert distinct_insort_insert)

lemma btree_fold_ok [simp]: "btree_ok xs \<Longrightarrow> btree_ok (fold btree_insert as xs)"
  by (induction as arbitrary: xs) auto

lemma set_btree_fold [simp]: "set (fold btree_insert as xs) = set as \<union> set xs"
  by (induction as arbitrary: xs) (auto simp: set_insort_insert)

lemma btree_eqI: "btree_ok xs \<Longrightarrow> btree_ok ys \<Longrightarrow> set xs = set ys \<Longrightarrow> xs = ys"
  by (simp add: btree_ok_def sorted_distinct_set_unique)

lemma from_parts_canonical:
  "endpoint_addr_from_parts i as = endpoint_addr_from_parts j bs \<longleftrightarrow> i = j \<and> set as = set bs"
proof
  assume "endpoint_addr_from_parts i as = endpoint_addr_from_parts j bs"
  then have "i = j" "fold btree_insert as [] = fold btree_insert bs []"
    by (simp_all add: endpoint_addr_from_parts_def)
  then show "i = j \<and> set as = set bs" using set_btree_fold [of as "[]"] set_btree_fold [of bs "[]"] by simp
next
  assume "i = j \<and> set as = set bs"
  then show "endpoint_addr_from_parts i as = endpoint_addr_from_parts j bs"
    by (auto simp: endpoint_addr_from_parts_def btree_ok_def intro!: btree_eqI btree_fold_ok)
qed

lemma with_addrs_from_parts:
  "with_addrs bs (endpoint_addr_from_parts i as) = endpoint_addr_from_parts i (as @ bs)"
  by (simp add: with_addrs_def endpoint_addr_from_parts_def)

lemma mem_map_filter: "x \<in> set (List.map_filter f xs) \<longleftrightarrow> (\<exists>a \<in> set xs. f a = Some x)"
  by (induction xs) (auto simp: List.map_filter_simps split: option.splits)

lemma transport_addr_select [simp]:
  "(case a of TA_Relay u \<Rightarrow> None | TA_Ip s \<Rightarrow> Some s | TA_Custom c \<Rightarrow> None) = Some x \<longleftrightarrow> a = TA_Ip x"
  "(case a of TA_Relay u \<Rightarrow> Some u | TA_Ip s \<Rightarrow> None | TA_Custom c \<Rightarrow> None) = Some y \<longleftrightarrow> a = TA_Relay y"
  by (cases a; auto)+

lemma ea_ip_addrs_set: "s \<in> set (ea_ip_addrs ea) \<longleftrightarrow> TA_Ip s \<in> set (ea_addrs ea)"
  by (auto simp: ea_ip_addrs_def mem_map_filter)

lemma ea_relay_urls_set: "u \<in> set (ea_relay_urls ea) \<longleftrightarrow> TA_Relay u \<in> set (ea_addrs ea)"
  by (auto simp: ea_relay_urls_def mem_map_filter)

end
