(* ===== verification/Mapped_Addrs.thy ===== *)
theory Mapped_Addrs
  imports Endpoint_Addr
begin

text \<open>
  The fake IPv6 addresses under which the QUIC stack sees endpoints, relay paths and custom
  transports (\<open>iroh/src/socket/mapped_addrs.rs\<close>), and the two-way maps between them and what they
  stand for. The process-wide counters are arguments. The locale \<open>mapped_addr\<close> is the trait
  \<open>MappedAddr\<close>; the lemmas on \<open>AddrMap\<close> are proved in it once and interpreted for the three kinds of
  addresses.
\<close>

section \<open>Generating and recognising\<close>

definition ADDR_PREFIXL :: u8 where "ADDR_PREFIXL = 0xfd"
definition ADDR_GLOBAL_ID :: bytes where "ADDR_GLOBAL_ID = [0x15, 0x07, 0x0a, 0x51, 0x0b]"
definition RELAY_MAPPED_SUBNET :: bytes where "RELAY_MAPPED_SUBNET = [0x00, 0x01]"
definition CUSTOM_MAPPED_SUBNET :: bytes where "CUSTOM_MAPPED_SUBNET = [0x00, 0x03]"
definition ENDPOINT_ID_SUBNET :: bytes where "ENDPOINT_ID_SUBNET = [0x00, 0x00]"
definition MAPPED_PORT :: u16 where "MAPPED_PORT = 12345"

definition DEFAULT_FAKE_ADDR :: socket_addr where
  "DEFAULT_FAKE_ADDR = SocketV6 ([ADDR_PREFIXL, 21, 7, 10, 81, 11, 0, 0] @ replicate 8 0xff) MAPPED_PORT 0 0"

definition mapped_octets :: "bytes \<Rightarrow> u64 \<Rightarrow> bytes" where
  "mapped_octets subnet counter = [ADDR_PREFIXL] @ ADDR_GLOBAL_ID @ subnet @ u64_to_be counter"

definition endpoint_id_generate :: "u64 \<Rightarrow> bytes \<times> u64" where
  "endpoint_id_generate counter = (mapped_octets ENDPOINT_ID_SUBNET counter, counter + 1)"

definition relay_generate :: "u64 \<Rightarrow> bytes \<times> u64" where
  "relay_generate counter = (mapped_octets RELAY_MAPPED_SUBNET counter, counter + 1)"

definition custom_generate :: "u64 \<Rightarrow> bytes \<times> u64" where
  "custom_generate counter = (mapped_octets CUSTOM_MAPPED_SUBNET counter, counter + 1)"

definition private_socket_addr :: "bytes \<Rightarrow> socket_addr" where
  "private_socket_addr addr = socket_addr_new (IpV6 addr) MAPPED_PORT"

definition in_subnet :: "bytes \<Rightarrow> bytes \<Rightarrow> bool" where
  "in_subnet subnet octets \<longleftrightarrow>
     take 1 octets = [ADDR_PREFIXL] \<and> take 5 (drop 1 octets) = ADDR_GLOBAL_ID \<and> take 2 (drop 6 octets) = subnet"

definition endpoint_id_try_from :: "bytes \<Rightarrow> bytes option" where
  "endpoint_id_try_from v = (if in_subnet ENDPOINT_ID_SUBNET v then Some v else None)"

definition relay_try_from :: "bytes \<Rightarrow> bytes option" where
  "relay_try_from v = (if in_subnet RELAY_MAPPED_SUBNET v then Some v else None)"

definition custom_try_from :: "bytes \<Rightarrow> bytes option" where
  "custom_try_from v = (if in_subnet CUSTOM_MAPPED_SUBNET v then Some v else None)"

definition custom_try_from_ip :: "ip_addr \<Rightarrow> bytes option" where
  "custom_try_from_ip ip = (case ip of IpV4 _ \<Rightarrow> None | IpV6 v \<Rightarrow> custom_try_from v)"

datatype multipath_mapped_addr = MM_Mixed bytes | MM_Relay bytes | MM_Ip socket_addr | MM_Custom bytes

definition multipath_from :: "socket_addr \<Rightarrow> multipath_mapped_addr" where
  "multipath_from value =
     (case socket_ip value of
        IpV4 _ \<Rightarrow> MM_Ip value
      | IpV6 addr \<Rightarrow>
         (case endpoint_id_try_from addr of
            Some a \<Rightarrow> MM_Mixed a
          | None \<Rightarrow>
             (case relay_try_from addr of
                Some a \<Rightarrow> MM_Relay a
              | None \<Rightarrow>
                 (case custom_try_from addr of
                    Some a \<Rightarrow> MM_Custom a
                  | None \<Rightarrow> MM_Ip value))))"

lemmas mapped_consts = ADDR_PREFIXL_def ADDR_GLOBAL_ID_def RELAY_MAPPED_SUBNET_def CUSTOM_MAPPED_SUBNET_def
  ENDPOINT_ID_SUBNET_def

lemma mapped_octets_in_subnet:
  "length subnet = 2 \<Longrightarrow> in_subnet subnet' (mapped_octets subnet c) \<longleftrightarrow> subnet' = subnet"
  by (auto simp: in_subnet_def mapped_octets_def ADDR_GLOBAL_ID_def)

lemma mapped_octets_inj: "mapped_octets subnet c = mapped_octets subnet d \<longleftrightarrow> c = d"
  by (simp add: mapped_octets_def u64_to_be_inj)

lemma length_mapped_octets: "length subnet = 2 \<Longrightarrow> length (mapped_octets subnet c) = 16"
  by (simp add: mapped_octets_def ADDR_GLOBAL_ID_def)

text \<open>Every generated address is recognised as its own kind.\<close>

lemma multipath_from_generated:
  "multipath_from (private_socket_addr (fst (endpoint_id_generate c))) = MM_Mixed (fst (endpoint_id_generate c))"
  "multipath_from (private_socket_addr (fst (relay_generate c))) = MM_Relay (fst (relay_generate c))"
  "multipath_from (private_socket_addr (fst (custom_generate c))) = MM_Custom (fst (custom_generate c))"
  by (simp_all add: multipath_from_def private_socket_addr_def endpoint_id_generate_def relay_generate_def
      custom_generate_def endpoint_id_try_from_def relay_try_from_def custom_try_from_def mapped_octets_in_subnet
      RELAY_MAPPED_SUBNET_def CUSTOM_MAPPED_SUBNET_def ENDPOINT_ID_SUBNET_def)

section \<open>The two-way map\<close>

record ('k, 'v) addr_map =
  am_addrs :: "('k \<times> 'v) list"
  am_lookup :: "('v \<times> 'k) list"

definition addr_map_default :: "('k, 'v) addr_map" where
  "addr_map_default = \<lparr>am_addrs = [], am_lookup = []\<rparr>"

definition addr_map_get ::
  "(u64 \<Rightarrow> 'v \<times> u64) \<Rightarrow> 'k \<Rightarrow> ('k, 'v) addr_map \<times> u64 \<Rightarrow> 'v \<times> ('k, 'v) addr_map \<times> u64" where
  "addr_map_get generate key s =
     (case s of (m, counter) \<Rightarrow>
        (case map_of (am_addrs m) key of
           Some addr \<Rightarrow> (addr, m, counter)
         | None \<Rightarrow>
            (case generate counter of
               (addr, counter') \<Rightarrow>
                 (addr, m\<lparr>am_addrs := al_update key addr (am_addrs m),
                          am_lookup := al_update addr key (am_lookup m)\<rparr>, counter'))))"

definition addr_map_lookup :: "'v \<Rightarrow> ('k, 'v) addr_map \<Rightarrow> 'k option" where
  "addr_map_lookup addr m = map_of (am_lookup m) addr"

definition addr_map_inv :: "(u64 \<Rightarrow> 'v \<times> u64) \<Rightarrow> ('k, 'v) addr_map \<Rightarrow> u64 \<Rightarrow> bool" where
  "addr_map_inv generate m counter \<longleftrightarrow>
     (\<forall>k v. map_of (am_addrs m) k = Some v \<longleftrightarrow> map_of (am_lookup m) v = Some k) \<and>
     (\<forall>k v. map_of (am_addrs m) k = Some v \<longrightarrow> (\<exists>i. i < counter \<and> v = fst (generate i)))"

lemma addr_map_inv_default [simp]: "addr_map_inv g addr_map_default c"
  by (simp add: addr_map_inv_def addr_map_default_def)

text \<open>Another map drawing from the same counter does no harm.\<close>

lemma addr_map_inv_mono: "addr_map_inv g m c \<Longrightarrow> c \<le> d \<Longrightarrow> addr_map_inv g m d"
  by (auto simp: addr_map_inv_def) (meson order_less_le_trans)

locale mapped_addr =
  fixes generate :: "u64 \<Rightarrow> 'v \<times> u64"
  assumes generate_next: "snd (generate c) = c + 1"
    and generate_inj: "fst (generate c) = fst (generate d) \<Longrightarrow> c = d"
begin

lemma get_new:
  assumes inv: "addr_map_inv generate m c" and room: "c < c + 1" and None: "map_of (am_addrs m) k = None"
    and get: "addr_map_get generate k (m, c) = (v, m', c')"
  shows "addr_map_inv generate m' c'" "v = fst (generate c)" "c' = c + 1"
    "am_addrs m' = al_update k v (am_addrs m)" "am_lookup m' = al_update v k (am_lookup m)"
proof -
  have eq: "map_of (am_addrs m) k = Some v \<longleftrightarrow> map_of (am_lookup m) v = Some k" for k v
    using inv by (auto simp: addr_map_inv_def)
  have gen: "map_of (am_addrs m) k = Some v \<Longrightarrow> \<exists>i. i < c \<and> v = fst (generate i)" for k v
    using inv by (auto simp: addr_map_inv_def)
  show v: "v = fst (generate c)" "c' = c + 1"
    and m': "am_addrs m' = al_update k v (am_addrs m)" "am_lookup m' = al_update v k (am_lookup m)"
    using get None generate_next [of c] by (auto simp: addr_map_get_def split: prod.splits)
  have "map_of (am_lookup m) v \<noteq> Some k2" for k2
    using eq [of k2 v] gen [of k2 v] generate_inj v(1) by auto
  then have fresh: "map_of (am_lookup m) v = None" by (cases "map_of (am_lookup m) v") auto
  have "map_of (am_addrs m') k2 = Some v2 \<longleftrightarrow> map_of (am_lookup m') v2 = Some k2" for k2 v2
    using eq [of k2 v2] fresh None unfolding m' by auto
  moreover have "\<exists>i. i < c' \<and> v2 = fst (generate i)" if new: "map_of (am_addrs m') k2 = Some v2" for k2 v2
  proof (cases "k2 = k")
    case True
    then show ?thesis using new m'(1) v room by auto
  next
    case False
    then obtain i where "i < c" "v2 = fst (generate i)" using new m'(1) gen by auto
    moreover from this have "i < c'" using room v(2) by order
    ultimately show ?thesis by blast
  qed
  ultimately show "addr_map_inv generate m' c'" by (simp add: addr_map_inv_def)
qed

lemma get_result:
  assumes inv: "addr_map_inv generate m c" and room: "c < c + 1"
    and get: "addr_map_get generate k (m, c) = (v, m', c')"
  shows "addr_map_inv generate m' c' \<and> addr_map_lookup v m' = Some k \<and> c \<le> c' \<and> (\<exists>i. v = fst (generate i)) \<and>
    (\<forall>k' v'. map_of (am_addrs m) k' = Some v' \<longrightarrow> map_of (am_addrs m') k' = Some v') \<and>
    addr_map_get generate k (m', c') = (v, m', c')"
proof (cases "map_of (am_addrs m) k")
  case (Some u)
  then have same: "v = u" "m' = m" "c' = c" using get by (auto simp: addr_map_get_def)
  have "map_of (am_lookup m) u = Some k" "\<exists>i. u = fst (generate i)"
    using inv Some unfolding addr_map_inv_def by blast+
  then show ?thesis
    using inv Some same by (simp add: addr_map_lookup_def addr_map_get_def)
next
  case None
  note new = get_new [OF inv room None get]
  have le: "c \<le> c + 1" using room by order
  show ?thesis
    using new(1) None le by (auto simp: addr_map_lookup_def addr_map_get_def new(2-5))
qed

lemma get_lookup_kept:
  assumes "addr_map_inv generate m c" "c < c + 1" "addr_map_get generate k (m, c) = (v, m', c')"
    and "addr_map_lookup v2 m = Some k2"
  shows "addr_map_lookup v2 m' = Some k2"
  using get_result [OF assms(1-3)] assms(1,4) by (auto simp: addr_map_inv_def addr_map_lookup_def)

end

interpretation endpoint_id_mapped: mapped_addr endpoint_id_generate
  by unfold_locales (simp_all add: endpoint_id_generate_def mapped_octets_inj)

interpretation relay_mapped: mapped_addr relay_generate
  by unfold_locales (simp_all add: relay_generate_def mapped_octets_inj)

interpretation custom_mapped: mapped_addr custom_generate
  by unfold_locales (simp_all add: custom_generate_def mapped_octets_inj)

end
