(* ===== verification/Four_Tuple.thy ===== *)
theory Four_Tuple
  imports Mapped_Addrs
begin

text \<open>
  Transport addresses and network paths as the socket sees them (\<open>Addr\<close>, \<open>LocalTransportAddr\<close>,
  \<open>FourTuple\<close>, \<open>AddrKind\<close> of \<open>iroh/src/socket/transports.rs\<close> and \<open>to_transport_addr\<close> of
  \<open>iroh/src/socket/remote_map.rs\<close>), and their translation to and from the socket addresses of the
  QUIC stack. Lemmas: the translation of a path to the QUIC stack and back is the identity on
  canonical paths outside the mapped range, whatever was mapped before.
\<close>

section \<open>Addresses\<close>

datatype addr = Addr_Ip socket_addr | Addr_Relay relay_url bytes | Addr_Custom custom_addr

definition addr_default :: addr where
  "addr_default = Addr_Ip (SocketV6 (replicate 16 0) 0 0 0)"

text \<open>\<open>Ipv6Addr::to_canonical\<close>: an IPv4-mapped address becomes the IPv4 address.\<close>

definition to_canonical :: "bytes \<Rightarrow> ip_addr" where
  "to_canonical v = (if take 12 v = replicate 10 0 @ [0xff, 0xff] then IpV4 (drop 12 v) else IpV6 v)"

definition addr_from_socket :: "socket_addr \<Rightarrow> addr" where
  "addr_from_socket value =
     (case value of
        SocketV4 _ _ \<Rightarrow> Addr_Ip value
      | SocketV6 ip port _ _ \<Rightarrow> Addr_Ip (socket_addr_new (to_canonical ip) port))"

definition addr_from_custom :: "custom_addr \<Rightarrow> addr" where
  "addr_from_custom c = Addr_Custom c"

definition addr_from_relay :: "relay_url \<times> bytes \<Rightarrow> addr" where
  "addr_from_relay p = Addr_Relay (fst p) (snd p)"

fun addr_to_transport :: "addr \<Rightarrow> transport_addr" where
  "addr_to_transport (Addr_Ip a) = TA_Ip a"
| "addr_to_transport (Addr_Relay url _) = TA_Relay url"
| "addr_to_transport (Addr_Custom a) = TA_Custom a"

fun addr_is_relay :: "addr \<Rightarrow> bool" where
  "addr_is_relay (Addr_Relay _ _) = True"
| "addr_is_relay _ = False"

fun into_socket_addr :: "addr \<Rightarrow> socket_addr option" where
  "into_socket_addr (Addr_Ip a) = Some a"
| "into_socket_addr _ = None"

text \<open>\<open>PartialEq<TransportAddr> for Addr\<close>\<close>

definition addr_eq_transport :: "addr \<Rightarrow> transport_addr \<Rightarrow> bool" where
  "addr_eq_transport a t =
     (case a of
        Addr_Ip s \<Rightarrow> (case t of TA_Ip s' \<Rightarrow> s' = s | _ \<Rightarrow> False)
      | Addr_Relay url _ \<Rightarrow> (case t of TA_Relay url' \<Rightarrow> url' = url | _ \<Rightarrow> False)
      | Addr_Custom c \<Rightarrow> (case t of TA_Custom c' \<Rightarrow> c' = c | _ \<Rightarrow> False))"

lemma addr_eq_transport_iff: "addr_eq_transport a t \<longleftrightarrow> addr_to_transport a = t"
  by (cases a; cases t) (auto simp: addr_eq_transport_def)

text \<open>The canonical form that the addresses are documented to have.\<close>

fun socket_canonical :: "socket_addr \<Rightarrow> bool" where
  "socket_canonical (SocketV4 _ _) = True"
| "socket_canonical (SocketV6 ip _ flow scope) = (to_canonical ip = IpV6 ip \<and> flow = 0 \<and> scope = 0)"

fun addr_canonical :: "addr \<Rightarrow> bool" where
  "addr_canonical (Addr_Ip s) = socket_canonical s"
| "addr_canonical _ = True"

lemma to_canonical_idem: "to_canonical v = IpV6 v' \<Longrightarrow> v' = v \<and> to_canonical v' = IpV6 v'"
  by (auto simp: to_canonical_def split: if_splits)

lemma addr_from_socket_canonical: "addr_canonical (addr_from_socket s)"
  by (cases s) (auto simp: addr_from_socket_def to_canonical_def split: if_splits)

lemma addr_from_socket_fixed: "socket_canonical s \<Longrightarrow> addr_from_socket s = Addr_Ip s"
  by (cases s) (auto simp: addr_from_socket_def)

section \<open>The mapped addresses of a socket\<close>

record mapped_addrs =
  ma_relay :: "(relay_url \<times> bytes, bytes) addr_map"
  ma_custom :: "(custom_addr, bytes) addr_map"
  ma_relay_counter :: u64
  ma_custom_counter :: u64

definition get_relay :: "relay_url \<times> bytes \<Rightarrow> mapped_addrs \<Rightarrow> bytes \<times> mapped_addrs" where
  "get_relay k ms =
     (case addr_map_get relay_generate k (ma_relay ms, ma_relay_counter ms) of
        (v, m, c) \<Rightarrow> (v, ms\<lparr>ma_relay := m, ma_relay_counter := c\<rparr>))"

definition get_custom :: "custom_addr \<Rightarrow> mapped_addrs \<Rightarrow> bytes \<times> mapped_addrs" where
  "get_custom k ms =
     (case addr_map_get custom_generate k (ma_custom ms, ma_custom_counter ms) of
        (v, m, c) \<Rightarrow> (v, ms\<lparr>ma_custom := m, ma_custom_counter := c\<rparr>))"

definition mapped_inv :: "mapped_addrs \<Rightarrow> bool" where
  "mapped_inv ms \<longleftrightarrow> addr_map_inv relay_generate (ma_relay ms) (ma_relay_counter ms) \<and>
     addr_map_inv custom_generate (ma_custom ms) (ma_custom_counter ms)"

definition mapped_room :: "mapped_addrs \<Rightarrow> bool" where
  "mapped_room ms \<longleftrightarrow> unat (ma_relay_counter ms) + 2 < 2 ^ 64 \<and> unat (ma_custom_counter ms) + 2 < 2 ^ 64"

definition to_transport_addr :: "socket_addr \<Rightarrow> mapped_addrs \<Rightarrow> addr option" where
  "to_transport_addr a ms =
     (case multipath_from a of
        MM_Mixed _ \<Rightarrow> None
      | MM_Relay v \<Rightarrow> map_option addr_from_relay (addr_map_lookup v (ma_relay ms))
      | MM_Custom v \<Rightarrow> map_option Addr_Custom (addr_map_lookup v (ma_custom ms))
      | MM_Ip s \<Rightarrow> Some (addr_from_socket s))"

section \<open>Paths\<close>

datatype local_transport_addr = Local_Ip "ip_addr option" | Local_Relay relay_url | Local_Custom "custom_addr option"

definition local_from_noq :: "ip_addr option \<Rightarrow> addr \<Rightarrow> mapped_addrs \<Rightarrow> local_transport_addr" where
  "local_from_noq noq_local_ip remote_addr ms =
     (case remote_addr of
        Addr_Relay url _ \<Rightarrow> Local_Relay url
      | Addr_Ip _ \<Rightarrow> Local_Ip noq_local_ip
      | Addr_Custom _ \<Rightarrow>
          Local_Custom (Option.bind (Option.bind noq_local_ip custom_try_from_ip)
            (\<lambda>v. addr_map_lookup v (ma_custom ms))))"

datatype addr_kind = Kind_IpV4 | Kind_IpV6 | Kind_Relay | Kind_Custom u64

datatype four_tuple =
    FT_Ip socket_addr "ip_addr option"
  | FT_Relay relay_url bytes
  | FT_Custom custom_addr "custom_addr option"

fun ft_from_remote :: "addr \<Rightarrow> four_tuple" where
  "ft_from_remote (Addr_Ip r) = FT_Ip r None"
| "ft_from_remote (Addr_Relay url e) = FT_Relay url e"
| "ft_from_remote (Addr_Custom r) = FT_Custom r None"

definition ft_new :: "addr \<Rightarrow> local_transport_addr \<Rightarrow> four_tuple" where
  "ft_new remote local =
     (case remote of
        Addr_Ip r \<Rightarrow> FT_Ip r (case local of Local_Ip l \<Rightarrow> l | _ \<Rightarrow> None)
      | Addr_Relay url e \<Rightarrow> FT_Relay url e
      | Addr_Custom r \<Rightarrow> FT_Custom r (case local of Local_Custom l \<Rightarrow> l | _ \<Rightarrow> None))"

text \<open>A path of the QUIC stack is a socket address and an optional local IP address.\<close>

definition ft_from_noq :: "socket_addr \<times> ip_addr option \<Rightarrow> mapped_addrs \<Rightarrow> four_tuple option" where
  "ft_from_noq p ms =
     (case to_transport_addr (fst p) ms of
        None \<Rightarrow> None
      | Some remote \<Rightarrow> Some (ft_new remote (local_from_noq (snd p) remote ms)))"

fun ft_remote :: "four_tuple \<Rightarrow> addr" where
  "ft_remote (FT_Ip r _) = Addr_Ip r"
| "ft_remote (FT_Relay url e) = Addr_Relay url e"
| "ft_remote (FT_Custom r _) = Addr_Custom r"

fun ft_local :: "four_tuple \<Rightarrow> local_transport_addr" where
  "ft_local (FT_Ip _ l) = Local_Ip l"
| "ft_local (FT_Relay url _) = Local_Relay url"
| "ft_local (FT_Custom _ l) = Local_Custom l"

fun ft_is_ip :: "four_tuple \<Rightarrow> bool" where
  "ft_is_ip (FT_Ip _ _) = True"
| "ft_is_ip _ = False"

fun ft_is_relay :: "four_tuple \<Rightarrow> bool" where
  "ft_is_relay (FT_Relay _ _) = True"
| "ft_is_relay _ = False"

definition ft_to_noq :: "four_tuple \<Rightarrow> mapped_addrs \<Rightarrow> (socket_addr \<times> ip_addr option) \<times> mapped_addrs" where
  "ft_to_noq ft ms =
     (case ft of
        FT_Ip r l \<Rightarrow> ((r, l), ms)
      | FT_Relay url e \<Rightarrow> (case get_relay (url, e) ms of (v, ms') \<Rightarrow> ((private_socket_addr v, None), ms'))
      | FT_Custom r l \<Rightarrow>
         (case get_custom r ms of
            (v, ms1) \<Rightarrow>
              (case l of
                 None \<Rightarrow> ((private_socket_addr v, None), ms1)
               | Some c \<Rightarrow>
                  (case get_custom c ms1 of
                     (w, ms2) \<Rightarrow> ((private_socket_addr v, Some (socket_ip (private_socket_addr w))), ms2)))))"

fun ft_addr_kind :: "four_tuple \<Rightarrow> addr_kind" where
  "ft_addr_kind (FT_Ip (SocketV4 _ _) _) = Kind_IpV4"
| "ft_addr_kind (FT_Ip (SocketV6 _ _ _ _) _) = Kind_IpV6"
| "ft_addr_kind (FT_Relay _ _) = Kind_Relay"
| "ft_addr_kind (FT_Custom r _) = Kind_Custom (custom_id r)"

lemma ft_parts [simp]: "ft_new (ft_remote ft) (ft_local ft) = ft"
  by (cases ft) (simp_all add: ft_new_def)

lemma ft_from_remote_remote [simp]: "ft_remote (ft_from_remote a) = a"
  by (cases a) simp_all

section \<open>To the QUIC stack and back\<close>

lemma room_next:
  fixes c :: u64
  assumes "unat c + 2 < 2 ^ 64"
  shows "c < c + 1" "c + 1 < c + 1 + 1"
proof -
  have "unat (c + 1) = unat c + 1" using assms by (simp add: unat_word_ariths)
  moreover from this have "unat (c + 1 + 1) = unat c + 2" using assms by (simp add: unat_word_ariths)
  ultimately show "c < c + 1" "c + 1 < c + 1 + 1" by (simp_all add: word_less_nat_alt)
qed

lemma get_relay_result:
  assumes inv: "mapped_inv ms" and room: "mapped_room ms" and get: "get_relay k ms = (v, ms')"
  shows "mapped_inv ms'" "addr_map_lookup v (ma_relay ms') = Some k" "\<exists>i. v = fst (relay_generate i)"
    "ma_custom ms' = ma_custom ms"
proof -
  obtain m c where g: "addr_map_get relay_generate k (ma_relay ms, ma_relay_counter ms) = (v, m, c)"
    and ms': "ms' = ms\<lparr>ma_relay := m, ma_relay_counter := c\<rparr>"
    using get by (auto simp: get_relay_def split: prod.splits)
  have "addr_map_inv relay_generate (ma_relay ms) (ma_relay_counter ms)"
    "ma_relay_counter ms < ma_relay_counter ms + 1"
    using inv room room_next(1) by (simp_all add: mapped_inv_def mapped_room_def)
  note r = relay_mapped.get_result [OF this g]
  show "mapped_inv ms'" "addr_map_lookup v (ma_relay ms') = Some k" "\<exists>i. v = fst (relay_generate i)"
    "ma_custom ms' = ma_custom ms"
    using r inv by (simp_all add: ms' mapped_inv_def)
qed

lemma get_custom_result:
  assumes inv: "mapped_inv ms" and room: "ma_custom_counter ms < ma_custom_counter ms + 1"
    and get: "get_custom k ms = (v, ms')"
  shows "mapped_inv ms'" "addr_map_lookup v (ma_custom ms') = Some k" "\<exists>i. v = fst (custom_generate i)"
    "\<And>v2 k2. addr_map_lookup v2 (ma_custom ms) = Some k2 \<Longrightarrow> addr_map_lookup v2 (ma_custom ms') = Some k2"
    "ma_custom_counter ms' = ma_custom_counter ms \<or> ma_custom_counter ms' = ma_custom_counter ms + 1"
proof -
  obtain m c where g: "addr_map_get custom_generate k (ma_custom ms, ma_custom_counter ms) = (v, m, c)"
    and ms': "ms' = ms\<lparr>ma_custom := m, ma_custom_counter := c\<rparr>"
    using get by (auto simp: get_custom_def split: prod.splits)
  have cinv: "addr_map_inv custom_generate (ma_custom ms) (ma_custom_counter ms)"
    using inv by (simp add: mapped_inv_def)
  note r = custom_mapped.get_result [OF cinv room g]
  show "mapped_inv ms'" "addr_map_lookup v (ma_custom ms') = Some k" "\<exists>i. v = fst (custom_generate i)"
    using r inv by (simp_all add: ms' mapped_inv_def)
  show "addr_map_lookup v2 (ma_custom ms') = Some k2" if "addr_map_lookup v2 (ma_custom ms) = Some k2" for v2 k2
    using custom_mapped.get_lookup_kept [OF cinv room g that] by (simp add: ms')
  show "ma_custom_counter ms' = ma_custom_counter ms \<or> ma_custom_counter ms' = ma_custom_counter ms + 1"
    using g by (auto simp: ms' addr_map_get_def custom_generate_def split: option.splits)
qed

text \<open>The paths that survive: canonical remote addresses outside the mapped range.\<close>

fun ft_ok :: "four_tuple \<Rightarrow> bool" where
  "ft_ok (FT_Ip r _) = (socket_canonical r \<and> multipath_from r = MM_Ip r)"
| "ft_ok _ = True"

lemma to_transport_relay:
  assumes "mapped_inv ms" "mapped_room ms" "get_relay (url, e) ms = (v, ms')"
  shows "to_transport_addr (private_socket_addr v) ms' = Some (Addr_Relay url e)"
  using get_relay_result [OF assms] multipath_from_generated(2)
  by (auto simp: to_transport_addr_def addr_from_relay_def)

lemma to_transport_custom:
  assumes "addr_map_lookup v (ma_custom ms) = Some c" "\<exists>i. v = fst (custom_generate i)"
  shows "to_transport_addr (private_socket_addr v) ms = Some (Addr_Custom c)"
  using assms multipath_from_generated(3) by (auto simp: to_transport_addr_def)

lemma custom_try_from_generated:
  "custom_try_from_ip (socket_ip (private_socket_addr (fst (custom_generate i)))) = Some (fst (custom_generate i))"
  by (simp add: private_socket_addr_def custom_try_from_ip_def custom_try_from_def custom_generate_def
      mapped_octets_in_subnet CUSTOM_MAPPED_SUBNET_def)

lemma ft_noq_roundtrip:
  assumes inv: "mapped_inv ms" "mapped_room ms" and ok: "ft_ok ft" and noq: "ft_to_noq ft ms = (p, ms')"
  shows "ft_from_noq p ms' = Some ft"
proof (cases ft)
  case (FT_Ip r l)
  then show ?thesis
    using ok noq addr_from_socket_fixed
    by (auto simp: ft_to_noq_def ft_from_noq_def to_transport_addr_def local_from_noq_def ft_new_def)
next
  case (FT_Relay url e)
  obtain v ms1 where g: "get_relay (url, e) ms = (v, ms1)" by force
  then show ?thesis
    using noq FT_Relay to_transport_relay [OF inv g]
    by (auto simp: ft_to_noq_def ft_from_noq_def local_from_noq_def ft_new_def)
next
  case (FT_Custom r l)
  obtain v ms1 where g: "get_custom r ms = (v, ms1)" by force
  have room: "ma_custom_counter ms < ma_custom_counter ms + 1"
    "ma_custom_counter ms + 1 < ma_custom_counter ms + 1 + 1"
    using inv(2) room_next by (auto simp: mapped_room_def)
  note one = get_custom_result [OF inv(1) room(1) g]
  show ?thesis
  proof (cases l)
    case None
    then show ?thesis
      using noq FT_Custom g to_transport_custom [OF one(2,3)]
      by (auto simp: ft_to_noq_def ft_from_noq_def local_from_noq_def ft_new_def)
  next
    case (Some c)
    obtain w ms2 where h: "get_custom c ms1 = (w, ms2)" by force
    have "ma_custom_counter ms1 < ma_custom_counter ms1 + 1" using one(5) room by auto
    note two = get_custom_result [OF one(1) this h]
    obtain i where i: "w = fst (custom_generate i)" using two(3) by blast
    have "to_transport_addr (private_socket_addr v) ms2 = Some (Addr_Custom r)"
      by (rule to_transport_custom [OF two(4) [OF one(2)] one(3)])
    then show ?thesis
      using noq FT_Custom g h Some custom_try_from_generated [of i] two(2) i
      by (auto simp: ft_to_noq_def ft_from_noq_def local_from_noq_def ft_new_def)
  qed
qed

end
