(* ===== verification/Path_Selector.thy ===== *)
theory Path_Selector
  imports Four_Tuple "HOL-Library.Product_Lexorder"
begin

text \<open>
  The default path selector (\<open>iroh/src/socket/biased_rtt_path_selector.rs\<close>) and the interface a
  selector has to meet (\<open>PathSelector\<close> of \<open>iroh/src/socket/remote_map/remote_state.rs\<close>). A candidate
  is a path with its round-trip time, if the connection still has statistics for it. Round-trip
  times are nanoseconds, biases integers; the additions of the source cannot leave 128 bits for
  durations, which are below \<open>2 ^ 94\<close> nanoseconds. Lemmas: the chosen path is a best candidate, a
  primary path wins over a backup path, and a choice is stable until another path is five
  milliseconds better.
\<close>

definition IPV6_RTT_ADVANTAGE :: duration where "IPV6_RTT_ADVANTAGE = from_millis 3"
definition RTT_SWITCHING_MIN :: duration where "RTT_SWITCHING_MIN = from_millis 5"

datatype transport_type = Primary | Backup

instantiation transport_type :: linorder
begin

definition less_eq_transport_type :: "transport_type \<Rightarrow> transport_type \<Rightarrow> bool" where
  "less_eq_transport_type a b \<longleftrightarrow> a = Primary \<or> b = Backup"

definition less_transport_type :: "transport_type \<Rightarrow> transport_type \<Rightarrow> bool" where
  "less_transport_type a b \<longleftrightarrow> a = Primary \<and> b = Backup"

instance
proof
  fix x y z :: transport_type
  show "(x < y) = (x \<le> y \<and> \<not> y \<le> x)"
    by (cases x; cases y) (simp_all add: less_eq_transport_type_def less_transport_type_def)
  show "x \<le> x" by (cases x) (simp_all add: less_eq_transport_type_def)
  show "x \<le> y \<Longrightarrow> y \<le> z \<Longrightarrow> x \<le> z" by (auto simp: less_eq_transport_type_def)
  show "x \<le> y \<Longrightarrow> y \<le> x \<Longrightarrow> x = y" by (auto simp: less_eq_transport_type_def)
  show "x \<le> y \<or> y \<le> x" by (cases x; cases y) (simp_all add: less_eq_transport_type_def)
qed

end

record transport_bias =
  tb_type :: transport_type
  rtt_bias :: int

definition bias_primary :: transport_bias where
  "bias_primary = \<lparr>tb_type = Primary, rtt_bias = 0\<rparr>"

definition bias_backup :: transport_bias where
  "bias_backup = \<lparr>tb_type = Backup, rtt_bias = 0\<rparr>"

definition with_rtt_advantage :: "duration \<Rightarrow> transport_bias \<Rightarrow> transport_bias" where
  "with_rtt_advantage adv b = b\<lparr>rtt_bias := rtt_bias b - int adv\<rparr>"

type_synonym biases = "(addr_kind \<times> transport_bias) list"

definition biases_default :: biases where
  "biases_default =
     [(Kind_IpV4, bias_primary),
      (Kind_IpV6, with_rtt_advantage IPV6_RTT_ADVANTAGE bias_primary),
      (Kind_Relay, bias_backup)]"

definition bias_for :: "biases \<Rightarrow> four_tuple \<Rightarrow> transport_bias" where
  "bias_for bs ft = (case map_of bs (ft_addr_kind ft) of Some b \<Rightarrow> b | None \<Rightarrow> bias_primary)"

definition I128_MAX :: int where "I128_MAX = 2 ^ 127 - 1"
definition I128_MIN :: int where "I128_MIN = - (2 ^ 127)"

definition path_sort_key :: "biases \<Rightarrow> four_tuple \<Rightarrow> duration \<Rightarrow> transport_type \<times> int" where
  "path_sort_key bs ft rtt =
     (let b = bias_for bs ft in (tb_type b, max I128_MIN (min I128_MAX (int rtt + rtt_bias b))))"

text \<open>The loop over the candidates: the best one with its key, and the best key of the current path.\<close>

type_synonym candidate = "four_tuple \<times> duration option"

definition select_step ::
  "biases \<Rightarrow> four_tuple option \<Rightarrow> candidate
     \<Rightarrow> (four_tuple \<times> transport_type \<times> int) option \<times> (transport_type \<times> int) option
     \<Rightarrow> (four_tuple \<times> transport_type \<times> int) option \<times> (transport_type \<times> int) option" where
  "select_step bs current psd s =
     (case s of (best, current_key) \<Rightarrow>
        (case psd of
           (_, None) \<Rightarrow> (best, current_key)
         | (network_path, Some rtt) \<Rightarrow>
            (let key = path_sort_key bs network_path rtt in
             ((if (case best of None \<Rightarrow> True | Some (_, b) \<Rightarrow> key < b) then Some (network_path, key) else best),
              (if Some network_path = current \<and> (case current_key of None \<Rightarrow> True | Some c \<Rightarrow> key < c)
               then Some key else current_key)))))"

definition select :: "biases \<Rightarrow> four_tuple option \<Rightarrow> candidate list \<Rightarrow> four_tuple option" where
  "select bs current paths =
     (case fold (select_step bs current) paths (None, None) of
        (None, _) \<Rightarrow> None
      | (Some (best, best_tier, best_biased), current_key) \<Rightarrow>
         (case current_key of
            None \<Rightarrow> Some best
          | Some (current_tier, current_biased) \<Rightarrow>
             (if current_tier \<noteq> best_tier then Some best
              else if best_biased + int RTT_SWITCHING_MIN \<le> current_biased then Some best
              else None)))"

section \<open>What the loop computes\<close>

definition keyed :: "biases \<Rightarrow> candidate list \<Rightarrow> (four_tuple \<times> transport_type \<times> int) set" where
  "keyed bs paths = {(ft, path_sort_key bs ft rtt) | ft rtt. (ft, Some rtt) \<in> set paths}"

text \<open>The best element of a set of keyed paths, or nothing if the set is empty.\<close>

definition best_of :: "(four_tuple \<times> 'a::linorder) set \<Rightarrow> (four_tuple \<times> 'a) option \<Rightarrow> bool" where
  "best_of S best \<longleftrightarrow>
     (case best of None \<Rightarrow> S = {} | Some (ft, key) \<Rightarrow> (ft, key) \<in> S \<and> (\<forall>(ft', key') \<in> S. key \<le> key'))"

definition least_key :: "four_tuple option \<Rightarrow> (four_tuple \<times> 'a::linorder) set \<Rightarrow> 'a option \<Rightarrow> bool" where
  "least_key current S k \<longleftrightarrow>
     (case k of
        None \<Rightarrow> (\<forall>(ft, key) \<in> S. Some ft \<noteq> current)
      | Some c \<Rightarrow> (\<exists>ft. current = Some ft \<and> (ft, c) \<in> S) \<and> (\<forall>(ft, key) \<in> S. Some ft = current \<longrightarrow> c \<le> key))"

lemma best_ofD:
  "best_of S (Some (ft, key)) \<Longrightarrow> (ft, key) \<in> S"
  "best_of S (Some (ft, key)) \<Longrightarrow> (ft', key') \<in> S \<Longrightarrow> key \<le> key'"
  "best_of S None \<Longrightarrow> S = {}"
  by (auto simp: best_of_def)

lemma keyed_Cons:
  "keyed bs ((ft, None) # ps) = keyed bs ps"
  "keyed bs ((ft, Some rtt) # ps) = insert (ft, path_sort_key bs ft rtt) (keyed bs ps)"
  by (auto simp: keyed_def)

lemma keyed_append: "keyed bs (ps @ qs) = keyed bs ps \<union> keyed bs qs"
  by (auto simp: keyed_def)

lemma best_of_insert:
  assumes "best_of S best"
  shows "best_of (insert (ft, key) S)
    (if (case best of None \<Rightarrow> True | Some (_, b) \<Rightarrow> key < b) then Some (ft, key) else best)"
proof (cases best)
  case None
  then show ?thesis using assms by (simp add: best_of_def)
next
  case (Some p)
  obtain f b where p: "p = (f, b)" by force
  have S: "(f, b) \<in> S" "\<And>f' k'. (f', k') \<in> S \<Longrightarrow> b \<le> k'"
    using assms Some p by (auto simp: best_of_def)
  show ?thesis
    using S Some p by (auto simp: best_of_def) (meson less_imp_le order.trans)
qed

lemma least_key_insert:
  assumes "least_key current S ck"
  shows "least_key current (insert (ft, key) S)
    (if Some ft = current \<and> (case ck of None \<Rightarrow> True | Some c \<Rightarrow> key < c) then Some key else ck)"
proof (cases "Some ft = current")
  case True
  show ?thesis
  proof (cases ck)
    case None
    then show ?thesis using assms True by (auto simp: least_key_def)
  next
    case (Some c)
    then have c: "\<exists>f. current = Some f \<and> (f, c) \<in> S" "\<And>f k. (f, k) \<in> S \<Longrightarrow> Some f = current \<Longrightarrow> c \<le> k"
      using assms by (auto simp: least_key_def)
    show ?thesis
      using c True Some by (auto simp: least_key_def) (metis less_imp_le order.trans)
  qed
next
  case False
  then show ?thesis using assms by (auto simp: least_key_def split: option.splits)
qed

lemma select_fold:
  assumes "best_of S best" "least_key current S ck"
  shows "best_of (S \<union> keyed bs paths) (fst (fold (select_step bs current) paths (best, ck))) \<and>
    least_key current (S \<union> keyed bs paths) (snd (fold (select_step bs current) paths (best, ck)))"
  using assms
proof (induction paths arbitrary: S best ck)
  case Nil
  then show ?case by (simp add: keyed_def)
next
  case (Cons p ps)
  obtain ft r where p: "p = (ft, r)" by force
  show ?case
  proof (cases r)
    case None
    then show ?thesis using Cons.IH [OF Cons.prems] p by (simp add: select_step_def keyed_Cons)
  next
    case (Some rtt)
    let ?k = "path_sort_key bs ft rtt"
    show ?thesis
      using Cons.IH [OF best_of_insert [OF Cons.prems(1), of ft ?k] least_key_insert [OF Cons.prems(2), of ft ?k]]
        p Some
      by (simp add: select_step_def keyed_Cons Let_def)
  qed
qed

lemma select_loop:
  obtains best ck where "fold (select_step bs current) paths (None, None) = (best, ck)"
    "best_of (keyed bs paths) best" "least_key current (keyed bs paths) ck"
proof -
  have "best_of {} (None :: (four_tuple \<times> transport_type \<times> int) option)"
    "least_key current {} (None :: (transport_type \<times> int) option)"
    by (simp_all add: best_of_def least_key_def)
  from select_fold [OF this, of bs paths] show ?thesis
    using that by (metis prod.collapse sup_bot_left)
qed

section \<open>What is selected\<close>

lemma select_best:
  assumes "select bs current paths = Some ft"
  shows "\<exists>key. best_of (keyed bs paths) (Some (ft, key))"
proof -
  obtain best ck where "fold (select_step bs current) paths (None, None) = (best, ck)" "best_of (keyed bs paths) best"
    "least_key current (keyed bs paths) ck" by (rule select_loop)
  then show ?thesis
    using assms by (auto simp: select_def split: option.splits prod.splits if_splits)
qed

text \<open>
  Nothing is selected only if there is no candidate with statistics, or the current path is a
  candidate of the best tier and no candidate is five milliseconds better.
\<close>

lemma select_none:
  assumes "select bs current paths = None" "keyed bs paths \<noteq> {}"
  obtains ft tier b where "current = Some ft" "(ft, tier, b) \<in> keyed bs paths"
    "\<And>ft' tier' b'. (ft', tier', b') \<in> keyed bs paths \<Longrightarrow> tier < tier' \<or> tier = tier' \<and> b < b' + int RTT_SWITCHING_MIN"
proof -
  obtain best ck where loop: "fold (select_step bs current) paths (None, None) = (best, ck)"
    "best_of (keyed bs paths) best" "least_key current (keyed bs paths) ck" by (rule select_loop)
  then obtain f t b where best: "best = Some (f, t, b)" "\<And>f' k'. (f', k') \<in> keyed bs paths \<Longrightarrow> (t, b) \<le> k'"
    using assms(2) best_ofD by (metis option.exhaust prod_cases3)
  obtain c where ck: "ck = Some (t, c)" "c < b + int RTT_SWITCHING_MIN"
    using assms(1) loop(1) best(1) by (auto simp: select_def split: option.splits if_splits)
  obtain ft where ft: "current = Some ft" "(ft, t, c) \<in> keyed bs paths"
    using loop(3) ck by (auto simp: least_key_def)
  show ?thesis
  proof (rule that [OF ft])
    fix ft' tier' b'
    assume "(ft', tier', b') \<in> keyed bs paths"
    from best(2) [OF this] show "t < tier' \<or> t = tier' \<and> c < b' + int RTT_SWITCHING_MIN"
      using ck(2) by auto
  qed
qed

lemma select_some:
  assumes "keyed bs paths \<noteq> {}" "\<And>key. current = Some ft \<Longrightarrow> (ft, key) \<notin> keyed bs paths"
    and "current = None \<or> current = Some ft"
  shows "select bs current paths \<noteq> None"
proof
  assume "select bs current paths = None"
  then obtain f t b where "current = Some f" "(f, t, b) \<in> keyed bs paths"
    using select_none [OF _ assms(1)] by blast
  then show False using assms(2,3) by auto
qed

text \<open>A choice is kept when the same candidates are offered again.\<close>

lemma select_stable:
  assumes "select bs current paths = Some ft"
  shows "select bs (Some ft) paths = None"
proof (rule ccontr)
  obtain key where k: "(ft, key) \<in> keyed bs paths" "\<And>f' k'. (f', k') \<in> keyed bs paths \<Longrightarrow> key \<le> k'"
    using select_best [OF assms] best_ofD(1,2) by blast
  obtain best ck where loop: "fold (select_step bs (Some ft)) paths (None, None) = (best, ck)"
    "best_of (keyed bs paths) best" "least_key (Some ft) (keyed bs paths) ck" by (rule select_loop)
  obtain f k' where best: "best = Some (f, k')" "(f, k') \<in> keyed bs paths" "k' \<le> key"
    using loop(2) k(1) best_ofD by (metis empty_iff option.exhaust prod.exhaust)
  have "k' = key" using best k(2) by (simp add: order.antisym)
  moreover have "ck = Some key"
  proof (cases ck)
    case None
    then show ?thesis using loop(3) k(1) by (auto simp: least_key_def)
  next
    case (Some c)
    then have "(ft, c) \<in> keyed bs paths" "c \<le> key" using loop(3) k(1) by (auto simp: least_key_def)
    then show ?thesis using Some k(2) [of ft c] by simp
  qed
  moreover assume "select bs (Some ft) paths \<noteq> None"
  ultimately show False
    using loop(1) best(1)
    by (cases key) (auto simp: select_def RTT_SWITCHING_MIN_def from_millis_def split: if_splits)
qed

section \<open>The interface of a selector\<close>

text \<open>
  What the remote state relies on: a selector chooses among the candidates, and offering the same
  candidates again does not change the choice.
\<close>

locale path_selector =
  fixes pick :: "four_tuple option \<Rightarrow> candidate list \<Rightarrow> four_tuple option"
  assumes pick_candidate: "pick current paths = Some ft \<Longrightarrow> ft \<in> fst ` set paths"
    and pick_stable: "pick current paths = Some ft \<Longrightarrow> pick (Some ft) paths = None"
begin

text \<open>The update of the selected path, and that it settles after one round.\<close>

lemma update_settles:
  assumes "current' = (case pick current paths of Some ft \<Rightarrow> Some ft | None \<Rightarrow> current)"
  shows "(case pick current' paths of Some ft \<Rightarrow> Some ft | None \<Rightarrow> current') = current'"
  using assms pick_stable by (cases "pick current paths") auto

lemma update_candidate:
  assumes "current' = (case pick current paths of Some ft \<Rightarrow> Some ft | None \<Rightarrow> current)" "current' \<noteq> current"
  shows "\<exists>ft. current' = Some ft \<and> ft \<in> fst ` set paths"
  using assms pick_candidate by (cases "pick current paths") auto

end

interpretation biased_rtt: path_selector "select bs"
proof unfold_locales
  fix current paths ft
  assume "select bs current paths = Some ft"
  then show "ft \<in> fst ` set paths" "select bs (Some ft) paths = None"
    using select_best [of bs current paths ft] best_ofD(1) select_stable by (force simp: keyed_def)+
qed

end
