(* ===== verification/Path_State.thy ===== *)
theory Path_State
  imports Four_Tuple "HOL-Library.Multiset"
begin

text \<open>
  The paths known to a remote endpoint and the requests waiting for one
  (\<open>iroh/src/socket/remote_map/remote_state/path_state.rs\<close>). The hash map of paths is an association
  list whose order stands for the iteration order; a pending request is identified by a number, and
  the answers sent are recorded. Lemmas: every request is answered once and never left waiting
  while a path is known, and exactly which paths pruning removes.
\<close>

section \<open>State\<close>

definition MAX_NON_RELAY_PATHS :: nat where "MAX_NON_RELAY_PATHS = 30"
definition MAX_INACTIVE_NON_RELAY_PATHS :: nat where "MAX_INACTIVE_NON_RELAY_PATHS = 10"

datatype path_status = PS_Open | PS_Inactive instant | PS_Unusable | PS_Unknown

datatype source = Source_App | Source_AddressLookup string | Source_Connection

record path_state =
  ps_sources :: "(source \<times> instant) list"
  ps_status :: path_status

definition path_state_default :: path_state where
  "path_state_default = \<lparr>ps_sources = [], ps_status = PS_Unknown\<rparr>"

datatype address_lookup_failed = NoServiceConfigured | NoResults "string list"

record path_metrics =
  ip_paths_added :: nat
  relay_paths_added :: nat
  custom_paths_added :: nat
  ip_paths_removed :: nat
  relay_paths_removed :: nat
  custom_paths_removed :: nat

record remote_paths =
  rp_paths :: "(addr \<times> path_state) list"
  rp_pending :: "nat list"
  rp_replies :: "(nat \<times> (address_lookup_failed + unit)) list"
  rp_metrics :: path_metrics

definition remote_paths_new :: remote_paths where
  "remote_paths_new =
     \<lparr>rp_paths = [], rp_pending = [], rp_replies = [],
      rp_metrics = \<lparr>ip_paths_added = 0, relay_paths_added = 0, custom_paths_added = 0,
                    ip_paths_removed = 0, relay_paths_removed = 0, custom_paths_removed = 0\<rparr>\<rparr>"

datatype addr_usage = Usage_Active | Usage_Inactive

definition to_remote_addrs :: "remote_paths \<Rightarrow> (transport_addr \<times> addr_usage) list" where
  "to_remote_addrs rp =
     map (\<lambda>(a, st). (addr_to_transport a, case ps_status st of PS_Open \<Rightarrow> Usage_Active | _ \<Rightarrow> Usage_Inactive))
       (rp_paths rp)"

section \<open>Pruning\<close>

definition inactive_paths :: "(addr \<times> path_state) list \<Rightarrow> (addr \<times> instant) list" where
  "inactive_paths ps =
     List.map_filter (\<lambda>(a, st). case ps_status st of PS_Inactive t \<Rightarrow> Some (a, t) | _ \<Rightarrow> None) ps"

definition failed_paths :: "(addr \<times> path_state) list \<Rightarrow> addr list" where
  "failed_paths ps = map fst (filter (\<lambda>(a, st). ps_status st = PS_Unusable) ps)"

text \<open>\<open>sort_by_key\<close> with \<open>Reverse\<close>: from most to least recently closed, stably.\<close>

definition must_prune :: "(addr \<times> path_state) list \<Rightarrow> addr list" where
  "must_prune paths =
     (let primary_paths = filter (\<lambda>(a, _). \<not> addr_is_relay a) paths;
          inactive = inactive_paths primary_paths;
          failed = failed_paths primary_paths;
          failed = (if length failed = length paths then take (length paths - MAX_NON_RELAY_PATHS) failed else failed);
          inactive = sort_key (\<lambda>p. - int (snd p)) inactive;
          old_inactive = drop (length inactive - MAX_INACTIVE_NON_RELAY_PATHS) inactive
      in failed @ map fst old_inactive)"

definition prune_non_relay_paths :: "(addr \<times> path_state) list \<Rightarrow> (addr \<times> path_state) list" where
  "prune_non_relay_paths paths =
     (if length paths < MAX_NON_RELAY_PATHS then paths
      else if length (filter (\<lambda>(a, _). \<not> addr_is_relay a) paths) < MAX_NON_RELAY_PATHS then paths
      else filter (\<lambda>(a, _). a \<notin> set (must_prune paths)) paths)"

definition prune_paths :: "remote_paths \<Rightarrow> remote_paths" where
  "prune_paths rp = rp\<lparr>rp_paths := prune_non_relay_paths (rp_paths rp)\<rparr>"

section \<open>Requests and updates\<close>

definition emit_pending_resolve_requests :: "address_lookup_failed option \<Rightarrow> remote_paths \<Rightarrow> remote_paths" where
  "emit_pending_resolve_requests address_lookup_error rp =
     (if rp_pending rp = [] then rp
      else let result =
             (if rp_paths rp \<noteq> [] then Inr ()
              else case address_lookup_error of Some e \<Rightarrow> Inl e | None \<Rightarrow> Inl (NoResults []))
           in rp\<lparr>rp_replies := rp_replies rp @ map (\<lambda>tx. (tx, result)) (rp_pending rp), rp_pending := []\<rparr>)"

definition path_entry :: "addr \<Rightarrow> remote_paths \<Rightarrow> path_state" where
  "path_entry a rp = (case map_of (rp_paths rp) a of Some st \<Rightarrow> st | None \<Rightarrow> path_state_default)"

definition count_added :: "addr \<Rightarrow> path_metrics \<Rightarrow> path_metrics" where
  "count_added a m =
     (case a of
        Addr_Ip _ \<Rightarrow> m\<lparr>ip_paths_added := ip_paths_added m + 1\<rparr>
      | Addr_Relay _ _ \<Rightarrow> m\<lparr>relay_paths_added := relay_paths_added m + 1\<rparr>
      | Addr_Custom _ \<Rightarrow> m\<lparr>custom_paths_added := custom_paths_added m + 1\<rparr>)"

definition count_removed :: "addr \<Rightarrow> path_metrics \<Rightarrow> path_metrics" where
  "count_removed a m =
     (case a of
        Addr_Ip _ \<Rightarrow> m\<lparr>ip_paths_removed := ip_paths_removed m + 1\<rparr>
      | Addr_Relay _ _ \<Rightarrow> m\<lparr>relay_paths_removed := relay_paths_removed m + 1\<rparr>
      | Addr_Custom _ \<Rightarrow> m\<lparr>custom_paths_removed := custom_paths_removed m + 1\<rparr>)"

definition insert_open_path :: "instant \<Rightarrow> addr \<Rightarrow> source \<Rightarrow> remote_paths \<Rightarrow> remote_paths" where
  "insert_open_path now a src rp =
     (let rp1 = rp\<lparr>rp_metrics := count_added a (rp_metrics rp)\<rparr>;
          st = path_entry a rp1;
          st' = st\<lparr>ps_status := PS_Open, ps_sources := al_update src now (ps_sources st)\<rparr>;
          rp2 = rp1\<lparr>rp_paths := al_update a st' (rp_paths rp1)\<rparr>
      in prune_paths (emit_pending_resolve_requests None rp2))"

definition abandoned_path :: "instant \<Rightarrow> addr \<Rightarrow> remote_paths \<Rightarrow> remote_paths" where
  "abandoned_path now a rp =
     (case map_of (rp_paths rp) a of
        None \<Rightarrow> rp
      | Some st \<Rightarrow>
         (let rp1 = (if ps_status st = PS_Open then rp\<lparr>rp_metrics := count_removed a (rp_metrics rp)\<rparr> else rp);
              status = (case ps_status st of
                   PS_Open \<Rightarrow> PS_Inactive now
                 | PS_Inactive _ \<Rightarrow> PS_Inactive now
                 | PS_Unusable \<Rightarrow> PS_Unusable
                 | PS_Unknown \<Rightarrow> PS_Unusable)
          in rp1\<lparr>rp_paths := al_update a (st\<lparr>ps_status := status\<rparr>) (rp_paths rp1)\<rparr>))"

definition insert_addr :: "instant \<Rightarrow> source \<Rightarrow> addr \<Rightarrow> remote_paths \<Rightarrow> remote_paths" where
  "insert_addr now src a rp =
     (let st = path_entry a rp in
      rp\<lparr>rp_paths := al_update a (st\<lparr>ps_sources := al_update src now (ps_sources st)\<rparr>) (rp_paths rp)\<rparr>)"

definition insert_multiple :: "instant \<Rightarrow> addr list \<Rightarrow> source \<Rightarrow> remote_paths \<Rightarrow> remote_paths" where
  "insert_multiple now addrs src rp =
     (let was_empty = (rp_paths rp = []);
          rp1 = fold (insert_addr now src) addrs rp;
          rp2 = (if was_empty \<and> rp_paths rp1 \<noteq> [] then emit_pending_resolve_requests None rp1 else rp1)
      in prune_paths rp2)"

definition resolve_remote :: "nat \<Rightarrow> remote_paths \<Rightarrow> remote_paths" where
  "resolve_remote tx rp =
     (if rp_paths rp \<noteq> [] then rp\<lparr>rp_replies := rp_replies rp @ [(tx, Inr ())]\<rparr>
      else rp\<lparr>rp_pending := rp_pending rp @ [tx]\<rparr>)"

definition resolve_requests_is_empty :: "remote_paths \<Rightarrow> bool" where
  "resolve_requests_is_empty rp \<longleftrightarrow> rp_pending rp = []"

definition address_lookup_finished :: "address_lookup_failed + unit \<Rightarrow> remote_paths \<Rightarrow> remote_paths" where
  "address_lookup_finished result rp =
     emit_pending_resolve_requests (case result of Inl e \<Rightarrow> Some e | Inr _ \<Rightarrow> None) rp"

definition rp_addrs :: "remote_paths \<Rightarrow> addr list" where
  "rp_addrs rp = map fst (rp_paths rp)"

definition rp_is_empty :: "remote_paths \<Rightarrow> bool" where
  "rp_is_empty rp \<longleftrightarrow> rp_paths rp = []"

section \<open>What pruning removes\<close>

lemma inactive_select [simp]:
  "(case st of PS_Open \<Rightarrow> None | PS_Inactive t \<Rightarrow> Some (a, t) | PS_Unusable \<Rightarrow> None | PS_Unknown \<Rightarrow> None) = Some x
     \<longleftrightarrow> (\<exists>t. st = PS_Inactive t \<and> x = (a, t))"
  by (cases st) auto

lemma inactive_mem: "(a, t) \<in> set (inactive_paths ps) \<longleftrightarrow> (\<exists>st. (a, st) \<in> set ps \<and> ps_status st = PS_Inactive t)"
  by (force simp: inactive_paths_def mem_map_filter)

lemma failed_mem: "a \<in> set (failed_paths ps) \<longleftrightarrow> (\<exists>st. (a, st) \<in> set ps \<and> ps_status st = PS_Unusable)"
  by (force simp: failed_paths_def)

lemma inactive_paths_filter:
  "inactive_paths (filter (\<lambda>(a, _). Q a) ps) = filter (\<lambda>(a, _). Q a) (inactive_paths ps)"
  by (induction ps) (auto simp: inactive_paths_def List.map_filter_simps split: path_status.splits)

lemma inactive_paths_keys: "distinct (al_keys ps) \<Longrightarrow> distinct (al_keys (inactive_paths ps))"
proof (induction ps)
  case (Cons p ps)
  obtain a st where p: "p = (a, st)" by force
  have "a \<notin> fst ` set (inactive_paths ps)" using Cons.prems p inactive_mem by (force simp: image_iff)
  moreover have "inactive_paths (p # ps) =
      (case ps_status st of PS_Inactive t \<Rightarrow> (a, t) # inactive_paths ps | _ \<Rightarrow> inactive_paths ps)"
    by (cases "ps_status st") (simp_all add: p inactive_paths_def List.map_filter_simps)
  ultimately show ?case using Cons by (cases "ps_status st") auto
qed (simp add: inactive_paths_def List.map_filter_simps)

abbreviation non_relay :: "(addr \<times> path_state) list \<Rightarrow> (addr \<times> path_state) list" where
  "non_relay ps \<equiv> filter (\<lambda>(a, _). \<not> addr_is_relay a) ps"

text \<open>The inactive paths in the order of the pruning, and the part of them that goes.\<close>

definition inactive_sorted :: "(addr \<times> path_state) list \<Rightarrow> (addr \<times> instant) list" where
  "inactive_sorted ps = sort_key (\<lambda>p. - int (snd p)) (inactive_paths (non_relay ps))"

lemma must_prune_iff:
  "a \<in> set (must_prune ps) \<longleftrightarrow>
     a \<in> fst ` set (drop (length (inactive_sorted ps) - MAX_INACTIVE_NON_RELAY_PATHS) (inactive_sorted ps)) \<or>
     a \<in> set (if length (failed_paths (non_relay ps)) = length ps
       then take (length ps - MAX_NON_RELAY_PATHS) (failed_paths (non_relay ps)) else failed_paths (non_relay ps))"
  by (auto simp: must_prune_def inactive_sorted_def Let_def)

lemma must_prune_status:
  assumes "a \<in> set (must_prune ps)"
  shows "\<not> addr_is_relay a \<and> (\<exists>st. (a, st) \<in> set ps \<and> (ps_status st = PS_Unusable \<or> (\<exists>t. ps_status st = PS_Inactive t)))"
proof -
  have "set (drop n (inactive_sorted ps)) \<subseteq> set (inactive_paths (non_relay ps))" for n
    using set_drop_subset [of n "inactive_sorted ps"] by (simp add: inactive_sorted_def)
  moreover have "set (if b then take n (failed_paths (non_relay ps)) else failed_paths (non_relay ps))
      \<subseteq> set (failed_paths (non_relay ps))" for b n
    by (simp add: set_take_subset)
  ultimately have "a \<in> fst ` set (inactive_paths (non_relay ps)) \<or> a \<in> set (failed_paths (non_relay ps))"
    using assms unfolding must_prune_iff by blast
  then show ?thesis
  proof
    assume "a \<in> fst ` set (inactive_paths (non_relay ps))"
    then obtain t where "(a, t) \<in> set (inactive_paths (non_relay ps))" by auto
    then show ?thesis unfolding inactive_mem by auto
  next
    assume "a \<in> set (failed_paths (non_relay ps))"
    then show ?thesis unfolding failed_mem by auto
  qed
qed

text \<open>Relay paths, open paths and paths of unknown status stay.\<close>

lemma prune_keeps:
  assumes "distinct (al_keys ps)" "(a, st) \<in> set ps" "addr_is_relay a \<or> ps_status st = PS_Open \<or> ps_status st = PS_Unknown"
  shows "(a, st) \<in> set (prune_non_relay_paths ps)"
proof -
  have "st' = st" if "(a, st') \<in> set ps" for st'
    using that assms(1,2) by (metis map_of_eq_Some_iff option.inject)
  then have "a \<notin> set (must_prune ps)" using assms(3) must_prune_status by fastforce
  then show ?thesis using assms(2) by (auto simp: prune_non_relay_paths_def)
qed

lemma prune_subset: "set (prune_non_relay_paths ps) \<subseteq> set ps"
  by (auto simp: prune_non_relay_paths_def)

lemma prune_distinct: "distinct (al_keys ps) \<Longrightarrow> distinct (al_keys (prune_non_relay_paths ps))"
  by (auto simp: prune_non_relay_paths_def distinct_map_filter)

lemma key_unique: "distinct (al_keys ps) \<Longrightarrow> (a, x) \<in> set ps \<Longrightarrow> (a, y) \<in> set ps \<Longrightarrow> x = y"
  by (metis map_of_eq_Some_iff option.inject)

lemma inactive_not_failed:
  assumes "distinct (al_keys qs)" "(a, t) \<in> set (inactive_paths qs)"
  shows "a \<notin> set (failed_paths qs)"
  using assms key_unique [OF assms(1)] by (fastforce simp: inactive_mem failed_mem)

lemma filter_not_drop:
  assumes "distinct xs"
  shows "filter (\<lambda>p. p \<notin> set (drop n xs)) xs = take n xs"
proof -
  have "set (take n xs) \<inter> set (drop n xs) = {}" using assms by (rule set_take_disj_set_drop_if_distinct) simp
  then have "filter (\<lambda>p. p \<notin> set (drop n xs)) (take n xs @ drop n xs) = take n xs"
    unfolding filter_append by (subst filter_True, blast, subst filter_False, blast, simp)
  then show ?thesis by simp
qed

lemma al_keys_filter: "al_keys (filter (\<lambda>(a, _). Q a) ps) = filter Q (al_keys ps)"
  by (induction ps) auto

lemma filter_not_take:
  assumes "distinct xs"
  shows "filter (\<lambda>p. p \<notin> set (take n xs)) xs = drop n xs"
proof -
  have "set (take n xs) \<inter> set (drop n xs) = {}" using assms by (rule set_take_disj_set_drop_if_distinct) simp
  then have "filter (\<lambda>p. p \<notin> set (take n xs)) (take n xs @ drop n xs) = drop n xs"
    unfolding filter_append by (subst filter_False, blast, subst filter_True, blast, simp)
  then show ?thesis by simp
qed

lemma inactive_sorted_props:
  assumes "distinct (al_keys ps)"
  shows "mset (inactive_sorted ps) = mset (inactive_paths (non_relay ps))" "distinct (al_keys (inactive_sorted ps))"
    "distinct (al_keys (non_relay ps))"
proof -
  show ms: "mset (inactive_sorted ps) = mset (inactive_paths (non_relay ps))" by (simp add: inactive_sorted_def)
  show d: "distinct (al_keys (non_relay ps))" using assms by (simp add: distinct_map_filter)
  show "distinct (al_keys (inactive_sorted ps))"
    using inactive_paths_keys [OF d] ms by (metis mset_eq_imp_distinct_iff mset_map)
qed

lemma must_prune_inactive:
  assumes d: "distinct (al_keys ps)" and p: "p \<in> set (inactive_sorted ps)"
  shows "fst p \<in> set (must_prune ps) \<longleftrightarrow>
    p \<in> set (drop (length (inactive_sorted ps) - MAX_INACTIVE_NON_RELAY_PATHS) (inactive_sorted ps))"
    (is "_ \<longleftrightarrow> p \<in> set ?old")
proof -
  obtain a t where at: "p = (a, t)" by force
  have "(a, t) \<in> set (inactive_paths (non_relay ps))" using p at by (simp add: inactive_sorted_def)
  then have "a \<notin> set (failed_paths (non_relay ps))" by (rule inactive_not_failed [OF inactive_sorted_props(3) [OF d]])
  then have "a \<in> set (must_prune ps) \<longleftrightarrow> a \<in> fst ` set ?old"
    unfolding must_prune_iff by (auto dest: in_set_takeD)
  also have "\<dots> \<longleftrightarrow> p \<in> set ?old"
  proof
    assume "a \<in> fst ` set ?old"
    then obtain t' where t': "(a, t') \<in> set ?old" by auto
    have "t' = t"
      using key_unique [OF inactive_sorted_props(2) [OF d]] in_set_dropD [OF t'] p at by blast
    then show "p \<in> set ?old" using t' at by simp
  qed (simp add: at rev_image_eqI)
  finally show ?thesis using at by simp
qed

text \<open>
  From 30 non-relay paths on, the ten inactive paths closed longest ago go, or all if there are
  no more than ten.
\<close>

lemma prune_inactive:
  assumes d: "distinct (al_keys ps)" and many: "MAX_NON_RELAY_PATHS \<le> length (non_relay ps)"
  shows "mset (inactive_paths (non_relay (prune_non_relay_paths ps))) =
    mset (take (length (inactive_sorted ps) - MAX_INACTIVE_NON_RELAY_PATHS) (inactive_sorted ps))"
proof -
  let ?gone = "\<lambda>(a, _). a \<notin> set (must_prune ps)" and ?S = "inactive_sorted ps"
  have "MAX_NON_RELAY_PATHS \<le> length ps" using le_trans [OF many length_filter_le] .
  then have pr: "prune_non_relay_paths ps = filter ?gone ps"
    using many by (simp add: prune_non_relay_paths_def)
  have "inactive_paths (non_relay (prune_non_relay_paths ps)) = filter ?gone (inactive_paths (non_relay ps))"
    unfolding pr inactive_paths_filter by (simp add: filter_filter conj_commute)
  then have "mset (inactive_paths (non_relay (prune_non_relay_paths ps))) = mset (filter ?gone ?S)"
    by (simp add: inactive_sorted_props(1) [OF d])
  also have "filter ?gone ?S =
      filter (\<lambda>p. p \<notin> set (drop (length ?S - MAX_INACTIVE_NON_RELAY_PATHS) ?S)) ?S"
    using must_prune_inactive [OF d] by (intro filter_cong) auto
  also have "\<dots> = take (length ?S - MAX_INACTIVE_NON_RELAY_PATHS) ?S"
    using inactive_sorted_props(2) [OF d] by (intro filter_not_drop) (simp add: distinct_map)
  finally show ?thesis .
qed

lemma prune_inactive_count:
  assumes "distinct (al_keys ps)" "MAX_NON_RELAY_PATHS \<le> length (non_relay ps)"
  shows "length (inactive_paths (non_relay (prune_non_relay_paths ps))) =
    length (inactive_paths (non_relay ps)) - MAX_INACTIVE_NON_RELAY_PATHS"
  using arg_cong [OF prune_inactive [OF assms], of "size"] by (simp add: inactive_sorted_def)

text \<open>What was closed more recently than a path that stays, stays.\<close>

lemma prune_inactive_recent:
  assumes d: "distinct (al_keys ps)" and many: "MAX_NON_RELAY_PATHS \<le> length (non_relay ps)"
    and kept: "(a, t) \<in> set (inactive_paths (non_relay (prune_non_relay_paths ps)))"
    and gone: "(b, u) \<in> set (inactive_paths (non_relay ps))"
      "(b, u) \<notin> set (inactive_paths (non_relay (prune_non_relay_paths ps)))"
  shows "u \<le> t"
proof -
  let ?S = "inactive_sorted ps" and ?n = "length (inactive_sorted ps) - MAX_INACTIVE_NON_RELAY_PATHS"
  have k: "set (inactive_paths (non_relay (prune_non_relay_paths ps))) = set (take ?n ?S)"
    using prune_inactive [OF d many] by (metis set_mset_mset)
  have "sorted (map (\<lambda>p. - int (snd p)) (take ?n ?S @ drop ?n ?S))"
    by (simp only: append_take_drop_id) (simp add: inactive_sorted_def)
  then have "\<forall>x \<in> set (take ?n ?S). \<forall>y \<in> set (drop ?n ?S). - int (snd x) \<le> - int (snd y)"
    unfolding map_append sorted_append by auto
  moreover have "(b, u) \<in> set (drop ?n ?S)"
    using gone k inactive_sorted_props(1) [OF d] by (metis Un_iff append_take_drop_id set_append set_mset_mset)
  ultimately show ?thesis using kept k by fastforce
qed

text \<open>Failed paths all go, unless nothing else is known: then 30 of them stay.\<close>

lemma prune_failed:
  assumes d: "distinct (al_keys ps)" and many: "MAX_NON_RELAY_PATHS \<le> length (non_relay ps)"
  shows "if length (failed_paths (non_relay ps)) = length ps
    then length (prune_non_relay_paths ps) = MAX_NON_RELAY_PATHS
    else failed_paths (non_relay (prune_non_relay_paths ps)) = []"
proof -
  have le: "MAX_NON_RELAY_PATHS \<le> length ps" using le_trans [OF many length_filter_le] .
  then have pr: "prune_non_relay_paths ps = filter (\<lambda>(a, _). a \<notin> set (must_prune ps)) ps"
    using many by (simp add: prune_non_relay_paths_def)
  show ?thesis
  proof (cases "length (failed_paths (non_relay ps)) = length ps")
    case True
    let ?P = "\<lambda>p. \<not> addr_is_relay (fst p) \<and> ps_status (snd p) = PS_Unusable"
    have "length (filter ?P ps) = length ps"
      using True by (simp add: failed_paths_def filter_filter case_prod_beta)
    then have all: "\<forall>(a, st) \<in> set ps. \<not> addr_is_relay a \<and> ps_status st = PS_Unusable"
      using length_filter_less [of _ ps ?P] by fastforce
    then have nr: "non_relay ps = ps" by (auto simp: filter_id_conv)
    have f: "failed_paths ps = map fst ps"
      using all by (auto simp: failed_paths_def intro!: arg_cong [of _ _ "map fst"] filter_True)
    have "(a, t) \<notin> set (inactive_paths ps)" for a t
      using all unfolding inactive_mem by fastforce
    then have "inactive_paths ps = []" by (metis last_in_set surj_pair)
    then have none: "inactive_sorted ps = []" by (simp add: inactive_sorted_def nr)
    have mp: "set (must_prune ps) = set (take (length ps - MAX_NON_RELAY_PATHS) (map fst ps))"
      using True by (auto simp: must_prune_iff none nr f)
    let ?n = "length ps - MAX_NON_RELAY_PATHS"
    have "map fst (prune_non_relay_paths ps) = filter (\<lambda>a. a \<notin> set (take ?n (map fst ps))) (map fst ps)"
      unfolding pr mp by (rule al_keys_filter)
    also have "\<dots> = drop ?n (map fst ps)"
      using d by (rule filter_not_take)
    finally show ?thesis using True le by (metis diff_diff_cancel length_drop length_map)
  next
    case False
    then have "a \<in> set (must_prune ps)" if "a \<in> set (failed_paths (non_relay ps))" for a
      using that by (simp add: must_prune_iff)
    then have "a \<notin> set (failed_paths (non_relay (prune_non_relay_paths ps)))" for a
      unfolding pr by (auto simp: failed_mem)
    then have "failed_paths (non_relay (prune_non_relay_paths ps)) = []" by (metis last_in_set)
    then show ?thesis using False by simp
  qed
qed

section \<open>Requests\<close>

text \<open>A request waits only while no path is known, and every request is waiting or answered once.\<close>

definition rp_inv :: "remote_paths \<Rightarrow> bool" where
  "rp_inv rp \<longleftrightarrow> distinct (al_keys (rp_paths rp)) \<and> (rp_paths rp \<noteq> [] \<longrightarrow> rp_pending rp = [])"

definition rp_requests :: "remote_paths \<Rightarrow> nat multiset" where
  "rp_requests rp = mset (map fst (rp_replies rp)) + mset (rp_pending rp)"

lemma rp_inv_new [simp]: "rp_inv remote_paths_new" "rp_requests remote_paths_new = {#}"
  by (simp_all add: rp_inv_def rp_requests_def remote_paths_new_def)

lemma emit_props:
  "rp_pending (emit_pending_resolve_requests e rp) = []"
  "rp_paths (emit_pending_resolve_requests e rp) = rp_paths rp"
  "rp_requests (emit_pending_resolve_requests e rp) = rp_requests rp"
  by (simp_all add: emit_pending_resolve_requests_def rp_requests_def Let_def image_mset.compositionality comp_def)

lemma prune_props:
  "rp_pending (prune_paths rp) = rp_pending rp" "rp_requests (prune_paths rp) = rp_requests rp"
  "rp_inv rp \<Longrightarrow> rp_inv (prune_paths rp)"
proof -
  show "rp_pending (prune_paths rp) = rp_pending rp" "rp_requests (prune_paths rp) = rp_requests rp"
    by (simp_all add: prune_paths_def rp_requests_def)
  have "rp_paths rp = [] \<Longrightarrow> prune_non_relay_paths (rp_paths rp) = []" by (simp add: prune_non_relay_paths_def)
  then show "rp_inv rp \<Longrightarrow> rp_inv (prune_paths rp)" by (auto simp: rp_inv_def prune_paths_def prune_distinct)
qed

lemma insert_addrs_props:
  "distinct (al_keys (rp_paths rp)) \<Longrightarrow> distinct (al_keys (rp_paths (fold (insert_addr now src) as rp)))"
  "rp_pending (fold (insert_addr now src) as rp) = rp_pending rp"
  "rp_replies (fold (insert_addr now src) as rp) = rp_replies rp"
  by (induction as arbitrary: rp) (simp_all add: insert_addr_def Let_def)

lemma emit_inv: "distinct (al_keys (rp_paths rp)) \<Longrightarrow> rp_inv (emit_pending_resolve_requests e rp)"
  by (simp add: rp_inv_def emit_props)

lemma rp_ops_inv:
  assumes "rp_inv rp"
  shows "rp_inv (insert_open_path now a src rp)" "rp_inv (abandoned_path now a rp)"
    "rp_inv (insert_multiple now as src rp)" "rp_inv (resolve_remote tx rp)" "rp_inv (address_lookup_finished r rp)"
proof -
  show "rp_inv (insert_open_path now a src rp)"
    unfolding insert_open_path_def Let_def
    by (intro prune_props(3) emit_inv) (use assms in \<open>simp add: rp_inv_def\<close>)
  show "rp_inv (abandoned_path now a rp)"
    using assms by (auto simp: abandoned_path_def Let_def rp_inv_def split: option.splits)
  show "rp_inv (insert_multiple now as src rp)"
  proof -
    let ?rp = "fold (insert_addr now src) as rp"
    have d: "distinct (al_keys (rp_paths ?rp))" using assms by (simp add: rp_inv_def insert_addrs_props)
    have "rp_inv (if rp_paths rp = [] \<and> rp_paths ?rp \<noteq> [] then emit_pending_resolve_requests None ?rp else ?rp)"
      using assms d emit_inv [OF d] by (auto simp: rp_inv_def insert_addrs_props)
    then show ?thesis unfolding insert_multiple_def Let_def by (rule prune_props(3))
  qed
  show "rp_inv (resolve_remote tx rp)" using assms by (auto simp: resolve_remote_def rp_inv_def)
  show "rp_inv (address_lookup_finished r rp)"
    using assms by (auto simp: address_lookup_finished_def emit_props rp_inv_def)
qed

lemma rp_ops_requests:
  "rp_requests (insert_open_path now a src rp) = rp_requests rp"
  "rp_requests (abandoned_path now a rp) = rp_requests rp"
  "rp_requests (insert_multiple now as src rp) = rp_requests rp"
  "rp_requests (resolve_remote tx rp) = add_mset tx (rp_requests rp)"
  "rp_requests (address_lookup_finished r rp) = rp_requests rp"
proof -
  show "rp_requests (insert_open_path now a src rp) = rp_requests rp"
    by (simp add: insert_open_path_def Let_def prune_props emit_props) (simp add: rp_requests_def)
  show "rp_requests (abandoned_path now a rp) = rp_requests rp"
    by (auto simp: abandoned_path_def Let_def rp_requests_def split: option.splits)
  show "rp_requests (insert_multiple now as src rp) = rp_requests rp"
    by (simp add: insert_multiple_def Let_def prune_props emit_props) (simp add: rp_requests_def insert_addrs_props)
  show "rp_requests (resolve_remote tx rp) = add_mset tx (rp_requests rp)"
    by (simp add: resolve_remote_def rp_requests_def)
  show "rp_requests (address_lookup_finished r rp) = rp_requests rp"
    by (simp add: address_lookup_finished_def emit_props)
qed

end
