(* ===== verification/Path_Watcher.thy ===== *)
theory Path_Watcher
  imports Four_Tuple
begin

text \<open>
  What a connection shows of its paths
  (\<open>iroh/src/socket/remote_map/remote_state/path_watcher.rs\<close>): the list of open paths with the selected
  one, and the events sent to subscribers. Path statistics are opaque numbers. Lemmas: a subscriber
  that replays the events knows the open paths, and knows the selected path whenever there is one.
\<close>

type_synonym path_id = nat

datatype path_event =
    Ev_Opened path_id transport_addr local_transport_addr
  | Ev_Closed path_id transport_addr local_transport_addr nat
  | Ev_Selected path_id transport_addr local_transport_addr

type_synonym path_data = "path_id \<times> transport_addr \<times> local_transport_addr"

record path_watch =
  pw_list :: "path_data list"
  pw_selected :: "path_id option"
  pw_closed :: bool
  pw_events :: "path_event list"

definition path_watch_new :: path_watch where
  "path_watch_new = \<lparr>pw_list = [], pw_selected = None, pw_closed = False, pw_events = []\<rparr>"

definition record_opened :: "path_id \<Rightarrow> four_tuple \<Rightarrow> path_watch \<Rightarrow> path_watch" where
  "record_opened i network_path w =
     (let remote_addr = addr_to_transport (ft_remote network_path);
          local_addr = ft_local network_path
      in w\<lparr>pw_list := al_update i (remote_addr, local_addr) (pw_list w),
           pw_events := pw_events w @ [Ev_Opened i remote_addr local_addr]\<rparr>)"

definition record_abandoned :: "path_id \<Rightarrow> nat \<Rightarrow> path_watch \<Rightarrow> path_watch" where
  "record_abandoned i stats w =
     (let w1 = (if pw_selected w = Some i then w\<lparr>pw_selected := None\<rparr> else w) in
      case map_of (pw_list w1) i of
        None \<Rightarrow> w1
      | Some (remote_addr, local_addr) \<Rightarrow>
          w1\<lparr>pw_list := al_remove i (pw_list w1),
             pw_events := pw_events w1 @ [Ev_Closed i remote_addr local_addr stats]\<rparr>)"

definition record_selected :: "four_tuple \<Rightarrow> path_watch \<Rightarrow> path_watch" where
  "record_selected network_path w =
     (let remote_addr = addr_to_transport (ft_remote network_path);
          local_addr = ft_local network_path;
          selected_path_id = map_option fst (find (\<lambda>(_, r, l). r = remote_addr \<and> l = local_addr) (pw_list w))
      in if selected_path_id \<noteq> pw_selected w
         then w\<lparr>pw_selected := selected_path_id,
                pw_events := pw_events w @
                  (case selected_path_id of None \<Rightarrow> [] | Some i \<Rightarrow> [Ev_Selected i remote_addr local_addr])\<rparr>
         else w)"

text \<open>A path without final statistics is left out of the closing events.\<close>

definition watch_close :: "(path_id \<times> nat) list \<Rightarrow> path_watch \<Rightarrow> path_watch" where
  "watch_close path_stats w =
     (if pw_closed w then w
      else w\<lparr>pw_events := pw_events w @
               List.map_filter (\<lambda>(i, r, l). map_option (Ev_Closed i r l) (map_of path_stats i)) (pw_list w),
             pw_closed := True\<rparr>)"

definition watch_drop :: "path_watch \<Rightarrow> path_watch" where
  "watch_drop w = w\<lparr>pw_closed := True\<rparr>"

section \<open>Replaying the events\<close>

fun replay_paths :: "path_event \<Rightarrow> path_data list \<Rightarrow> path_data list" where
  "replay_paths (Ev_Opened i r l) ps = al_update i (r, l) ps"
| "replay_paths (Ev_Closed i _ _ _) ps = al_remove i ps"
| "replay_paths (Ev_Selected _ _ _) ps = ps"

fun replay_selected :: "path_event \<Rightarrow> path_id option \<Rightarrow> path_id option" where
  "replay_selected (Ev_Opened _ _ _) s = s"
| "replay_selected (Ev_Closed i _ _ _) s = (if s = Some i then None else s)"
| "replay_selected (Ev_Selected i _ _) s = Some i"

datatype watch_op = W_Opened path_id four_tuple | W_Abandoned path_id nat | W_Selected four_tuple

fun watch_apply :: "watch_op \<Rightarrow> path_watch \<Rightarrow> path_watch" where
  "watch_apply (W_Opened i ft) = record_opened i ft"
| "watch_apply (W_Abandoned i st) = record_abandoned i st"
| "watch_apply (W_Selected ft) = record_selected ft"

definition watch_inv :: "path_watch \<Rightarrow> bool" where
  "watch_inv w \<longleftrightarrow>
     distinct (al_keys (pw_list w)) \<and>
     (\<forall>i. pw_selected w = Some i \<longrightarrow> i \<in> fst ` set (pw_list w)) \<and>
     fold replay_paths (pw_events w) [] = pw_list w \<and>
     (\<forall>i. pw_selected w = Some i \<longrightarrow> fold replay_selected (pw_events w) None = Some i)"

lemma watch_inv_new: "watch_inv path_watch_new"
  by (simp add: watch_inv_def path_watch_new_def)

lemma record_opened_inv: "watch_inv w \<Longrightarrow> watch_inv (record_opened i ft w)"
  by (auto simp: watch_inv_def record_opened_def Let_def)

lemma record_abandoned_inv:
  assumes "watch_inv w"
  shows "watch_inv (record_abandoned i st w)"
proof (cases "map_of (pw_list w) i")
  case None
  then have "pw_selected w \<noteq> Some i" using assms by (auto simp: watch_inv_def map_of_eq_None_iff)
  then show ?thesis using assms None by (simp add: record_abandoned_def Let_def)
next
  case (Some p)
  obtain r l where p: "p = (r, l)" by force
  have keys: "fst ` set (al_remove i (pw_list w)) = fst ` set (pw_list w) - {i}"
    by (auto simp: al_remove_entries)
  show ?thesis
    using assms Some p by (auto simp: watch_inv_def record_abandoned_def Let_def keys)
qed

lemma record_selected_inv:
  assumes "watch_inv w"
  shows "watch_inv (record_selected ft w)"
proof -
  have "i \<in> fst ` set (pw_list w)" if "map_option fst (find P (pw_list w)) = Some i" for i P
    using that by (auto simp: find_Some_iff) (metis fst_conv image_eqI nth_mem)
  then show ?thesis
    using assms unfolding watch_inv_def record_selected_def Let_def
    by (auto split: option.splits)
qed

lemma watch_apply_inv: "watch_inv w \<Longrightarrow> watch_inv (watch_apply op w)"
  by (cases op) (simp_all add: record_opened_inv record_abandoned_inv record_selected_inv)

lemma watch_run_inv: "watch_inv w \<Longrightarrow> watch_inv (fold watch_apply ops w)"
  by (induction ops arbitrary: w) (simp_all add: watch_apply_inv)

text \<open>After selecting a path the selected id is a path with these addresses, if there is one.\<close>

lemma record_selected_result:
  "pw_selected (record_selected ft w) =
     map_option fst (find (\<lambda>(_, r, l). r = addr_to_transport (ft_remote ft) \<and> l = ft_local ft) (pw_list w))"
  by (simp add: record_selected_def Let_def)

end
