(* ===== verification/Remote_State.thy ===== *)
theory Remote_State
  imports Path_Selector Path_State Path_Watcher
begin

text \<open>
  The actor that manages the paths to one remote endpoint
  (\<open>iroh/src/socket/remote_map/remote_state.rs\<close>). The QUIC implementation is third-party code: a
  handler reads a snapshot of the live connections (\<open>noq_world\<close>: side, paths, statistics, NAT
  traversal addresses, the answer to an attempt to open a path) and appends the calls it makes on
  them to a log of commands. The path selector is a parameter. Lemmas: what the handlers keep of the
  state, who opens and closes paths, and when hole punching happens.
\<close>

definition HOLEPUNCH_ATTEMPTS_INTERVAL :: duration where "HOLEPUNCH_ATTEMPTS_INTERVAL = from_secs 5"
definition GOOD_ENOUGH_LATENCY :: duration where "GOOD_ENOUGH_LATENCY = from_millis 10"
definition RELAY_PATH_MAX_IDLE_TIMEOUT :: duration where "RELAY_PATH_MAX_IDLE_TIMEOUT = from_secs 30"

section \<open>The QUIC connections\<close>

type_synonym conn_id = nat
type_synonym noq_four_tuple = "socket_addr \<times> ip_addr option"

datatype quic_status = Status_Available | Status_Backup

datatype open_result = Opening path_id | Open_RemoteCidsExhausted | Open_MaxPathIdReached | Open_OtherError

datatype nat_error =
    Nat_Closed | Nat_TooManyAddresses | Nat_WrongConnectionSide | Nat_ExtensionNotNegotiated
  | Nat_Multipath | Nat_NotEnoughAddresses

record noq_conn =
  nc_client :: bool
  nc_paths :: "(path_id \<times> noq_four_tuple option) list"
  nc_rtt :: "(path_id \<times> duration) list"
  nc_stats :: "path_id \<Rightarrow> nat"
  nc_open :: "noq_four_tuple \<Rightarrow> open_result"
  nc_remote_nat :: "unit + socket_addr list"
  nc_local_nat :: "unit + socket_addr list"
  nc_nat_round :: "nat_error + socket_addr list"

type_synonym noq_world = "(conn_id \<times> noq_conn) list"

datatype cmd =
    Cmd_SetStatus conn_id path_id quic_status
  | Cmd_SetIdleTimeout conn_id path_id duration
  | Cmd_ClosePath conn_id path_id
  | Cmd_OpenPath conn_id noq_four_tuple quic_status
  | Cmd_Ping conn_id path_id
  | Cmd_AddNat conn_id socket_addr
  | Cmd_RemoveNat conn_id socket_addr
  | Cmd_NatRound conn_id
  | Cmd_Send four_tuple bytes

section \<open>State\<close>

record holepunch_attempt =
  hp_when :: instant
  hp_local :: "socket_addr list"
  hp_remote :: "socket_addr list"

record conn_state =
  cs_paths :: "(path_id \<times> four_tuple) list"
  cs_watch :: path_watch
  cs_direct :: bool

record socket_metrics =
  num_conns_opened :: nat
  num_conns_closed :: nat
  num_conns_direct :: nat
  paths_direct :: nat
  paths_relay :: nat
  paths_custom :: nat
  holepunch_attempts :: nat

record remote_state =
  rs_endpoint_id :: bytes
  rs_paths :: remote_paths
  rs_mapped :: mapped_addrs
  rs_local_addrs :: "socket_addr list"
  rs_last_holepunch :: "holepunch_attempt option"
  rs_scheduled_holepunch :: "instant option"
  rs_scheduled_open_path :: "instant option"
  rs_pending_open_paths :: "four_tuple list"
  rs_selected_path :: "four_tuple option"
  rs_lookup_running :: bool
  rs_metrics :: socket_metrics
  rs_cmds :: "cmd list"

record remote_actor =
  ra_conns :: "(conn_id \<times> conn_state) list"
  ra_state :: remote_state
  ra_closed :: "path_watch list"

definition remote_actor_new :: "bytes \<Rightarrow> mapped_addrs \<Rightarrow> socket_addr list \<Rightarrow> remote_actor" where
  "remote_actor_new endpoint_id mapped local_addrs =
     \<lparr>ra_conns = [],
      ra_state = \<lparr>rs_endpoint_id = endpoint_id, rs_paths = remote_paths_new, rs_mapped = mapped,
        rs_local_addrs = local_addrs, rs_last_holepunch = None, rs_scheduled_holepunch = None,
        rs_scheduled_open_path = None, rs_pending_open_paths = [], rs_selected_path = None,
        rs_lookup_running = False,
        rs_metrics = \<lparr>num_conns_opened = 0, num_conns_closed = 0, num_conns_direct = 0, paths_direct = 0,
          paths_relay = 0, paths_custom = 0, holepunch_attempts = 0\<rparr>,
        rs_cmds = []\<rparr>,
      ra_closed = []\<rparr>"

definition emit :: "cmd list \<Rightarrow> remote_state \<Rightarrow> remote_state" where
  "emit cs s = s\<lparr>rs_cmds := rs_cmds s @ cs\<rparr>"

section \<open>Operations on the state\<close>

definition path_status_for_addr :: "remote_state \<Rightarrow> four_tuple \<Rightarrow> quic_status" where
  "path_status_for_addr s a = (if Some a = rs_selected_path s then Status_Available else Status_Backup)"

definition transport_tuple_for_path :: "remote_state \<Rightarrow> noq_four_tuple option \<Rightarrow> four_tuple option" where
  "transport_tuple_for_path s p = Option.bind p (\<lambda>q. ft_from_noq q (rs_mapped s))"

definition set_path_status :: "conn_id \<Rightarrow> path_id \<Rightarrow> four_tuple \<Rightarrow> remote_state \<Rightarrow> remote_state" where
  "set_path_status cid i network_path s = emit [Cmd_SetStatus cid i (path_status_for_addr s network_path)] s"

definition open_path_on_conn ::
  "instant \<Rightarrow> conn_id \<Rightarrow> conn_state \<Rightarrow> noq_conn \<Rightarrow> four_tuple \<Rightarrow> remote_state \<Rightarrow> remote_state" where
  "open_path_on_conn now cid cs conn open_addr s =
     (if \<not> nc_client conn then s
      else if open_addr \<in> set (map snd (cs_paths cs)) then s
      else
        let (quic_addr, mapped) = ft_to_noq open_addr (rs_mapped s);
            s1 = emit [Cmd_OpenPath cid quic_addr (path_status_for_addr s open_addr)] (s\<lparr>rs_mapped := mapped\<rparr>)
        in case nc_open conn quic_addr of
             Opening _ \<Rightarrow> s1
           | Open_OtherError \<Rightarrow> s1
           | _ \<Rightarrow> s1\<lparr>rs_scheduled_open_path := Some (now + from_millis 333),
                    rs_pending_open_paths := rs_pending_open_paths s1 @ [open_addr]\<rparr>)"

text \<open>A new path is shown to the watchers if the connection still has it.\<close>

definition add_open_path ::
  "four_tuple \<Rightarrow> path_id \<Rightarrow> noq_conn option \<Rightarrow> conn_state \<Rightarrow> socket_metrics \<Rightarrow> conn_state \<times> socket_metrics" where
  "add_open_path network_path i conn cs m =
     (let m1 = (case network_path of
            FT_Ip _ _ \<Rightarrow> m\<lparr>paths_direct := paths_direct m + 1\<rparr>
          | FT_Relay _ _ \<Rightarrow> m\<lparr>paths_relay := paths_relay m + 1\<rparr>
          | FT_Custom _ _ \<Rightarrow> m\<lparr>paths_custom := paths_custom m + 1\<rparr>);
          first = (\<not> cs_direct cs \<and> ft_is_ip network_path);
          m2 = (if first then m1\<lparr>num_conns_direct := num_conns_direct m1 + 1\<rparr> else m1);
          cs1 = cs\<lparr>cs_direct := cs_direct cs \<or> first, cs_paths := al_update i network_path (cs_paths cs)\<rparr>;
          shown = (case conn of Some c \<Rightarrow> i \<in> fst ` set (nc_paths c) | None \<Rightarrow> False)
      in (if shown then cs1\<lparr>cs_watch := record_opened i network_path (cs_watch cs1)\<rparr> else cs1, m2))"

definition remove_path :: "path_id \<Rightarrow> noq_conn \<Rightarrow> conn_state \<Rightarrow> four_tuple option \<times> conn_state" where
  "remove_path i conn cs =
     (case map_of (cs_paths cs) i of
        None \<Rightarrow> (None, cs)
      | Some a \<Rightarrow> (Some a, cs\<lparr>cs_paths := al_remove i (cs_paths cs),
                              cs_watch := record_abandoned i (nc_stats conn i) (cs_watch cs)\<rparr>))"

definition register_and_configure_path ::
  "instant \<Rightarrow> conn_id \<Rightarrow> conn_state \<Rightarrow> noq_conn \<Rightarrow> path_id \<Rightarrow> noq_four_tuple option \<Rightarrow> remote_state
     \<Rightarrow> four_tuple option \<times> conn_state \<times> remote_state" where
  "register_and_configure_path now cid cs conn i path s =
     (case transport_tuple_for_path s path of
        None \<Rightarrow> (None, cs, s)
      | Some network_path \<Rightarrow>
          let (cs1, m) = add_open_path network_path i (Some conn) cs (rs_metrics s);
              s1 = s\<lparr>rs_metrics := m\<rparr>;
              s2 = (if ft_is_relay network_path
                    then emit [Cmd_SetIdleTimeout cid i RELAY_PATH_MAX_IDLE_TIMEOUT] s1 else s1);
              s3 = set_path_status cid i network_path s2;
              s4 = s3\<lparr>rs_paths := insert_open_path now (ft_remote network_path) Source_Connection (rs_paths s3)\<rparr>
          in (Some network_path, cs1, s4))"

definition update_qnt_candidates :: "conn_id \<Rightarrow> noq_conn \<Rightarrow> socket_addr list \<Rightarrow> remote_state \<Rightarrow> remote_state" where
  "update_qnt_candidates cid conn direct_addrs s =
     (case nc_local_nat conn of
        Inl _ \<Rightarrow> s
      | Inr noq_candidates \<Rightarrow>
          emit (map (Cmd_AddNat cid) (filter (\<lambda>a. a \<notin> set noq_candidates) (remdups direct_addrs)) @
                map (Cmd_RemoveNat cid) (filter (\<lambda>a. a \<notin> set direct_addrs) (remdups noq_candidates))) s)"

definition canonical_socket :: "socket_addr \<Rightarrow> socket_addr" where
  "canonical_socket s =
     (case socket_ip s of
        IpV4 _ \<Rightarrow> socket_addr_new (socket_ip s) (socket_port s)
      | IpV6 v \<Rightarrow> socket_addr_new (to_canonical v) (socket_port s))"

definition do_holepunching :: "instant \<Rightarrow> conn_id \<Rightarrow> noq_conn \<Rightarrow> remote_state \<Rightarrow> remote_state" where
  "do_holepunching now cid conn s =
     (let m = rs_metrics s;
          s1 = emit [Cmd_NatRound cid] (s\<lparr>rs_metrics := m\<lparr>holepunch_attempts := holepunch_attempts m + 1\<rparr>\<rparr>)
      in case nc_nat_round conn of
           Inr remote_candidates \<Rightarrow>
             s1\<lparr>rs_last_holepunch := Some \<lparr>hp_when = now, hp_local = rs_local_addrs s,
                  hp_remote = map canonical_socket remote_candidates\<rparr>\<rparr>
         | Inl err \<Rightarrow>
             if err = Nat_Multipath \<or> err = Nat_NotEnoughAddresses
             then s1\<lparr>rs_scheduled_holepunch := Some (now + from_millis 100)\<rparr>
             else s1)"

section \<open>Handlers of the actor\<close>

text \<open>Connections in the order of the map; a connection that is gone has no snapshot.\<close>

definition live_conns :: "noq_world \<Rightarrow> remote_actor \<Rightarrow> (conn_id \<times> conn_state \<times> noq_conn) list" where
  "live_conns W a =
     List.map_filter (\<lambda>(cid, cs). map_option (\<lambda>c. (cid, cs, c)) (map_of W cid)) (ra_conns a)"

definition client_conn :: "noq_world \<Rightarrow> remote_actor \<Rightarrow> (conn_id \<times> noq_conn) option" where
  "client_conn W a =
     (let ids = map fst (filter (\<lambda>(_, _, c). nc_client c) (live_conns W a)) in
      if ids = [] then None
      else map_option (\<lambda>c. (Min (set ids), c)) (map_of W (Min (set ids))))"

definition new_candidates :: "remote_state \<Rightarrow> socket_addr list \<Rightarrow> bool" where
  "new_candidates s remote_candidates \<longleftrightarrow>
     (case rs_last_holepunch s of
        None \<Rightarrow> True
      | Some hp \<Rightarrow> \<not> set remote_candidates \<subseteq> set (hp_remote hp) \<or> \<not> set (rs_local_addrs s) \<subseteq> set (hp_local hp))"

definition trigger_holepunching :: "instant \<Rightarrow> noq_world \<Rightarrow> remote_actor \<Rightarrow> remote_actor" where
  "trigger_holepunching now W a =
     (case client_conn W a of
        None \<Rightarrow> a
      | Some (cid, conn) \<Rightarrow>
          case nc_remote_nat conn of
            Inl _ \<Rightarrow> a
          | Inr remote_candidates \<Rightarrow>
              let s = ra_state a in
              case rs_last_holepunch s of
                Some hp \<Rightarrow>
                  if \<not> new_candidates s remote_candidates \<and> hp_when hp + HOLEPUNCH_ATTEMPTS_INTERVAL > now
                  then a\<lparr>ra_state := s\<lparr>rs_scheduled_holepunch := Some (hp_when hp + HOLEPUNCH_ATTEMPTS_INTERVAL)\<rparr>\<rparr>
                  else a\<lparr>ra_state := do_holepunching now cid conn s\<rparr>
              | None \<Rightarrow> a\<lparr>ra_state := do_holepunching now cid conn s\<rparr>)"

definition selection_paths :: "noq_world \<Rightarrow> remote_actor \<Rightarrow> candidate list" where
  "selection_paths W a =
     concat (map (\<lambda>(cid, cs, c). map (\<lambda>(i, ft). (ft, map_of (nc_rtt c) i)) (cs_paths cs)) (live_conns W a))"

definition redundant_path :: "four_tuple \<Rightarrow> conn_state \<Rightarrow> noq_conn \<Rightarrow> four_tuple \<Rightarrow> bool" where
  "redundant_path selected cs conn ft \<longleftrightarrow>
     nc_client conn \<and> ft_is_ip ft \<and> ft \<noteq> selected \<and>
     length (filter (\<lambda>(_, f). ft_is_ip f) (cs_paths cs)) > 1"

definition apply_to_path ::
  "four_tuple \<Rightarrow> conn_id \<Rightarrow> conn_state \<Rightarrow> noq_conn \<Rightarrow> path_id \<times> four_tuple \<Rightarrow> remote_state \<Rightarrow> remote_state" where
  "apply_to_path selected cid cs conn p s =
     (case p of (i, ft) \<Rightarrow>
        if i \<notin> fst ` set (nc_paths conn) then s
        else if redundant_path selected cs conn ft then emit [Cmd_ClosePath cid i] s
        else set_path_status cid i ft s)"

definition apply_to_conn ::
  "instant \<Rightarrow> noq_world \<Rightarrow> four_tuple \<Rightarrow> conn_id \<times> conn_state \<Rightarrow> remote_state
     \<Rightarrow> (conn_id \<times> conn_state) \<times> remote_state" where
  "apply_to_conn now W selected entry s =
     (case entry of (cid, cs) \<Rightarrow>
        case map_of W cid of
          None \<Rightarrow> ((cid, cs), s)
        | Some conn \<Rightarrow>
            let s1 = open_path_on_conn now cid cs conn selected s;
                s2 = fold (apply_to_path selected cid cs conn) (cs_paths cs) s1
            in ((cid, cs\<lparr>cs_watch := record_selected selected (cs_watch cs)\<rparr>), s2))"

fun apply_to_conns ::
  "instant \<Rightarrow> noq_world \<Rightarrow> four_tuple \<Rightarrow> (conn_id \<times> conn_state) list \<Rightarrow> remote_state
     \<Rightarrow> (conn_id \<times> conn_state) list \<times> remote_state" where
  "apply_to_conns now W selected [] s = ([], s)"
| "apply_to_conns now W selected (e # es) s =
     (let (e', s1) = apply_to_conn now W selected e s;
          (es', s2) = apply_to_conns now W selected es s1
      in (e' # es', s2))"

definition apply_selected_path :: "instant \<Rightarrow> noq_world \<Rightarrow> remote_actor \<Rightarrow> remote_actor" where
  "apply_selected_path now W a =
     (case rs_selected_path (ra_state a) of
        None \<Rightarrow> a
      | Some selected \<Rightarrow>
          let (conns, s) = apply_to_conns now W selected (ra_conns a) (ra_state a)
          in a\<lparr>ra_conns := conns, ra_state := s\<rparr>)"

type_synonym selector = "four_tuple option \<Rightarrow> candidate list \<Rightarrow> four_tuple option"

definition select_path :: "selector \<Rightarrow> instant \<Rightarrow> noq_world \<Rightarrow> remote_actor \<Rightarrow> remote_actor" where
  "select_path pick now W a =
     (let s = ra_state a in
      apply_selected_path now W
        (case pick (rs_selected_path s) (selection_paths W a) of
           Some addr \<Rightarrow> a\<lparr>ra_state := s\<lparr>rs_selected_path := Some addr\<rparr>\<rparr>
         | None \<Rightarrow> a))"

definition open_path_on_all_conns :: "instant \<Rightarrow> noq_world \<Rightarrow> four_tuple \<Rightarrow> remote_actor \<Rightarrow> remote_actor" where
  "open_path_on_all_conns now W open_addr a =
     a\<lparr>ra_state := fold (\<lambda>(cid, cs, conn). open_path_on_conn now cid cs conn open_addr) (live_conns W a) (ra_state a)\<rparr>"

definition conn_goodenough :: "noq_world \<Rightarrow> conn_id \<times> conn_state \<Rightarrow> bool" where
  "conn_goodenough W entry =
     (case entry of (cid, cs) \<Rightarrow>
        case map_of W cid of
          None \<Rightarrow> False
        | Some conn \<Rightarrow>
            let rtts = List.map_filter (\<lambda>(i, ft). if ft_is_ip ft then map_of (nc_rtt conn) i else None) (cs_paths cs)
            in rtts \<noteq> [] \<and> Min (set rtts) \<le> GOOD_ENOUGH_LATENCY)"

definition check_connections :: "instant \<Rightarrow> noq_world \<Rightarrow> remote_actor \<Rightarrow> remote_actor" where
  "check_connections now W a =
     (if \<not> list_all (conn_goodenough W) (ra_conns a) then trigger_holepunching now W a else a)"

section \<open>Messages and events\<close>

definition to_transports_addr :: "bytes \<Rightarrow> transport_addr list \<Rightarrow> addr list" where
  "to_transports_addr endpoint_id addrs =
     map (\<lambda>t. case t of
        TA_Relay url \<Rightarrow> addr_from_relay (url, endpoint_id)
      | TA_Ip s \<Rightarrow> addr_from_socket s
      | TA_Custom c \<Rightarrow> addr_from_custom c) addrs"

definition handle_msg_send_datagram :: "bytes \<Rightarrow> remote_state \<Rightarrow> remote_state" where
  "handle_msg_send_datagram transmit s =
     (case rs_selected_path s of
        Some a \<Rightarrow> emit [Cmd_Send (ft_from_remote (ft_remote a)) transmit] s
      | None \<Rightarrow>
          emit (map (\<lambda>a. Cmd_Send (ft_from_remote a) transmit)
                 (filter (\<lambda>a. case a of Addr_Ip sockaddr \<Rightarrow> sockaddr \<notin> set (rs_local_addrs s) | _ \<Rightarrow> True)
                   (rp_addrs (rs_paths s)))) s)"

definition trigger_address_lookup :: "remote_state \<Rightarrow> remote_state" where
  "trigger_address_lookup s =
     (if rs_selected_path s \<noteq> None \<or> rs_lookup_running s then s else s\<lparr>rs_lookup_running := True\<rparr>)"

definition handle_msg_resolve_remote :: "instant \<Rightarrow> transport_addr list \<Rightarrow> nat \<Rightarrow> remote_state \<Rightarrow> remote_state" where
  "handle_msg_resolve_remote now addrs tx s =
     trigger_address_lookup
       (s\<lparr>rs_paths := resolve_remote tx
            (insert_multiple now (to_transports_addr (rs_endpoint_id s) addrs) Source_App (rs_paths s))\<rparr>)"

record lookup_item =
  li_endpoint_id :: bytes
  li_provenance :: string
  li_addrs :: "transport_addr list"

definition handle_address_lookup_item ::
  "instant \<Rightarrow> (address_lookup_failed + lookup_item) option \<Rightarrow> remote_state \<Rightarrow> remote_state" where
  "handle_address_lookup_item now item s =
     (case item of
        None \<Rightarrow> s\<lparr>rs_paths := address_lookup_finished (Inr ()) (rs_paths s), rs_lookup_running := False\<rparr>
      | Some (Inl err) \<Rightarrow> s\<lparr>rs_paths := address_lookup_finished (Inl err) (rs_paths s), rs_lookup_running := False\<rparr>
      | Some (Inr it) \<Rightarrow>
          if li_endpoint_id it \<noteq> rs_endpoint_id s then s
          else s\<lparr>rs_paths := insert_multiple now (to_transports_addr (rs_endpoint_id s) (li_addrs it))
                   (Source_AddressLookup (li_provenance it)) (rs_paths s)\<rparr>)"

definition conn_state_new :: conn_state where
  "conn_state_new = \<lparr>cs_paths = [], cs_watch = path_watch_new, cs_direct = False\<rparr>"

text \<open>The conflicting entry that a new connection replaces drops its path state.\<close>

definition handle_msg_add_connection ::
  "selector \<Rightarrow> instant \<Rightarrow> noq_world \<Rightarrow> conn_id \<Rightarrow> noq_conn \<Rightarrow> remote_actor \<Rightarrow> remote_actor" where
  "handle_msg_add_connection pick now W cid conn a =
     (let s = ra_state a;
          m = rs_metrics s;
          s1 = s\<lparr>rs_metrics := m\<lparr>num_conns_opened := num_conns_opened m + 1\<rparr>\<rparr>;
          s2 = update_qnt_candidates cid conn (rs_local_addrs s1) s1;
          (path_remote, cs, s3) =
            (case map_of (nc_paths conn) 0 of
               None \<Rightarrow> (None, conn_state_new, s2)
             | Some path \<Rightarrow> register_and_configure_path now cid conn_state_new conn 0 path s2);
          relays = filter addr_is_relay (rp_addrs (rs_paths s3));
          s4 = (case path_remote of
                  Some p \<Rightarrow> if \<not> ft_is_relay p \<and> nc_client conn
                            then fold (\<lambda>r. open_path_on_conn now cid cs conn (ft_from_remote r)) relays s3 else s3
                | None \<Rightarrow> s3);
          dropped = (case map_of (ra_conns a) cid of Some old \<Rightarrow> [watch_drop (cs_watch old)] | None \<Rightarrow> []);
          a1 = \<lparr>ra_conns = al_remove cid (ra_conns a) @ [(cid, cs)], ra_state = s4, ra_closed = ra_closed a @ dropped\<rparr>;
          W1 = al_update cid conn W
      in select_path pick now W1 (trigger_holepunching now W1 a1))"

definition handle_msg_network_change :: "instant \<Rightarrow> noq_world \<Rightarrow> bool \<Rightarrow> remote_actor \<Rightarrow> remote_actor" where
  "handle_msg_network_change now W is_major a =
     (let pings = concat (map (\<lambda>(cid, cs, c).
             map (\<lambda>(i, _). Cmd_Ping cid i) (filter (\<lambda>(i, _). i \<in> fst ` set (nc_paths c)) (cs_paths cs))) (live_conns W a));
          a1 = a\<lparr>ra_state := emit pings (ra_state a)\<rparr>
      in if is_major then trigger_holepunching now W a1 else a1)"

definition handle_connection_close :: "conn_id \<Rightarrow> (path_id \<times> nat) list \<Rightarrow> remote_actor \<Rightarrow> remote_actor" where
  "handle_connection_close cid path_stats a =
     (let a1 = (case map_of (ra_conns a) cid of
            None \<Rightarrow> a
          | Some cs \<Rightarrow>
              let s = ra_state a; m = rs_metrics s in
              \<lparr>ra_conns = al_remove cid (ra_conns a),
               ra_state = s\<lparr>rs_metrics := m\<lparr>num_conns_closed := num_conns_closed m + 1\<rparr>\<rparr>,
               ra_closed = ra_closed a @ [watch_close path_stats (cs_watch cs)]\<rparr>)
      in if ra_conns a1 = [] then a1\<lparr>ra_state := (ra_state a1)\<lparr>rs_selected_path := None\<rparr>\<rparr> else a1)"

definition update_local_direct_address :: "noq_world \<Rightarrow> remote_actor \<Rightarrow> remote_actor" where
  "update_local_direct_address W a =
     a\<lparr>ra_state := fold (\<lambda>(cid, _, c) s. update_qnt_candidates cid c (rs_local_addrs s) s) (live_conns W a) (ra_state a)\<rparr>"

datatype noq_path_event = Noq_Lagged | Noq_Established path_id | Noq_Abandoned path_id | Noq_Other

definition handle_path_event ::
  "selector \<Rightarrow> instant \<Rightarrow> noq_world \<Rightarrow> conn_id \<Rightarrow> noq_path_event \<Rightarrow> remote_actor \<Rightarrow> remote_actor" where
  "handle_path_event pick now W cid event a =
     (case (map_of (ra_conns a) cid, map_of W cid) of
        (Some cs, Some conn) \<Rightarrow>
          (case event of
             Noq_Lagged \<Rightarrow> a
           | Noq_Other \<Rightarrow> a
           | Noq_Established i \<Rightarrow>
               (case map_of (nc_paths conn) i of
                  None \<Rightarrow> a
                | Some path \<Rightarrow>
                    let (_, cs1, s1) = register_and_configure_path now cid cs conn i path (ra_state a)
                    in select_path pick now W (a\<lparr>ra_conns := al_update cid cs1 (ra_conns a), ra_state := s1\<rparr>))
           | Noq_Abandoned i \<Rightarrow>
               (case remove_path i conn cs of
                  (None, _) \<Rightarrow> a
                | (Some network_path, cs1) \<Rightarrow>
                    let s = ra_state a;
                        s1 = (if list_ex (\<lambda>(_, ft). ft_remote ft = ft_remote network_path) (cs_paths cs1) then s
                              else s\<lparr>rs_paths := abandoned_path now (ft_remote network_path) (rs_paths s)\<rparr>)
                    in select_path pick now W (a\<lparr>ra_conns := al_update cid cs1 (ra_conns a), ra_state := s1\<rparr>)))
      | _ \<Rightarrow> a)"

datatype remote_msg =
    Msg_SendDatagram bytes
  | Msg_AddConnection conn_id noq_conn
  | Msg_ResolveRemote "transport_addr list" nat
  | Msg_RemoteInfo
  | Msg_NetworkChange bool

fun handle_message :: "selector \<Rightarrow> instant \<Rightarrow> noq_world \<Rightarrow> remote_msg \<Rightarrow> remote_actor \<Rightarrow> remote_actor" where
  "handle_message pick now W (Msg_SendDatagram t) a = a\<lparr>ra_state := handle_msg_send_datagram t (ra_state a)\<rparr>"
| "handle_message pick now W (Msg_AddConnection cid conn) a = handle_msg_add_connection pick now W cid conn a"
| "handle_message pick now W (Msg_ResolveRemote addrs tx) a =
     a\<lparr>ra_state := handle_msg_resolve_remote now addrs tx (ra_state a)\<rparr>"
| "handle_message pick now W Msg_RemoteInfo a = a"
| "handle_message pick now W (Msg_NetworkChange is_major) a = handle_msg_network_change now W is_major a"

definition remote_info :: "remote_actor \<Rightarrow> bytes \<times> (transport_addr \<times> addr_usage) list" where
  "remote_info a = (rs_endpoint_id (ra_state a), to_remote_addrs (rs_paths (ra_state a)))"

text \<open>One round of the main loop; the timers fire only when they are set.\<close>

datatype remote_event =
    Re_Message remote_msg
  | Re_Path conn_id noq_path_event
  | Re_NatUpdate
  | Re_Closed conn_id "(path_id \<times> nat) list"
  | Re_LocalAddrs "socket_addr list"
  | Re_OpenTimer
  | Re_HolepunchTimer
  | Re_Lookup "(address_lookup_failed + lookup_item) option"
  | Re_Tick

fun run_event :: "selector \<Rightarrow> instant \<Rightarrow> noq_world \<Rightarrow> remote_event \<Rightarrow> remote_actor \<Rightarrow> remote_actor" where
  "run_event pick now W (Re_Message m) a = handle_message pick now W m a"
| "run_event pick now W (Re_Path cid e) a = handle_path_event pick now W cid e a"
| "run_event pick now W Re_NatUpdate a = trigger_holepunching now W a"
| "run_event pick now W (Re_Closed cid st) a = handle_connection_close cid st a"
| "run_event pick now W (Re_LocalAddrs addrs) a =
     trigger_holepunching now W
       (update_local_direct_address W (a\<lparr>ra_state := (ra_state a)\<lparr>rs_local_addrs := addrs\<rparr>\<rparr>))"
| "run_event pick now W Re_OpenTimer a =
     (case rs_scheduled_open_path (ra_state a) of
        None \<Rightarrow> a
      | Some _ \<Rightarrow>
          let s = ra_state a;
              addrs = rs_pending_open_paths s
          in fold (open_path_on_all_conns now W) addrs
               (a\<lparr>ra_state := s\<lparr>rs_scheduled_open_path := None, rs_pending_open_paths := []\<rparr>\<rparr>))"
| "run_event pick now W Re_HolepunchTimer a =
     (case rs_scheduled_holepunch (ra_state a) of
        None \<Rightarrow> a
      | Some _ \<Rightarrow> trigger_holepunching now W (a\<lparr>ra_state := (ra_state a)\<lparr>rs_scheduled_holepunch := None\<rparr>\<rparr>))"
| "run_event pick now W (Re_Lookup item) a =
     (if rs_lookup_running (ra_state a) then a\<lparr>ra_state := handle_address_lookup_item now item (ra_state a)\<rparr> else a)"
| "run_event pick now W Re_Tick a = check_connections now W a"

definition run_events :: "selector \<Rightarrow> (instant \<times> noq_world \<times> remote_event) list \<Rightarrow> remote_actor \<Rightarrow> remote_actor" where
  "run_events pick es a = fold (\<lambda>(now, W, e). run_event pick now W e) es a"

definition is_idle :: "remote_msg list \<Rightarrow> remote_actor \<Rightarrow> bool" where
  "is_idle inbox a \<longleftrightarrow> ra_conns a = [] \<and> inbox = [] \<and> resolve_requests_is_empty (rs_paths (ra_state a))"

section \<open>What the steps keep\<close>

text \<open>The parts of the state that no command on a connection touches.\<close>

definition same_core :: "remote_state \<Rightarrow> remote_state \<Rightarrow> bool" where
  "same_core s s' \<longleftrightarrow>
     rs_selected_path s' = rs_selected_path s \<and> rs_paths s' = rs_paths s \<and>
     rs_endpoint_id s' = rs_endpoint_id s \<and> rs_local_addrs s' = rs_local_addrs s \<and>
     rs_lookup_running s' = rs_lookup_running s"

definition open_timer_ok :: "remote_state \<Rightarrow> bool" where
  "open_timer_ok s \<longleftrightarrow> (rs_pending_open_paths s \<noteq> [] \<longrightarrow> rs_scheduled_open_path s \<noteq> None)"

lemma same_coreD: "same_core s s' \<Longrightarrow> rs_selected_path s' = rs_selected_path s" "same_core s s' \<Longrightarrow> rs_paths s' = rs_paths s"
  by (simp_all add: same_core_def)

lemma same_core_refl [simp]: "same_core s s"
  by (simp add: same_core_def)

lemma same_core_trans: "same_core s t \<Longrightarrow> same_core t u \<Longrightarrow> same_core s u"
  by (simp add: same_core_def)

lemma emit_simps [simp]:
  "same_core s (emit cs s)" "same_core t (emit cs s) = same_core t s" "rs_cmds (emit cs s) = rs_cmds s @ cs" "open_timer_ok (emit cs s) = open_timer_ok s"
  "rs_selected_path (emit cs s) = rs_selected_path s" "rs_paths (emit cs s) = rs_paths s"
  "rs_local_addrs (emit cs s) = rs_local_addrs s" "rs_metrics (emit cs s) = rs_metrics s"
  "rs_last_holepunch (emit cs s) = rs_last_holepunch s" "rs_mapped (emit cs s) = rs_mapped s"
  "rs_scheduled_holepunch (emit cs s) = rs_scheduled_holepunch s"
  "rs_pending_open_paths (emit cs s) = rs_pending_open_paths s"
  "rs_scheduled_open_path (emit cs s) = rs_scheduled_open_path s"
  "rs_endpoint_id (emit cs s) = rs_endpoint_id s" "rs_lookup_running (emit cs s) = rs_lookup_running s"
  by (simp_all add: emit_def same_core_def open_timer_ok_def)

lemma emit_emit: "emit ds (emit cs s) = emit (cs @ ds) s" "emit [] s = s"
  by (simp_all add: emit_def)

lemma open_path_on_conn_kept:
  "same_core s (open_path_on_conn now cid cs conn ft s)"
  "open_timer_ok s \<Longrightarrow> open_timer_ok (open_path_on_conn now cid cs conn ft s)"
  by (auto simp: open_path_on_conn_def Let_def same_core_def open_timer_ok_def split: prod.splits open_result.splits)

text \<open>The command that an attempt to open a path gives, and when there is one.\<close>

lemma open_path_on_conn_cmds:
  "\<exists>q. rs_cmds (open_path_on_conn now cid cs conn ft s) = rs_cmds s @
     (if nc_client conn \<and> ft \<notin> snd ` set (cs_paths cs)
      then [Cmd_OpenPath cid q (path_status_for_addr s ft)] else [])"
  by (auto simp: open_path_on_conn_def Let_def split: prod.splits open_result.splits)

lemma fold_kept:
  assumes "\<And>x s. same_core s (f x s)" "\<And>x s. open_timer_ok s \<Longrightarrow> open_timer_ok (f x s)"
  shows "same_core s (fold f xs s)" "open_timer_ok s \<Longrightarrow> open_timer_ok (fold f xs s)"
proof -
  show "same_core s (fold f xs s)"
    by (induction xs arbitrary: s) (simp, metis assms(1) fold_simps(2) same_core_trans)
  show "open_timer_ok s \<Longrightarrow> open_timer_ok (fold f xs s)"
    by (induction xs arbitrary: s) (simp_all add: assms(2))
qed

text \<open>The commands for the open paths of a connection once a path is selected.\<close>

definition path_cmd :: "four_tuple \<Rightarrow> conn_id \<Rightarrow> conn_state \<Rightarrow> noq_conn \<Rightarrow> path_id \<times> four_tuple \<Rightarrow> cmd list" where
  "path_cmd selected cid cs conn p =
     (case p of (i, ft) \<Rightarrow>
        if i \<notin> fst ` set (nc_paths conn) then []
        else if redundant_path selected cs conn ft then [Cmd_ClosePath cid i]
        else [Cmd_SetStatus cid i (if ft = selected then Status_Available else Status_Backup)])"

lemma apply_to_path_cmd:
  "rs_selected_path s = Some selected \<Longrightarrow>
   apply_to_path selected cid cs conn p s = emit (path_cmd selected cid cs conn p) s"
  by (auto simp: apply_to_path_def path_cmd_def set_path_status_def path_status_for_addr_def emit_emit split: prod.splits)

lemma fold_apply_to_path:
  "rs_selected_path s = Some selected \<Longrightarrow>
   fold (apply_to_path selected cid cs conn) ps s = emit (concat (map (path_cmd selected cid cs conn) ps)) s"
  by (induction ps arbitrary: s) (simp_all add: emit_emit apply_to_path_cmd)

lemma apply_to_conn_kept:
  assumes "rs_selected_path s = Some selected" "apply_to_conn now W selected (cid, cs) s = (e', s')"
  shows "same_core s s'" "open_timer_ok s \<Longrightarrow> open_timer_ok s'"
    "e' = (cid, case map_of W cid of None \<Rightarrow> cs | Some _ \<Rightarrow> cs\<lparr>cs_watch := record_selected selected (cs_watch cs)\<rparr>)"
proof -
  have sel: "rs_selected_path (open_path_on_conn now cid cs conn selected s) = Some selected" for conn
    using assms(1) open_path_on_conn_kept(1) by (simp add: same_core_def)
  show "same_core s s'" "open_timer_ok s \<Longrightarrow> open_timer_ok s'"
    "e' = (cid, case map_of W cid of None \<Rightarrow> cs | Some _ \<Rightarrow> cs\<lparr>cs_watch := record_selected selected (cs_watch cs)\<rparr>)"
    using assms(2) open_path_on_conn_kept [of s now cid cs _ selected]
    by (auto simp: apply_to_conn_def Let_def fold_apply_to_path [OF sel] split: option.splits
        elim: same_core_trans)
qed

text \<open>The watcher of a live connection learns the selected path.\<close>

definition watch_selected :: "noq_world \<Rightarrow> four_tuple \<Rightarrow> conn_id \<times> conn_state \<Rightarrow> conn_id \<times> conn_state" where
  "watch_selected W selected e =
     (case e of (cid, cs) \<Rightarrow>
        (cid, case map_of W cid of None \<Rightarrow> cs | Some _ \<Rightarrow> cs\<lparr>cs_watch := record_selected selected (cs_watch cs)\<rparr>))"

lemma apply_to_conns_kept:
  assumes "rs_selected_path s = Some selected" "apply_to_conns now W selected es s = (es', s')"
  shows "same_core s s' \<and> (open_timer_ok s \<longrightarrow> open_timer_ok s') \<and> es' = map (watch_selected W selected) es"
  using assms
proof (induction es arbitrary: s es' s')
  case Nil
  then show ?case by simp
next
  case (Cons e es)
  obtain cid cs where e: "e = (cid, cs)" by force
  obtain e1 s1 where step: "apply_to_conn now W selected (cid, cs) s = (e1, s1)" by (rule prod.exhaust)
  obtain es1 s2 where rest: "apply_to_conns now W selected es s1 = (es1, s2)" by (rule prod.exhaust)
  note k = apply_to_conn_kept [OF Cons.prems(1) step]
  have "rs_selected_path s1 = Some selected" using k(1) Cons.prems(1) by (simp add: same_core_def)
  from Cons.IH [OF this rest] show ?case
    using Cons.prems(2) k e step rest by (auto simp: watch_selected_def elim: same_core_trans)
qed

lemma apply_to_conn_cmds:
  assumes "rs_selected_path s = Some selected" "apply_to_conn now W selected (cid, cs) s = (e', s')"
  shows "\<exists>q. rs_cmds s' = rs_cmds s @
     (case map_of W cid of
        None \<Rightarrow> []
      | Some conn \<Rightarrow>
          (if nc_client conn \<and> selected \<notin> snd ` set (cs_paths cs) then [Cmd_OpenPath cid q Status_Available] else []) @
          concat (map (path_cmd selected cid cs conn) (cs_paths cs)))"
proof (cases "map_of W cid")
  case None
  then show ?thesis using assms(2) by (simp add: apply_to_conn_def)
next
  case (Some conn)
  have sel: "rs_selected_path (open_path_on_conn now cid cs conn selected s) = Some selected"
    using assms(1) open_path_on_conn_kept(1) by (simp add: same_core_def)
  have s': "s' = emit (concat (map (path_cmd selected cid cs conn) (cs_paths cs))) (open_path_on_conn now cid cs conn selected s)"
    using assms(2) Some by (simp add: apply_to_conn_def Let_def fold_apply_to_path [OF sel])
  from open_path_on_conn_cmds [of now cid cs conn selected s] obtain q where
    "rs_cmds (open_path_on_conn now cid cs conn selected s) = rs_cmds s @
       (if nc_client conn \<and> selected \<notin> snd ` set (cs_paths cs)
        then [Cmd_OpenPath cid q (path_status_for_addr s selected)] else [])" ..
  then show ?thesis
    using assms(1) Some by (intro exI [of _ q]) (simp add: s' path_status_for_addr_def)
qed

definition is_open_cmd :: "cmd \<Rightarrow> bool" where
  "is_open_cmd c = (case c of Cmd_OpenPath _ _ _ \<Rightarrow> True | _ \<Rightarrow> False)"

definition path_cmds_of :: "noq_world \<Rightarrow> four_tuple \<Rightarrow> conn_id \<times> conn_state \<Rightarrow> cmd list" where
  "path_cmds_of W selected e =
     (case e of (cid, cs) \<Rightarrow>
        case map_of W cid of
          None \<Rightarrow> []
        | Some conn \<Rightarrow> concat (map (path_cmd selected cid cs conn) (cs_paths cs)))"

definition opened_by :: "cmd \<Rightarrow> (conn_id \<times> quic_status) list" where
  "opened_by c = (case c of Cmd_OpenPath cid _ st \<Rightarrow> [(cid, st)] | _ \<Rightarrow> [])"

definition missing_selected :: "noq_world \<Rightarrow> four_tuple \<Rightarrow> (conn_id \<times> conn_state) list \<Rightarrow> conn_id list" where
  "missing_selected W selected es =
     map fst (filter (\<lambda>(cid, cs). case map_of W cid of None \<Rightarrow> False
       | Some conn \<Rightarrow> nc_client conn \<and> selected \<notin> snd ` set (cs_paths cs)) es)"

lemma open_cmd_simps [simp]:
  "is_open_cmd (Cmd_OpenPath cid q st)" "opened_by (Cmd_OpenPath cid q st) = [(cid, st)]"
  by (simp_all add: is_open_cmd_def opened_by_def)

lemma missing_selected_Cons:
  "missing_selected W selected ((cid, cs) # es) =
     (case map_of W cid of
        None \<Rightarrow> []
      | Some conn \<Rightarrow> if nc_client conn \<and> selected \<notin> snd ` set (cs_paths cs) then [cid] else []) @
     missing_selected W selected es"
  by (simp add: missing_selected_def split: option.splits)

lemma path_cmd_not_open: "c \<in> set (path_cmd selected cid cs conn p) \<Longrightarrow> \<not> is_open_cmd c"
  by (auto simp: path_cmd_def is_open_cmd_def split: prod.splits if_splits)

lemma filter_path_cmds:
  "filter (\<lambda>c. \<not> is_open_cmd c) (concat (map (path_cmd selected cid cs conn) ps)) = concat (map (path_cmd selected cid cs conn) ps)"
  "concat (map opened_by (concat (map (path_cmd selected cid cs conn) ps))) = []"
proof -
  show "filter (\<lambda>c. \<not> is_open_cmd c) (concat (map (path_cmd selected cid cs conn) ps)) = concat (map (path_cmd selected cid cs conn) ps)"
    by (rule filter_True) (auto dest: path_cmd_not_open)
  have "opened_by c = []" if "\<not> is_open_cmd c" for c
    using that by (simp add: opened_by_def is_open_cmd_def split: cmd.splits)
  then show "concat (map opened_by (concat (map (path_cmd selected cid cs conn) ps))) = []"
    by (auto dest: path_cmd_not_open)
qed

lemma apply_to_conns_cmds:
  assumes "rs_selected_path s = Some selected" "apply_to_conns now W selected es s = (es', s')"
  shows "\<exists>new. rs_cmds s' = rs_cmds s @ new \<and>
     filter (\<lambda>c. \<not> is_open_cmd c) new = concat (map (path_cmds_of W selected) es) \<and>
     concat (map opened_by new) = map (\<lambda>cid. (cid, Status_Available)) (missing_selected W selected es)"
  using assms
proof (induction es arbitrary: s es' s')
  case Nil
  then show ?case by (simp add: missing_selected_def)
next
  case (Cons e es)
  obtain cid cs where e: "e = (cid, cs)" by force
  obtain e1 s1 where step: "apply_to_conn now W selected (cid, cs) s = (e1, s1)" by (rule prod.exhaust)
  obtain es1 s2 where rest: "apply_to_conns now W selected es s1 = (es1, s2)" by (rule prod.exhaust)
  have "rs_selected_path s1 = Some selected"
    using apply_to_conn_kept(1) [OF Cons.prems(1) step] Cons.prems(1) by (simp add: same_core_def)
  from Cons.IH [OF this rest] obtain new where
    n: "rs_cmds s2 = rs_cmds s1 @ new"
      "filter (\<lambda>c. \<not> is_open_cmd c) new = concat (map (path_cmds_of W selected) es)"
      "concat (map opened_by new) = map (\<lambda>cid. (cid, Status_Available)) (missing_selected W selected es)" by blast
  have s': "s' = s2" using Cons.prems(2) e step rest by simp
  from apply_to_conn_cmds [OF Cons.prems(1) step] obtain q where
    c: "rs_cmds s1 = rs_cmds s @
     (case map_of W cid of
        None \<Rightarrow> []
      | Some conn \<Rightarrow>
          (if nc_client conn \<and> selected \<notin> snd ` set (cs_paths cs) then [Cmd_OpenPath cid q Status_Available] else []) @
          concat (map (path_cmd selected cid cs conn) (cs_paths cs)))" by blast
  have now: "path_cmds_of W selected (cid, cs) =
      (case map_of W cid of None \<Rightarrow> [] | Some conn \<Rightarrow> concat (map (path_cmd selected cid cs conn) (cs_paths cs)))"
    by (simp add: path_cmds_of_def)
  show ?case
    unfolding s' e n(1) c append.assoc list.map concat.simps now missing_selected_Cons
    by (rule exI, rule conjI, rule refl)
      (use n(2,3) in \<open>cases "map_of W cid"; simp add: filter_path_cmds\<close>)
qed

end
