(* ===== verification/Remote_Invariant.thy ===== *)
theory Remote_Invariant
  imports Remote_State
begin

text \<open>
  Invariants of the remote state actor over every sequence of events. The watchers of a connection
  see exactly its open paths, a path is selected only while there are connections, postponed path
  openings have a timer, and resolve requests wait only while no path is known. The lemmas on path
  selection are proved from the interface of selectors.
\<close>

definition shown_path :: "path_id \<times> four_tuple \<Rightarrow> path_data" where
  "shown_path p = (case p of (i, ft) \<Rightarrow> (i, addr_to_transport (ft_remote ft), ft_local ft))"

definition conn_ok :: "conn_state \<Rightarrow> bool" where
  "conn_ok cs \<longleftrightarrow>
     distinct (al_keys (cs_paths cs)) \<and> watch_inv (cs_watch cs) \<and> \<not> pw_closed (cs_watch cs) \<and>
     pw_list (cs_watch cs) = map shown_path (cs_paths cs)"

definition ra_inv :: "remote_actor \<Rightarrow> bool" where
  "ra_inv a \<longleftrightarrow>
     distinct (al_keys (ra_conns a)) \<and> (\<forall>e \<in> set (ra_conns a). conn_ok (snd e)) \<and>
     rp_inv (rs_paths (ra_state a)) \<and> open_timer_ok (ra_state a) \<and>
     (rs_selected_path (ra_state a) \<noteq> None \<longrightarrow> ra_conns a \<noteq> [])"

lemma ra_invD:
  assumes "ra_inv a"
  shows "rp_inv (rs_paths (ra_state a))" "open_timer_ok (ra_state a)"
  using assms by (simp_all add: ra_inv_def)

lemma ra_inv_state:
  assumes "ra_inv a" "rp_inv (rs_paths s)" "open_timer_ok s" "rs_selected_path s = rs_selected_path (ra_state a)"
  shows "ra_inv (a\<lparr>ra_state := s\<rparr>)"
  using assms by (simp add: ra_inv_def)

section \<open>One connection\<close>

lemma shown_update: "map shown_path (al_update i ft ps) = al_update i (snd (shown_path (i, ft))) (map shown_path ps)"
  by (induction i ft ps rule: al_update.induct) (auto simp: shown_path_def)

lemma shown_remove: "map shown_path (al_remove i ps) = al_remove i (map shown_path ps)"
  by (induction ps) (auto simp: al_remove_def shown_path_def)

lemma shown_lookup: "map_of (map shown_path ps) i = map_option (\<lambda>ft. snd (shown_path (i, ft))) (map_of ps i)"
  by (induction ps) (auto simp: shown_path_def)

lemma conn_ok_new [simp]: "conn_ok conn_state_new"
  by (simp add: conn_ok_def conn_state_new_def watch_inv_new) (simp add: path_watch_new_def)

lemma record_pw_closed [simp]:
  "pw_closed (record_opened i ft w) = pw_closed w" "pw_closed (record_abandoned i st w) = pw_closed w"
  "pw_closed (record_selected ft w) = pw_closed w" "pw_list (record_selected ft w) = pw_list w"
  by (auto simp: record_opened_def record_abandoned_def record_selected_def Let_def split: option.splits)

lemma conn_ok_selected [simp]: "conn_ok cs \<Longrightarrow> conn_ok (cs\<lparr>cs_watch := record_selected ft (cs_watch cs)\<rparr>)"
  by (simp add: conn_ok_def record_selected_inv)

lemma conn_ok_add:
  assumes "conn_ok cs" "i \<in> fst ` set (nc_paths conn)" "add_open_path ft i (Some conn) cs m = (cs', m')"
  shows "conn_ok cs'"
proof -
  have "pw_list (record_opened i ft (cs_watch cs)) = map shown_path (al_update i ft (cs_paths cs))"
    using assms(1) by (simp add: record_opened_def Let_def conn_ok_def shown_update) (simp add: shown_path_def)
  then show ?thesis
    using assms by (auto simp: add_open_path_def Let_def conn_ok_def record_opened_inv)
qed

lemma conn_ok_remove:
  assumes "conn_ok cs" "remove_path i conn cs = (r, cs')"
  shows "conn_ok cs'"
proof (cases "map_of (cs_paths cs) i")
  case None
  then show ?thesis using assms by (simp add: remove_path_def)
next
  case (Some ft)
  have l: "map_of (pw_list (cs_watch cs)) i = Some (snd (shown_path (i, ft)))"
    using assms(1) Some by (simp add: conn_ok_def shown_lookup)
  have "pw_list (record_abandoned i st (cs_watch cs)) = map shown_path (al_remove i (cs_paths cs))" for st
    using assms(1) l by (auto simp: record_abandoned_def Let_def conn_ok_def shown_remove split: prod.splits)
  then show ?thesis
    using assms Some by (auto simp: remove_path_def conn_ok_def record_abandoned_inv)
qed

lemma register_ok:
  assumes "conn_ok cs" "map_of (nc_paths conn) i = Some path"
    "register_and_configure_path now cid cs conn i path s = (r, cs', s')"
  shows "conn_ok cs'" "rp_inv (rs_paths s) \<Longrightarrow> rp_inv (rs_paths s')" "open_timer_ok s \<Longrightarrow> open_timer_ok s'"
    "rs_selected_path s' = rs_selected_path s"
proof -
  have i: "i \<in> fst ` set (nc_paths conn)" using assms(2) by (metis map_of_eq_None_iff option.distinct(1))
  show "conn_ok cs'"
    using assms(1,3) conn_ok_add [OF assms(1) i]
    by (auto simp: register_and_configure_path_def Let_def split: option.splits prod.splits)
  show "rp_inv (rs_paths s) \<Longrightarrow> rp_inv (rs_paths s')" "open_timer_ok s \<Longrightarrow> open_timer_ok s'"
    "rs_selected_path s' = rs_selected_path s"
    using assms(3)
    by (auto simp: register_and_configure_path_def Let_def set_path_status_def open_timer_ok_def
        intro!: rp_ops_inv split: option.splits prod.splits if_splits)
qed

section \<open>Handlers without selection\<close>

text \<open>A step that changes only what commands touch keeps the invariant.\<close>

definition same_conns :: "remote_actor \<Rightarrow> remote_actor \<Rightarrow> bool" where
  "same_conns a a' \<longleftrightarrow>
     ra_conns a' = ra_conns a \<and> ra_closed a' = ra_closed a \<and> same_core (ra_state a) (ra_state a') \<and>
     (open_timer_ok (ra_state a) \<longrightarrow> open_timer_ok (ra_state a'))"

lemma same_conns_inv: "same_conns a a' \<Longrightarrow> ra_inv a \<Longrightarrow> ra_inv a'"
  by (simp add: same_conns_def ra_inv_def same_core_def)

lemma same_conns_trans: "same_conns a b \<Longrightarrow> same_conns b c \<Longrightarrow> same_conns a c"
  by (auto simp: same_conns_def elim: same_core_trans)

lemma same_conns_refl [simp]: "same_conns a a"
  by (simp add: same_conns_def)

lemma do_holepunching_kept:
  "same_core s (do_holepunching now cid conn s)"
  "open_timer_ok s \<Longrightarrow> open_timer_ok (do_holepunching now cid conn s)"
  by (auto simp: do_holepunching_def Let_def same_core_def open_timer_ok_def split: sum.splits)

lemma trigger_holepunching_same [simp]: "same_conns a (trigger_holepunching now W a)"
proof -
  have "same_core s (s\<lparr>rs_scheduled_holepunch := t\<rparr>)" "open_timer_ok (s\<lparr>rs_scheduled_holepunch := t\<rparr>) = open_timer_ok s" for s t
    by (simp_all add: same_core_def open_timer_ok_def)
  then show ?thesis
    by (auto simp: trigger_holepunching_def same_conns_def Let_def do_holepunching_kept split: option.splits sum.splits)
qed

lemma check_connections_same [simp]: "same_conns a (check_connections now W a)"
  by (simp add: check_connections_def)

lemma open_path_on_all_conns_same [simp]: "same_conns a (open_path_on_all_conns now W ft a)"
  unfolding same_conns_def open_path_on_all_conns_def
  by (auto intro!: fold_kept simp: open_path_on_conn_kept)

lemma fold_open_all_same: "same_conns a (fold (open_path_on_all_conns now W) fts a)"
proof (induction fts arbitrary: a)
  case (Cons ft fts)
  show ?case using Cons [of "open_path_on_all_conns now W ft a"] by (simp add: same_conns_trans [OF open_path_on_all_conns_same])
qed simp

lemma update_qnt_kept:
  "same_core s (update_qnt_candidates cid c addrs s)"
  "open_timer_ok s \<Longrightarrow> open_timer_ok (update_qnt_candidates cid c addrs s)"
  by (auto simp: update_qnt_candidates_def split: sum.splits)

lemma update_local_same [simp]: "same_conns a (update_local_direct_address W a)"
  unfolding same_conns_def update_local_direct_address_def
  by (auto intro!: fold_kept simp: update_qnt_kept)

lemma handle_connection_close_inv: "ra_inv a \<Longrightarrow> ra_inv (handle_connection_close cid st a)"
proof -
  have "open_timer_ok (s\<lparr>rs_metrics := m\<rparr>) = open_timer_ok s" "open_timer_ok (s\<lparr>rs_selected_path := p\<rparr>) = open_timer_ok s" for s m p
    by (simp_all add: open_timer_ok_def)
  then show "ra_inv a \<Longrightarrow> ra_inv (handle_connection_close cid st a)"
    by (auto simp: handle_connection_close_def ra_inv_def Let_def al_remove_entries split: option.splits)
qed

lemma state_msgs_inv:
  assumes "rp_inv (rs_paths s)" "open_timer_ok s"
  shows "rp_inv (rs_paths (handle_msg_resolve_remote now addrs tx s))"
    "open_timer_ok (handle_msg_resolve_remote now addrs tx s)"
    "rs_selected_path (handle_msg_resolve_remote now addrs tx s) = rs_selected_path s"
    "rp_inv (rs_paths (handle_address_lookup_item now item s))"
    "open_timer_ok (handle_address_lookup_item now item s)"
    "rs_selected_path (handle_address_lookup_item now item s) = rs_selected_path s"
    "same_core s (handle_msg_send_datagram t s)" "open_timer_ok (handle_msg_send_datagram t s)"
  using assms
  by (auto simp: handle_msg_resolve_remote_def trigger_address_lookup_def handle_address_lookup_item_def
      handle_msg_send_datagram_def open_timer_ok_def intro!: rp_ops_inv split: option.splits sum.splits)

section \<open>Selection\<close>

lemma apply_selected_path_conns:
  "ra_conns (apply_selected_path now W a) =
     (case rs_selected_path (ra_state a) of
        None \<Rightarrow> ra_conns a | Some selected \<Rightarrow> map (watch_selected W selected) (ra_conns a))"
  "same_core (ra_state a) (ra_state (apply_selected_path now W a))"
  "open_timer_ok (ra_state a) \<Longrightarrow> open_timer_ok (ra_state (apply_selected_path now W a))"
  "ra_closed (apply_selected_path now W a) = ra_closed a"
  using apply_to_conns_kept [of "ra_state a" _ now W "ra_conns a"]
  by (auto simp: apply_selected_path_def split: option.splits prod.splits)

lemma watch_selected_fst: "fst \<circ> watch_selected W selected = fst"
  by (auto simp: watch_selected_def split: prod.splits)

lemma watch_selected_ok: "conn_ok (snd e) \<Longrightarrow> conn_ok (snd (watch_selected W selected e))"
  by (auto simp: watch_selected_def split: option.splits prod.splits)

lemma apply_selected_path_inv:
  assumes "ra_inv a"
  shows "ra_inv (apply_selected_path now W a)"
  using assms apply_selected_path_conns [where now = now and W = W and a = a]
  by (cases "rs_selected_path (ra_state a)") (simp_all add: ra_inv_def same_core_def watch_selected_ok watch_selected_fst)

lemma selection_paths_mem:
  "ft \<in> fst ` set (selection_paths W a) \<longleftrightarrow>
     (\<exists>cid cs conn i. (cid, cs) \<in> set (ra_conns a) \<and> map_of W cid = Some conn \<and> (i, ft) \<in> set (cs_paths cs))"
  by (force simp: selection_paths_def live_conns_def mem_map_filter)

context path_selector
begin

lemma select_path_inv:
  assumes "ra_inv a"
  shows "ra_inv (select_path pick now W a)"
proof (cases "pick (rs_selected_path (ra_state a)) (selection_paths W a)")
  case None
  then show ?thesis using assms by (simp add: select_path_def Let_def apply_selected_path_inv)
next
  case (Some ft)
  then have "ra_conns a \<noteq> []" using pick_candidate [OF Some] unfolding selection_paths_mem by auto
  then have "ra_inv (a\<lparr>ra_state := (ra_state a)\<lparr>rs_selected_path := Some ft\<rparr>\<rparr>)"
    using assms by (simp add: ra_inv_def open_timer_ok_def)
  then show ?thesis using Some by (simp add: select_path_def Let_def apply_selected_path_inv)
qed

lemma handle_path_event_inv:
  assumes "ra_inv a"
  shows "ra_inv (handle_path_event pick now W cid event a)"
proof (cases "map_of (ra_conns a) cid")
  case None
  then show ?thesis using assms by (simp add: handle_path_event_def)
next
  case (Some cs)
  have cs: "conn_ok cs" using assms map_of_SomeD [OF Some] by (auto simp: ra_inv_def)
  have upd: "ra_inv (a\<lparr>ra_conns := al_update cid cs' (ra_conns a), ra_state := s'\<rparr>)"
    if "conn_ok cs'" "rp_inv (rs_paths s')" "open_timer_ok s'" for cs' s'
  proof -
    have "al_update cid cs' (ra_conns a) \<noteq> []" by (metis al_update.elims list.distinct(1))
    then show ?thesis using that assms al_update_entries [of cid cs' "ra_conns a"] by (auto simp: ra_inv_def)
  qed
  have inv: "rp_inv (rs_paths (ra_state a))" "open_timer_ok (ra_state a)" using assms by (auto simp: ra_inv_def)
  have upd0: "ra_inv (a\<lparr>ra_conns := al_update cid cs' (ra_conns a)\<rparr>)" if "conn_ok cs'" for cs'
    using upd [OF that inv] by simp
  have ab: "open_timer_ok (s\<lparr>rs_paths := p\<rparr>) = open_timer_ok s" for s p by (simp add: open_timer_ok_def)
  show ?thesis
    using Some assms register_ok [OF cs] conn_ok_remove [OF cs] inv
    by (auto simp: handle_path_event_def Let_def ab split: option.splits noq_path_event.splits prod.splits
        intro!: select_path_inv upd upd0 rp_ops_inv)
qed

lemma handle_msg_add_connection_inv:
  assumes "ra_inv a"
  shows "ra_inv (handle_msg_add_connection pick now W cid conn a)"
proof -
  let ?s = "(ra_state a)\<lparr>rs_metrics := (rs_metrics (ra_state a))\<lparr>num_conns_opened := num_conns_opened (rs_metrics (ra_state a)) + 1\<rparr>\<rparr>"
  let ?s2 = "update_qnt_candidates cid conn (rs_local_addrs ?s) ?s"
  obtain r cs s3 where reg: "(case map_of (nc_paths conn) 0 of
               None \<Rightarrow> (None, conn_state_new, ?s2)
             | Some path \<Rightarrow> register_and_configure_path now cid conn_state_new conn 0 path ?s2) = (r, cs, s3)"
    by (rule prod_cases3)
  have "rp_inv (rs_paths ?s2)" "open_timer_ok ?s2"
    using assms update_qnt_kept [of ?s cid conn "rs_local_addrs ?s"] by (auto simp: ra_inv_def same_core_def open_timer_ok_def)
  then have s3: "conn_ok cs" "rp_inv (rs_paths s3)" "open_timer_ok s3"
    using reg register_ok [OF conn_ok_new, of conn 0 _ now cid ?s2 r cs s3] by (auto split: option.splits)
  define f where "f = (\<lambda>r. open_path_on_conn now cid cs conn (ft_from_remote r))"
  have fk: "same_core s (fold f rs s)" "open_timer_ok s \<Longrightarrow> open_timer_ok (fold f rs s)" for rs s
    by (rule fold_kept; simp add: f_def open_path_on_conn_kept)+
  have inv: "ra_inv \<lparr>ra_conns = al_remove cid (ra_conns a) @ [(cid, cs)], ra_state = s4, ra_closed = d\<rparr>"
    if "same_core s3 s4" "open_timer_ok s4" for s4 d
    using that s3 assms by (auto simp: ra_inv_def same_core_def al_remove_entries)
  have step: "ra_inv (select_path pick now W1 (trigger_holepunching now W1 b))" if "ra_inv b" for W1 b
    by (rule select_path_inv, rule same_conns_inv [OF trigger_holepunching_same that])
  show ?thesis
    unfolding handle_msg_add_connection_def Let_def reg prod.case f_def [symmetric]
    by (intro step inv) (use s3 fk in \<open>auto split: option.splits\<close>)
qed

lemma handle_message_inv:
  assumes "ra_inv a"
  shows "ra_inv (handle_message pick now W m a)"
proof (cases m)
  case (Msg_AddConnection cid conn)
  then show ?thesis using assms by (simp add: handle_msg_add_connection_inv)
next
  case (Msg_NetworkChange is_major)
  have "ra_inv (a\<lparr>ra_state := emit cs (ra_state a)\<rparr>)" for cs
    using assms by (simp add: ra_inv_state ra_invD)
  then show ?thesis
    using Msg_NetworkChange same_conns_inv [OF trigger_holepunching_same]
    by (simp add: handle_msg_network_change_def Let_def)
qed (use assms in \<open>simp_all add: ra_inv_state ra_invD state_msgs_inv same_coreD [OF state_msgs_inv(7)]\<close>)

lemma run_event_inv:
  assumes "ra_inv a"
  shows "ra_inv (run_event pick now W e a)"
proof -
  note sc = same_conns_inv [OF _ ra_inv_state [OF assms]]
  note d = ra_invD [OF assms]
  show ?thesis
  proof (cases e)
    case (Re_LocalAddrs addrs)
    show ?thesis
      unfolding Re_LocalAddrs run_event.simps
      by (rule sc [OF same_conns_trans [OF update_local_same trigger_holepunching_same]])
        (use d in \<open>simp_all add: open_timer_ok_def\<close>)
  next
    case Re_OpenTimer
    have "ra_inv (fold (open_path_on_all_conns now W) fts
        (a\<lparr>ra_state := (ra_state a)\<lparr>rs_scheduled_open_path := None, rs_pending_open_paths := []\<rparr>\<rparr>))" for fts
      by (rule sc [OF fold_open_all_same]) (use d in \<open>simp_all add: open_timer_ok_def\<close>)
    then show ?thesis using Re_OpenTimer assms by (simp add: Let_def split: option.splits)
  next
    case Re_HolepunchTimer
    have "ra_inv (trigger_holepunching now W (a\<lparr>ra_state := (ra_state a)\<lparr>rs_scheduled_holepunch := None\<rparr>\<rparr>))"
      by (rule sc [OF trigger_holepunching_same]) (use d in \<open>simp_all add: open_timer_ok_def\<close>)
    then show ?thesis using Re_HolepunchTimer assms by (simp split: option.splits)
  qed (use assms d in \<open>simp_all add: handle_message_inv handle_path_event_inv handle_connection_close_inv
      ra_inv_state state_msgs_inv same_conns_inv [OF trigger_holepunching_same] same_conns_inv [OF check_connections_same]\<close>)
qed

lemma run_events_inv: "ra_inv a \<Longrightarrow> ra_inv (run_events pick es a)"
  unfolding run_events_def by (induction es arbitrary: a) (auto simp: run_event_inv)

end

lemma ra_inv_new: "ra_inv (remote_actor_new e m l)"
  by (simp add: ra_inv_def remote_actor_new_def open_timer_ok_def)

end
