(* ===== verification/Remote_Behaviour.thy ===== *)
theory Remote_Behaviour
  imports Remote_Invariant
begin

text \<open>
  What the remote state actor does over time: selection settles and tells every connection, hole
  punching is not repeated within its interval unless there are new candidates, and every request
  to resolve the remote is waiting or answered once.
\<close>

section \<open>Selection settles\<close>

lemma watch_selected_paths: "watch_selected W ft (cid, cs) = (cid', cs') \<Longrightarrow> cid' = cid \<and> cs_paths cs' = cs_paths cs"
  by (auto simp: watch_selected_def split: option.splits)

lemma live_conns_selected:
  "map (\<lambda>(cid, cs, c). (cid, cs_paths cs, c)) (List.map_filter (\<lambda>(cid, cs). map_option (\<lambda>c. (cid, cs, c)) (map_of W cid)) (map (watch_selected W ft) es)) =
   map (\<lambda>(cid, cs, c). (cid, cs_paths cs, c)) (List.map_filter (\<lambda>(cid, cs). map_option (\<lambda>c. (cid, cs, c)) (map_of W cid)) es)"
proof (induction es)
  case (Cons e es)
  obtain cid cs where e: "e = (cid, cs)" by force
  obtain cs' where w: "watch_selected W ft (cid, cs) = (cid, cs')" "cs_paths cs' = cs_paths cs"
    using watch_selected_paths by (metis surj_pair)
  show ?case using Cons by (cases "map_of W cid") (simp_all add: e w List.map_filter_simps)
qed (simp add: List.map_filter_simps)

lemma selection_paths_alt:
  "selection_paths W a =
     concat (map (\<lambda>(cid, ps, c). map (\<lambda>(i, ft). (ft, map_of (nc_rtt c) i)) ps)
       (map (\<lambda>(cid, cs, c). (cid, cs_paths cs, c)) (live_conns W a)))"
  unfolding selection_paths_def map_map comp_def by (rule arg_cong [of _ _ concat]) auto

lemma selection_paths_applied: "selection_paths W (apply_selected_path now W a) = selection_paths W a"
  using live_conns_selected [of W _ "ra_conns a"] apply_selected_path_conns(1) [of now W a]
  by (cases "rs_selected_path (ra_state a)") (simp_all add: selection_paths_alt live_conns_def)

lemma select_path_selected:
  "rs_selected_path (ra_state (select_path pick now W a)) =
     (case pick (rs_selected_path (ra_state a)) (selection_paths W a) of
        Some ft \<Rightarrow> Some ft | None \<Rightarrow> rs_selected_path (ra_state a))"
  "selection_paths W (select_path pick now W a) = selection_paths W a"
proof -
  have k: "rs_selected_path (ra_state (apply_selected_path now W b)) = rs_selected_path (ra_state b)" for b
    by (rule same_coreD(1) [OF apply_selected_path_conns(2)])
  show "rs_selected_path (ra_state (select_path pick now W a)) =
     (case pick (rs_selected_path (ra_state a)) (selection_paths W a) of
        Some ft \<Rightarrow> Some ft | None \<Rightarrow> rs_selected_path (ra_state a))"
    by (simp add: select_path_def Let_def k split: option.splits)
  show "selection_paths W (select_path pick now W a) = selection_paths W a"
    by (simp add: select_path_def Let_def selection_paths_applied split: option.splits)
      (simp add: selection_paths_def live_conns_def)
qed

context path_selector
begin

lemma select_path_settles:
  "rs_selected_path (ra_state (select_path pick now' W (select_path pick now W a))) =
     rs_selected_path (ra_state (select_path pick now W a))"
  unfolding select_path_selected by (rule update_settles) (simp add: select_path_selected)

lemma select_path_candidate:
  assumes "rs_selected_path (ra_state (select_path pick now W a)) \<noteq> rs_selected_path (ra_state a)"
  obtains ft where "rs_selected_path (ra_state (select_path pick now W a)) = Some ft"
    "ft \<in> fst ` set (selection_paths W a)"
  using update_candidate [OF select_path_selected(1) assms] that by blast

end

text \<open>The commands of a selection: the status of every open path, the redundant ones closed, the missing ones opened.\<close>

lemma select_path_cmds:
  assumes "rs_selected_path (ra_state (select_path pick now W a)) = Some selected"
  shows "\<exists>new. rs_cmds (ra_state (select_path pick now W a)) = rs_cmds (ra_state a) @ new \<and>
     filter (\<lambda>c. \<not> is_open_cmd c) new = concat (map (path_cmds_of W selected) (ra_conns a)) \<and>
     concat (map opened_by new) = map (\<lambda>cid. (cid, Status_Available)) (missing_selected W selected (ra_conns a))"
proof -
  define b where "b = (case pick (rs_selected_path (ra_state a)) (selection_paths W a) of
     Some addr \<Rightarrow> a\<lparr>ra_state := (ra_state a)\<lparr>rs_selected_path := Some addr\<rparr>\<rparr> | None \<Rightarrow> a)"
  have b: "ra_conns b = ra_conns a" "rs_cmds (ra_state b) = rs_cmds (ra_state a)" by (simp_all add: b_def split: option.splits)
  have sel: "rs_selected_path (ra_state b) = Some selected"
    using assms unfolding select_path_selected(1) by (simp add: b_def split: option.splits)
  obtain conns s where ap: "apply_to_conns now W selected (ra_conns b) (ra_state b) = (conns, s)" by (rule prod.exhaust)
  have "ra_state (select_path pick now W a) = s"
    by (simp add: select_path_def Let_def b_def [symmetric] apply_selected_path_def sel ap)
  then show ?thesis using apply_to_conns_cmds [OF sel ap] b by simp
qed

lemma path_cmds_of_mem:
  "c \<in> set (concat (map (path_cmds_of W selected) es)) \<longleftrightarrow>
     (\<exists>cid cs conn p. (cid, cs) \<in> set es \<and> map_of W cid = Some conn \<and>
        p \<in> set (cs_paths cs) \<and> c \<in> set (path_cmd selected cid cs conn p))"
proof -
  have point: "c \<in> set (path_cmds_of W selected (cid, cs)) \<longleftrightarrow>
      (\<exists>conn p. map_of W cid = Some conn \<and> p \<in> set (cs_paths cs) \<and> c \<in> set (path_cmd selected cid cs conn p))" for cid cs
    by (cases "map_of W cid") (auto simp: path_cmds_of_def)
  have "c \<in> set (concat (map (path_cmds_of W selected) es)) \<longleftrightarrow>
      (\<exists>cid cs. (cid, cs) \<in> set es \<and> c \<in> set (path_cmds_of W selected (cid, cs)))" by auto
  then show ?thesis unfolding point by blast
qed

lemma path_cmd_mem:
  "Cmd_ClosePath cid i \<in> set (path_cmd selected cid' cs conn p) \<longleftrightarrow>
     cid' = cid \<and> fst p = i \<and> i \<in> fst ` set (nc_paths conn) \<and> redundant_path selected cs conn (snd p)"
  "Cmd_SetStatus cid i st \<in> set (path_cmd selected cid' cs conn p) \<longleftrightarrow>
     cid' = cid \<and> fst p = i \<and> i \<in> fst ` set (nc_paths conn) \<and> \<not> redundant_path selected cs conn (snd p) \<and>
     st = (if snd p = selected then Status_Available else Status_Backup)"
  by (cases p; auto simp: path_cmd_def)+

lemma selected_cmds_mem:
  assumes "filter (\<lambda>c. \<not> is_open_cmd c) new = concat (map (path_cmds_of W selected) es)"
  shows "Cmd_ClosePath cid i \<in> set new \<longleftrightarrow>
      (\<exists>cs conn ft. (cid, cs) \<in> set es \<and> map_of W cid = Some conn \<and> i \<in> fst ` set (nc_paths conn) \<and>
         (i, ft) \<in> set (cs_paths cs) \<and> redundant_path selected cs conn ft)"
    "Cmd_SetStatus cid i st \<in> set new \<longleftrightarrow>
      (\<exists>cs conn ft. (cid, cs) \<in> set es \<and> map_of W cid = Some conn \<and> i \<in> fst ` set (nc_paths conn) \<and>
         (i, ft) \<in> set (cs_paths cs) \<and> \<not> redundant_path selected cs conn ft \<and>
         st = (if ft = selected then Status_Available else Status_Backup))"
proof -
  have mem: "c \<in> set new \<longleftrightarrow> c \<in> set (concat (map (path_cmds_of W selected) es))" if "\<not> is_open_cmd c" for c
    using that unfolding assms [symmetric] by simp
  have not_open: "\<not> is_open_cmd (Cmd_ClosePath cid i)" "\<not> is_open_cmd (Cmd_SetStatus cid i st)"
    by (simp_all add: is_open_cmd_def)
  show "Cmd_ClosePath cid i \<in> set new \<longleftrightarrow>
      (\<exists>cs conn ft. (cid, cs) \<in> set es \<and> map_of W cid = Some conn \<and> i \<in> fst ` set (nc_paths conn) \<and>
         (i, ft) \<in> set (cs_paths cs) \<and> redundant_path selected cs conn ft)"
    unfolding mem [OF not_open(1)] path_cmds_of_mem path_cmd_mem split_paired_Ex fst_conv snd_conv by blast
  show "Cmd_SetStatus cid i st \<in> set new \<longleftrightarrow>
      (\<exists>cs conn ft. (cid, cs) \<in> set es \<and> map_of W cid = Some conn \<and> i \<in> fst ` set (nc_paths conn) \<and>
         (i, ft) \<in> set (cs_paths cs) \<and> \<not> redundant_path selected cs conn ft \<and>
         st = (if ft = selected then Status_Available else Status_Backup))"
    unfolding mem [OF not_open(2)] path_cmds_of_mem path_cmd_mem split_paired_Ex fst_conv snd_conv by blast
qed

section \<open>Hole punching\<close>

text \<open>
  The candidates of a network that does not change: a client connection, its remote addresses, and
  rounds of hole punching that succeed and try all of them.
\<close>

definition steady_network :: "noq_world \<Rightarrow> remote_actor \<Rightarrow> bool" where
  "steady_network W a \<longleftrightarrow>
     (case client_conn W a of
        None \<Rightarrow> False
      | Some (cid, conn) \<Rightarrow>
          (case (nc_remote_nat conn, nc_nat_round conn) of
             (Inr addrs, Inr tried) \<Rightarrow> set addrs \<subseteq> canonical_socket ` set tried
           | _ \<Rightarrow> False))"

definition punched_at :: "instant \<Rightarrow> noq_world \<Rightarrow> remote_actor \<Rightarrow> bool" where
  "punched_at t W a \<longleftrightarrow>
     (\<exists>cid conn addrs hp. client_conn W a = Some (cid, conn) \<and> nc_remote_nat conn = Inr addrs \<and>
        rs_last_holepunch (ra_state a) = Some hp \<and> hp_when hp = t \<and> \<not> new_candidates (ra_state a) addrs)"

abbreviation attempts :: "remote_actor \<Rightarrow> nat" where
  "attempts a \<equiv> holepunch_attempts (rs_metrics (ra_state a))"

lemma client_conn_state [simp]: "client_conn W (a\<lparr>ra_state := s\<rparr>) = client_conn W a"
  by (simp add: client_conn_def live_conns_def)

lemma steady_state [simp]: "steady_network W (a\<lparr>ra_state := s\<rparr>) = steady_network W a"
  by (simp add: steady_network_def)

lemma trigger_steady:
  assumes "steady_network W a"
  shows "steady_network W (trigger_holepunching now W a)"
    "punched_at t W a \<Longrightarrow> now < t + HOLEPUNCH_ATTEMPTS_INTERVAL \<Longrightarrow>
       attempts (trigger_holepunching now W a) = attempts a \<and> punched_at t W (trigger_holepunching now W a) \<and>
       rs_scheduled_holepunch (ra_state (trigger_holepunching now W a)) = Some (t + HOLEPUNCH_ATTEMPTS_INTERVAL)"
    "\<not> (\<exists>t. punched_at t W a \<and> now < t + HOLEPUNCH_ATTEMPTS_INTERVAL) \<Longrightarrow>
       attempts (trigger_holepunching now W a) = attempts a + 1 \<and> punched_at now W (trigger_holepunching now W a)"
proof -
  obtain cid conn addrs tried where c: "client_conn W a = Some (cid, conn)" "nc_remote_nat conn = Inr addrs"
    "nc_nat_round conn = Inr tried" "set addrs \<subseteq> canonical_socket ` set tried"
    using assms unfolding steady_network_def
    by (cases "client_conn W a"; cases "nc_remote_nat (snd (the (client_conn W a)))";
        cases "nc_nat_round (snd (the (client_conn W a)))") auto
  have st: "\<exists>s. trigger_holepunching now W a = a\<lparr>ra_state := s\<rparr>"
    by (auto simp: trigger_holepunching_def c Let_def split: option.splits)
  then show "steady_network W (trigger_holepunching now W a)" using assms by auto
  show "attempts (trigger_holepunching now W a) = attempts a \<and> punched_at t W (trigger_holepunching now W a) \<and>
       rs_scheduled_holepunch (ra_state (trigger_holepunching now W a)) = Some (t + HOLEPUNCH_ATTEMPTS_INTERVAL)"
    if "punched_at t W a" "now < t + HOLEPUNCH_ATTEMPTS_INTERVAL"
    using that by (auto simp: trigger_holepunching_def c Let_def punched_at_def new_candidates_def)
  show "attempts (trigger_holepunching now W a) = attempts a + 1 \<and> punched_at now W (trigger_holepunching now W a)"
    if "\<not> (\<exists>t. punched_at t W a \<and> now < t + HOLEPUNCH_ATTEMPTS_INTERVAL)"
  proof -
    have "trigger_holepunching now W a = a\<lparr>ra_state := do_holepunching now cid conn (ra_state a)\<rparr>"
      using that by (auto simp: trigger_holepunching_def c Let_def punched_at_def split: option.splits)
    then show ?thesis
      using c(4) by (auto simp: c do_holepunching_def Let_def punched_at_def new_candidates_def)
  qed
qed

lemma trigger_rate:
  assumes "steady_network W a" "punched_at t W a" "sorted (t # ts)"
  shows "attempts (fold (\<lambda>now. trigger_holepunching now W) ts a) \<le>
    attempts a + (last (t # ts) - t) div HOLEPUNCH_ATTEMPTS_INTERVAL"
  using assms
proof (induction ts arbitrary: a t)
  case (Cons now ts)
  let ?a = "trigger_holepunching now W a" and ?I = HOLEPUNCH_ATTEMPTS_INTERVAL and ?l = "last (now # ts)"
  have le: "t \<le> now" "now \<le> ?l" using Cons.prems(3) by (auto simp: last_conv_nth sorted_iff_nth_mono split: if_splits)
  have st: "steady_network W ?a" by (rule trigger_steady(1) [OF Cons.prems(1)])
  show ?case
  proof (cases "now < t + ?I")
    case True
    have s: "sorted (t # ts)" using Cons.prems(3) by auto
    have "attempts (fold (\<lambda>now. trigger_holepunching now W) ts ?a) \<le> attempts ?a + (last (t # ts) - t) div ?I"
      using trigger_steady(2) [OF Cons.prems(1,2) True] by (intro Cons.IH st s) simp
    moreover have "(last (t # ts) - t) div ?I \<le> (?l - t) div ?I"
      using le by (intro div_le_mono) auto
    ultimately show ?thesis using trigger_steady(2) [OF Cons.prems(1,2) True] by simp
  next
    case False
    have "\<not> (\<exists>u. punched_at u W a \<and> now < u + ?I)" using Cons.prems(2) False by (auto simp: punched_at_def)
    note k = trigger_steady(3) [OF Cons.prems(1) this]
    have "attempts (fold (\<lambda>now. trigger_holepunching now W) ts ?a) \<le> attempts ?a + (?l - now) div ?I"
      using Cons.prems(3) k by (intro Cons.IH st) auto
    moreover have "1 + (?l - now) div ?I \<le> (?l - t) div ?I"
    proof -
      have "?I > 0" by (simp add: HOLEPUNCH_ATTEMPTS_INTERVAL_def from_secs_def)
      then have "1 + (?l - now) div ?I = (?I + (?l - now)) div ?I" by (subst div_add_self1) auto
      also have "\<dots> \<le> (?l - t) div ?I" using False le by (intro div_le_mono) linarith
      finally show ?thesis .
    qed
    ultimately show ?thesis using k by simp
  qed
qed simp

section \<open>Requests\<close>

abbreviation requests_of :: "remote_actor \<Rightarrow> nat multiset" where
  "requests_of a \<equiv> rp_requests (rs_paths (ra_state a))"

definition requested :: "remote_event \<Rightarrow> nat list" where
  "requested e = (case e of Re_Message m \<Rightarrow> (case m of Msg_ResolveRemote _ tx \<Rightarrow> [tx] | _ \<Rightarrow> []) | _ \<Rightarrow> [])"

lemma same_conns_requests: "same_conns a a' \<Longrightarrow> requests_of a' = requests_of a"
  by (simp add: same_conns_def same_core_def)

lemma select_path_requests: "requests_of (select_path pick now W a) = requests_of a"
  using apply_selected_path_conns(2) [where now = now and W = W]
  by (simp add: select_path_def Let_def same_core_def split: option.splits)

lemma register_requests:
  "register_and_configure_path now cid cs conn i path s = (r, cs', s') \<Longrightarrow> rp_requests (rs_paths s') = rp_requests (rs_paths s)"
  by (auto simp: register_and_configure_path_def Let_def set_path_status_def rp_ops_requests split: option.splits prod.splits if_splits)

lemma handle_path_event_requests: "requests_of (handle_path_event pick now W cid event a) = requests_of a"
proof (cases "map_of (ra_conns a) cid"; cases "map_of W cid")
  fix cs conn
  assume "map_of (ra_conns a) cid = Some cs" "map_of W cid = Some conn"
  then show ?thesis
    by (cases event)
      (auto simp: handle_path_event_def Let_def select_path_requests rp_ops_requests register_requests
        split: option.splits prod.splits)
qed (simp_all add: handle_path_event_def)

lemma add_connection_requests: "requests_of (handle_msg_add_connection pick now W cid conn a) = requests_of a"
proof -
  let ?s = "(ra_state a)\<lparr>rs_metrics := (rs_metrics (ra_state a))\<lparr>num_conns_opened := num_conns_opened (rs_metrics (ra_state a)) + 1\<rparr>\<rparr>"
  let ?s2 = "update_qnt_candidates cid conn (rs_local_addrs ?s) ?s"
  obtain r cs s3 where reg: "(case map_of (nc_paths conn) 0 of
               None \<Rightarrow> (None, conn_state_new, ?s2)
             | Some path \<Rightarrow> register_and_configure_path now cid conn_state_new conn 0 path ?s2) = (r, cs, s3)"
    by (rule prod_cases3)
  have "rs_paths ?s2 = rs_paths (ra_state a)" by (subst same_coreD(2) [OF update_qnt_kept(1)]) simp
  then have s3: "rp_requests (rs_paths s3) = requests_of a"
    using reg register_requests [of now cid conn_state_new conn 0 _ ?s2 r cs s3] by (auto split: option.splits)
  define f where "f = (\<lambda>r. open_path_on_conn now cid cs conn (ft_from_remote r))"
  have fk: "rs_paths (fold f rs s) = rs_paths s" for rs s
    by (rule same_coreD(2), rule fold_kept(1)) (simp_all add: f_def open_path_on_conn_kept)
  have tr: "requests_of (trigger_holepunching now W1 b) = requests_of b" for W1 b
    by (rule same_conns_requests) simp
  show ?thesis
    unfolding handle_msg_add_connection_def Let_def reg prod.case f_def [symmetric] select_path_requests tr
    using s3 fk by (simp split: option.splits)
qed

lemma run_event_requests: "requests_of (run_event pick now W e a) = mset (requested e) + requests_of a"
proof -
  have sc: "requests_of (trigger_holepunching now W b) = requests_of b" "requests_of (check_connections now W b) = requests_of b"
    "requests_of (fold (open_path_on_all_conns now W) fts b) = requests_of b" "requests_of (update_local_direct_address W b) = requests_of b" for b fts
    by (rule same_conns_requests, simp add: fold_open_all_same)+
  have send: "rs_paths (handle_msg_send_datagram t s) = rs_paths s" for t s
    by (simp add: handle_msg_send_datagram_def split: option.splits)
  have msg: "requests_of (handle_message pick now W m a) = mset (requested (Re_Message m)) + requests_of a" for m
    by (cases m) (auto simp: requested_def sc send add_connection_requests handle_msg_network_change_def Let_def
        handle_msg_resolve_remote_def trigger_address_lookup_def rp_ops_requests)
  show ?thesis
    by (cases e) (auto simp: msg requested_def sc handle_path_event_requests handle_connection_close_def Let_def
        handle_address_lookup_item_def rp_ops_requests split: option.splits sum.splits)
qed

lemma run_events_requests:
  "requests_of (run_events pick es a) = mset (concat (map (\<lambda>(_, _, e). requested e) es)) + requests_of a"
  unfolding run_events_def
  by (induction es arbitrary: a) (auto simp: run_event_requests)

end
