(* ===== verification/Socket_Instances.thy ===== *)
theory Socket_Instances
  imports Remote_Behaviour Instances "HOL-Library.Code_Target_Nat"
begin

text \<open>
  Concrete addresses, paths and a short run of the remote state actor, on which the properties of
  the socket side are evaluated.
\<close>

definition fresh_mapped :: mapped_addrs where
  "fresh_mapped = \<lparr>ma_relay = addr_map_default, ma_custom = addr_map_default, ma_relay_counter = 0, ma_custom_counter = 0\<rparr>"

lemma fresh_mapped_ok: "mapped_inv fresh_mapped" "mapped_room fresh_mapped"
  by (simp_all add: fresh_mapped_def mapped_inv_def mapped_room_def addr_map_inv_def addr_map_default_def)

definition lan_path :: four_tuple where "lan_path = FT_Ip (SocketV4 [10, 0, 0, 1] 1) None"
definition wan_path :: four_tuple where "wan_path = FT_Ip (SocketV4 [10, 0, 0, 2] 2) None"
definition relay_path :: four_tuple where "relay_path = FT_Relay ''https://relay'' [1]"

lemmas example_paths = lan_path_def wan_path_def relay_path_def

lemma select_example:
  "select biases_default None [(lan_path, Some (from_millis 20)), (wan_path, Some (from_millis 30)), (relay_path, Some 1)] =
     Some lan_path"
  by code_simp

definition closed_paths :: "nat \<Rightarrow> (addr \<times> path_state) list" where
  "closed_paths n =
     map (\<lambda>i. (Addr_Ip (SocketV4 [10, 0, 0, 1] (of_nat i)), \<lparr>ps_sources = [], ps_status = PS_Inactive i\<rparr>)) [0..<n]"

definition two_path_conn :: noq_conn where
  "two_path_conn = \<lparr>nc_client = True,
     nc_paths = [(0, Some (SocketV4 [10, 0, 0, 1] 1, None)), (1, Some (SocketV4 [10, 0, 0, 2] 2, None))],
     nc_rtt = [(0, from_millis 20), (1, from_millis 30)], nc_stats = (\<lambda>_. 0), nc_open = (\<lambda>_. Opening 2),
     nc_remote_nat = Inr [SocketV4 [10, 0, 0, 1] 1], nc_local_nat = Inr [],
     nc_nat_round = Inr [SocketV4 [10, 0, 0, 1] 1]\<rparr>"

definition example_events :: "(instant \<times> noq_world \<times> remote_event) list" where
  "example_events =
     [(0, [], Re_Message (Msg_ResolveRemote [] 5)),
      (1, [], Re_Message (Msg_AddConnection 7 two_path_conn)),
      (2, [(7, two_path_conn)], Re_Path 7 (Noq_Established 1))]"

definition example_actor :: remote_actor where
  "example_actor = run_events (select biases_default) example_events (remote_actor_new [1] fresh_mapped [])"

lemma example_actor_eval:
  "let a = example_actor in
   (rs_selected_path (ra_state a), map_option cs_paths (map_of (ra_conns a) 7), rp_replies (rs_paths (ra_state a)),
    map fst (ra_conns a), rs_last_holepunch (ra_state a)) =
   (Some lan_path, Some [(0, lan_path), (1, wan_path)], [(5, Inr ())],
    [7], Some \<lparr>hp_when = 1, hp_local = [], hp_remote = [SocketV4 [10, 0, 0, 1] 1]\<rparr>)"
  by code_simp

lemma example_actor_state:
  "rs_selected_path (ra_state example_actor) = Some lan_path"
  "map_option cs_paths (map_of (ra_conns example_actor) 7) = Some [(0, lan_path), (1, wan_path)]"
  "rp_replies (rs_paths (ra_state example_actor)) = [(5, Inr ())]" "map fst (ra_conns example_actor) = [7]"
  "rs_last_holepunch (ra_state example_actor) = Some \<lparr>hp_when = 1, hp_local = [], hp_remote = [SocketV4 [10, 0, 0, 1] 1]\<rparr>"
  using example_actor_eval unfolding Let_def prod.inject by blast+

end
