(* ===== verification/Remote_Map.thy ===== *)
theory Remote_Map
  imports Mapped_Addrs
begin

text \<open>
  The map from remote endpoints to their actors (\<open>iroh/src/socket/remote_map.rs\<close>, with the end of
  the actor's main loop in \<open>remote_state.rs\<close>): actors are started on demand, end when they are idle,
  and are restarted if messages arrived while they were ending. Sending to a channel is atomic: it
  succeeds while the inbox is open and has room. Lemmas: there is never more than one actor for an
  endpoint, and the messages of an endpoint are handled in the order they were sent, none is lost.
\<close>

definition INBOX_CAPACITY :: nat where "INBOX_CAPACITY = 16"

datatype task_phase = Tk_Running | Tk_Closed | Tk_Finished

record 'm actor_task =
  tk_remote :: bytes
  tk_initial :: "'m list"
  tk_inbox :: "'m list"
  tk_phase :: task_phase

text \<open>The last three fields record a send waiting for an ending actor, and what was sent and handled.\<close>

record 'm remote_map =
  rm_endpoint_addrs :: "(bytes, bytes) addr_map \<times> u64"
  rm_senders :: "(bytes \<times> nat) list"
  rm_tasks :: "(nat \<times> 'm actor_task) list"
  rm_next :: nat
  rm_sending :: "(bytes \<times> 'm) option"
  rm_sent :: "(bytes \<times> 'm) list"
  rm_handled :: "(bytes \<times> 'm) list"

definition remote_map_new :: "u64 \<Rightarrow> 'm remote_map" where
  "remote_map_new counter =
     \<lparr>rm_endpoint_addrs = (addr_map_default, counter), rm_senders = [], rm_tasks = [], rm_next = 0,
      rm_sending = None, rm_sent = [], rm_handled = []\<rparr>"

definition start_remote_state_actor :: "bytes \<Rightarrow> 'm list \<Rightarrow> 'm remote_map \<Rightarrow> nat \<times> 'm remote_map" where
  "start_remote_state_actor eid initial_msgs m =
     (let (_, addrs) = addr_map_get endpoint_id_generate eid (rm_endpoint_addrs m);
          task = \<lparr>tk_remote = eid, tk_initial = initial_msgs, tk_inbox = [], tk_phase = Tk_Running\<rparr>
      in (rm_next m, m\<lparr>rm_endpoint_addrs := addrs, rm_tasks := rm_tasks m @ [(rm_next m, task)],
                      rm_next := rm_next m + 1\<rparr>))"

definition remove_or_restart_actor :: "bytes \<Rightarrow> 'm list \<Rightarrow> 'm remote_map \<Rightarrow> bool \<times> 'm remote_map" where
  "remove_or_restart_actor remote_id leftover_msgs m =
     (if leftover_msgs = [] then (True, m\<lparr>rm_senders := al_remove remote_id (rm_senders m)\<rparr>)
      else let (sender, m1) = start_remote_state_actor remote_id leftover_msgs m
           in (False, m1\<lparr>rm_senders := al_update remote_id sender (rm_senders m1)\<rparr>))"

definition get_or_start :: "bytes \<Rightarrow> 'm remote_map \<Rightarrow> nat \<times> 'm remote_map" where
  "get_or_start remote_id m =
     (case map_of (rm_senders m) remote_id of
        Some i \<Rightarrow> (i, m)
      | None \<Rightarrow>
          let (i, m1) = start_remote_state_actor remote_id [] m
          in (i, m1\<lparr>rm_senders := al_update remote_id i (rm_senders m1)\<rparr>))"

definition push_msg :: "nat \<Rightarrow> 'm actor_task \<Rightarrow> 'm \<Rightarrow> 'm remote_map \<Rightarrow> 'm remote_map" where
  "push_msg i t msg m =
     m\<lparr>rm_tasks := al_update i (t\<lparr>tk_inbox := tk_inbox t @ [msg]\<rparr>) (rm_tasks m),
       rm_sent := rm_sent m @ [(tk_remote t, msg)]\<rparr>"

text \<open>None: the send waits, because the inbox is full.\<close>

definition send_to_actor :: "bytes \<Rightarrow> 'm \<Rightarrow> 'm remote_map \<Rightarrow> 'm remote_map option" where
  "send_to_actor remote_id msg m =
     (let (i, m1) = get_or_start remote_id m in
      case map_of (rm_tasks m1) i of
        None \<Rightarrow> None
      | Some t \<Rightarrow>
          if tk_phase t \<noteq> Tk_Running
          then Some (m1\<lparr>rm_sending := Some (remote_id, msg), rm_sent := rm_sent m1 @ [(remote_id, msg)]\<rparr>)
          else if length (tk_inbox t) < INBOX_CAPACITY then Some (push_msg i t msg m1)
          else None)"

definition try_send :: "nat \<Rightarrow> 'm \<Rightarrow> 'm remote_map \<Rightarrow> 'm remote_map" where
  "try_send i msg m =
     (case map_of (rm_tasks m) i of
        Some t \<Rightarrow> if tk_phase t = Tk_Running \<and> length (tk_inbox t) < INBOX_CAPACITY then push_msg i t msg m else m
      | None \<Rightarrow> m)"

definition on_network_change :: "'m \<Rightarrow> 'm remote_map \<Rightarrow> 'm remote_map" where
  "on_network_change msg m = fold (\<lambda>(_, i). try_send i msg) (rm_senders m) m"

text \<open>The end of a joined task, during a cleanup or while a send waits for it.\<close>

definition join_task :: "nat \<Rightarrow> 'm actor_task \<Rightarrow> 'm remote_map \<Rightarrow> 'm remote_map" where
  "join_task i t m =
     (let m1 = m\<lparr>rm_tasks := al_remove i (rm_tasks m)\<rparr> in
      case rm_sending m of
        Some (remote_id, msg) \<Rightarrow>
          if tk_remote t \<noteq> remote_id then snd (remove_or_restart_actor (tk_remote t) (tk_inbox t) m1)
          else (snd (remove_or_restart_actor (tk_remote t) (tk_inbox t @ [msg]) m1))\<lparr>rm_sending := None\<rparr>
      | None \<Rightarrow> snd (remove_or_restart_actor (tk_remote t) (tk_inbox t) m1))"

text \<open>
  The steps of the system. The map is borrowed exclusively by a waiting send; handles of the senders
  can be used at any time, and the actors run concurrently. An actor handles its initial messages
  before it reads the inbox, and closes the inbox only then.
\<close>

inductive rm_step :: "'m remote_map \<Rightarrow> 'm remote_map \<Rightarrow> bool" where
  send: "rm_sending m = None \<Longrightarrow> send_to_actor e msg m = Some m' \<Longrightarrow> rm_step m m'"
| network_change: "rm_sending m = None \<Longrightarrow> rm_step m (on_network_change msg m)"
| direct_send: "map_of (rm_senders m) e = Some i \<Longrightarrow> rm_step m (try_send i msg m)"
| join: "map_of (rm_tasks m) i = Some t \<Longrightarrow> tk_phase t = Tk_Finished \<Longrightarrow> rm_step m (join_task i t m)"
| handle_initial: "map_of (rm_tasks m) i = Some t \<Longrightarrow> tk_phase t = Tk_Running \<Longrightarrow> tk_initial t = msg # msgs \<Longrightarrow>
    rm_step m (m\<lparr>rm_tasks := al_update i (t\<lparr>tk_initial := msgs\<rparr>) (rm_tasks m),
                 rm_handled := rm_handled m @ [(tk_remote t, msg)]\<rparr>)"
| handle_inbox: "map_of (rm_tasks m) i = Some t \<Longrightarrow> tk_phase t = Tk_Running \<Longrightarrow> tk_initial t = [] \<Longrightarrow>
    tk_inbox t = msg # msgs \<Longrightarrow>
    rm_step m (m\<lparr>rm_tasks := al_update i (t\<lparr>tk_inbox := msgs\<rparr>) (rm_tasks m),
                 rm_handled := rm_handled m @ [(tk_remote t, msg)]\<rparr>)"
| close_inbox: "map_of (rm_tasks m) i = Some t \<Longrightarrow> tk_phase t = Tk_Running \<Longrightarrow> tk_initial t = [] \<Longrightarrow>
    rm_step m (m\<lparr>rm_tasks := al_update i (t\<lparr>tk_phase := Tk_Closed\<rparr>) (rm_tasks m)\<rparr>)"
| finish: "map_of (rm_tasks m) i = Some t \<Longrightarrow> tk_phase t = Tk_Closed \<Longrightarrow>
    rm_step m (m\<lparr>rm_tasks := al_update i (t\<lparr>tk_phase := Tk_Finished\<rparr>) (rm_tasks m)\<rparr>)"

inductive rm_reachable :: "u64 \<Rightarrow> 'm remote_map \<Rightarrow> bool" for counter where
  start: "rm_reachable counter (remote_map_new counter)"
| step: "rm_reachable counter m \<Longrightarrow> rm_step m m' \<Longrightarrow> rm_reachable counter m'"

section \<open>Queues\<close>

definition of_remote :: "bytes \<Rightarrow> (bytes \<times> 'm) list \<Rightarrow> 'm list" where
  "of_remote e ms = map snd (filter (\<lambda>(e', _). e' = e) ms)"

definition task_msgs :: "bytes \<Rightarrow> (nat \<times> 'm actor_task) list \<Rightarrow> 'm list" where
  "task_msgs e ts = concat (map (\<lambda>(_, t). if tk_remote t = e then tk_initial t @ tk_inbox t else []) ts)"

definition waiting_msgs :: "bytes \<Rightarrow> 'm remote_map \<Rightarrow> 'm list" where
  "waiting_msgs e m = task_msgs e (rm_tasks m) @ of_remote e (case rm_sending m of None \<Rightarrow> [] | Some p \<Rightarrow> [p])"

definition remotes :: "(nat \<times> 'm actor_task) list \<Rightarrow> bytes list" where
  "remotes ts = map (\<lambda>(_, t). tk_remote t) ts"

definition rm_inv :: "'m remote_map \<Rightarrow> bool" where
  "rm_inv m \<longleftrightarrow>
     distinct (al_keys (rm_tasks m)) \<and> distinct (remotes (rm_tasks m)) \<and>
     (\<forall>i \<in> fst ` set (rm_tasks m). i < rm_next m) \<and>
     distinct (al_keys (rm_senders m)) \<and>
     (\<forall>e i. map_of (rm_senders m) e = Some i \<longleftrightarrow> (\<exists>t. map_of (rm_tasks m) i = Some t \<and> tk_remote t = e)) \<and>
     (\<forall>i t. map_of (rm_tasks m) i = Some t \<longrightarrow> tk_phase t \<noteq> Tk_Running \<longrightarrow> tk_initial t = []) \<and>
     (\<forall>e msg. rm_sending m = Some (e, msg) \<longrightarrow>
        (\<exists>i t. map_of (rm_tasks m) i = Some t \<and> tk_remote t = e \<and> tk_phase t \<noteq> Tk_Running)) \<and>
     (\<forall>e. of_remote e (rm_sent m) = of_remote e (rm_handled m) @ waiting_msgs e m)"

lemma of_remote_append [simp]: "of_remote e (xs @ ys) = of_remote e xs @ of_remote e ys"
  by (simp add: of_remote_def)

lemma of_remote_simps [simp]: "of_remote e [] = []" "of_remote e [(e', x)] = (if e' = e then [x] else [])"
  by (simp_all add: of_remote_def)

lemma task_msgs_append [simp]: "task_msgs e (xs @ ys) = task_msgs e xs @ task_msgs e ys"
  by (simp add: task_msgs_def)

lemma task_msgs_Cons [simp]:
  "task_msgs e ((i, t) # ts) = (if tk_remote t = e then tk_initial t @ tk_inbox t else []) @ task_msgs e ts"
  "task_msgs e [] = []"
  by (simp_all add: task_msgs_def)

lemma task_msgs_none: "e \<notin> set (remotes ts) \<Longrightarrow> task_msgs e ts = []"
  by (induction ts) (auto simp: task_msgs_def remotes_def)

lemma remotes_simps [simp]: "remotes [] = []" "remotes ((i, t) # ts) = tk_remote t # remotes ts" "remotes (xs @ ys) = remotes xs @ remotes ys"
  by (simp_all add: remotes_def)

lemma remotes_mem: "map_of ts i = Some t \<Longrightarrow> tk_remote t \<in> set (remotes ts)"
  by (induction ts) (auto split: if_splits)

lemma task_msgs_of:
  assumes "distinct (remotes ts)" "map_of ts i = Some t"
  shows "task_msgs (tk_remote t) ts = tk_initial t @ tk_inbox t"
  using assms by (induction ts) (auto simp: task_msgs_none remotes_mem split: if_splits dest: remotes_mem)

lemma task_msgs_update:
  assumes "distinct (remotes ts)" "map_of ts i = Some t" "tk_remote t' = tk_remote t"
  shows "task_msgs e (al_update i t' ts) = (if e = tk_remote t then tk_initial t' @ tk_inbox t' else task_msgs e ts)"
    "remotes (al_update i t' ts) = remotes ts"
proof -
  show "task_msgs e (al_update i t' ts) = (if e = tk_remote t then tk_initial t' @ tk_inbox t' else task_msgs e ts)"
    using assms by (induction ts) (auto simp: task_msgs_none split: if_splits, (metis remotes_mem)+)
  show "remotes (al_update i t' ts) = remotes ts" using assms by (induction ts) auto
qed

lemma task_msgs_remove:
  assumes "distinct (remotes ts)" "distinct (al_keys ts)" "map_of ts i = Some t"
  shows "task_msgs e (al_remove i ts) = (if e = tk_remote t then [] else task_msgs e ts) \<and>
    set (remotes (al_remove i ts)) = set (remotes ts) - {tk_remote t} \<and> distinct (remotes (al_remove i ts))"
  using assms
proof (induction ts)
  case (Cons p ts)
  obtain j u where p: "p = (j, u)" by force
  show ?case
  proof (cases "j = i")
    case True
    then have "t = u" "al_remove i (p # ts) = ts"
      using Cons.prems p al_remove_absent [of i ts] by (auto simp: al_remove_def)
    then show ?thesis using Cons.prems p by (auto simp: task_msgs_none)
  next
    case False
    then have "al_remove i (p # ts) = p # al_remove i ts" "tk_remote t \<in> set (remotes ts)"
      using Cons.prems p by (auto simp: al_remove_def intro: remotes_mem)
    then show ?thesis using Cons False p by auto
  qed
qed simp

lemma rm_invI:
  assumes "distinct (al_keys (rm_tasks m))" "distinct (remotes (rm_tasks m))"
    "\<And>i. i \<in> fst ` set (rm_tasks m) \<Longrightarrow> i < rm_next m" "distinct (al_keys (rm_senders m))"
    "\<And>e i. map_of (rm_senders m) e = Some i \<longleftrightarrow> (\<exists>t. map_of (rm_tasks m) i = Some t \<and> tk_remote t = e)"
    "\<And>i t. map_of (rm_tasks m) i = Some t \<Longrightarrow> tk_phase t \<noteq> Tk_Running \<Longrightarrow> tk_initial t = []"
    "\<And>e msg. rm_sending m = Some (e, msg) \<Longrightarrow>
        \<exists>i t. map_of (rm_tasks m) i = Some t \<and> tk_remote t = e \<and> tk_phase t \<noteq> Tk_Running"
    "\<And>e. of_remote e (rm_sent m) = of_remote e (rm_handled m) @ waiting_msgs e m"
  shows "rm_inv m"
  unfolding rm_inv_def using assms by blast

lemma rm_invD:
  assumes "rm_inv m"
  shows "distinct (al_keys (rm_tasks m))" "distinct (remotes (rm_tasks m))"
    "i \<in> fst ` set (rm_tasks m) \<Longrightarrow> i < rm_next m" "distinct (al_keys (rm_senders m))"
    "map_of (rm_senders m) e = Some i \<longleftrightarrow> (\<exists>t. map_of (rm_tasks m) i = Some t \<and> tk_remote t = e)"
    "map_of (rm_tasks m) i = Some t \<Longrightarrow> tk_phase t \<noteq> Tk_Running \<Longrightarrow> tk_initial t = []"
    "rm_sending m = Some (e, msg) \<Longrightarrow>
        \<exists>i t. map_of (rm_tasks m) i = Some t \<and> tk_remote t = e \<and> tk_phase t \<noteq> Tk_Running"
    "of_remote e (rm_sent m) = of_remote e (rm_handled m) @ waiting_msgs e m"
  using assms unfolding rm_inv_def by blast+

section \<open>Steps keep the invariant\<close>

text \<open>An actor step: messages enter at the end of the inbox or leave to the handled ones.\<close>

lemma rm_inv_update:
  assumes inv: "rm_inv m" and t: "map_of (rm_tasks m) i = Some t" and r: "tk_remote t' = tk_remote t"
    and ph: "tk_phase t' \<noteq> Tk_Running \<longrightarrow> tk_initial t' = []" "tk_phase t \<noteq> Tk_Running \<longrightarrow> tk_phase t' \<noteq> Tk_Running"
    and running: "new \<noteq> [] \<longrightarrow> tk_phase t = Tk_Running"
    and msgs: "tk_initial t @ tk_inbox t @ new = done @ tk_initial t' @ tk_inbox t'"
  shows "rm_inv (m\<lparr>rm_tasks := al_update i t' (rm_tasks m), rm_sent := rm_sent m @ map (Pair (tk_remote t)) new,
    rm_handled := rm_handled m @ map (Pair (tk_remote t)) done\<rparr>)" (is "rm_inv ?m")
proof -
  have d: "distinct (remotes (rm_tasks m))" using inv by (simp add: rm_inv_def)
  have of: "of_remote e (map (Pair e') xs) = (if e' = e then xs else [])" for e e' and xs :: "'a list"
    by (induction xs) (auto simp: of_remote_def)
  have idle: "of_remote (tk_remote t) (case rm_sending m of None \<Rightarrow> [] | Some p \<Rightarrow> [p]) = []" if "new \<noteq> []"
  proof (rule ccontr)
    assume "of_remote (tk_remote t) (case rm_sending m of None \<Rightarrow> [] | Some p \<Rightarrow> [p]) \<noteq> []"
    then obtain msg where "rm_sending m = Some (tk_remote t, msg)" by (auto split: option.splits if_splits)
    then obtain j u where u: "map_of (rm_tasks m) j = Some u" "tk_remote u = tk_remote t" "tk_phase u \<noteq> Tk_Running"
      using inv unfolding rm_inv_def by metis
    then have "map_of (rm_senders m) (tk_remote t) = Some j" "map_of (rm_senders m) (tk_remote t) = Some i"
      using inv t unfolding rm_inv_def by metis+
    then show False using u t running that by auto
  qed
  have fifo: "of_remote e (rm_sent ?m) = of_remote e (rm_handled ?m) @ waiting_msgs e ?m" for e
  proof -
    have "of_remote e (rm_sent m) = of_remote e (rm_handled m) @ waiting_msgs e m"
      using inv unfolding rm_inv_def by blast
    then show ?thesis
      using idle task_msgs_of [OF d t] msgs
      by (cases "new = []") (auto simp: waiting_msgs_def of task_msgs_update [OF d t r])
  qed
  have keys: "fst ` set (al_update i t' (rm_tasks m)) = fst ` set (rm_tasks m)"
    using t by (auto simp: insert_absorb dest: map_of_SomeD intro: rev_image_eqI)
  have lookup: "(\<exists>u. map_of (rm_tasks ?m) j = Some u \<and> tk_remote u = e) \<longleftrightarrow> (\<exists>u. map_of (rm_tasks m) j = Some u \<and> tk_remote u = e)" for j e
    using t r by auto
  show ?thesis
  proof (rule rm_invI)
    show "\<And>e i. map_of (rm_senders ?m) e = Some i \<longleftrightarrow> (\<exists>t. map_of (rm_tasks ?m) i = Some t \<and> tk_remote t = e)"
      unfolding lookup using rm_invD(5) [OF inv] by simp
    show "\<And>j u. map_of (rm_tasks ?m) j = Some u \<Longrightarrow> tk_phase u \<noteq> Tk_Running \<Longrightarrow> tk_initial u = []"
      using rm_invD(6) [OF inv] ph by (auto split: if_splits)
    show "\<And>e msg. rm_sending ?m = Some (e, msg) \<Longrightarrow>
        \<exists>j u. map_of (rm_tasks ?m) j = Some u \<and> tk_remote u = e \<and> tk_phase u \<noteq> Tk_Running"
    proof -
      fix e msg
      assume "rm_sending ?m = Some (e, msg)"
      then obtain j u where u: "map_of (rm_tasks m) j = Some u" "tk_remote u = e" "tk_phase u \<noteq> Tk_Running"
        using rm_invD(7) [OF inv] by auto
      then show "\<exists>j u. map_of (rm_tasks ?m) j = Some u \<and> tk_remote u = e \<and> tk_phase u \<noteq> Tk_Running"
        using t r ph by (cases "j = i") auto
    qed
  qed (use fifo rm_invD(1-4) [OF inv] in \<open>simp_all add: keys task_msgs_update(2) [OF d t r] del: set_al_keys_update\<close>)
qed

text \<open>Starting an actor, possibly in place of one that ended.\<close>

definition remove_task :: "nat \<Rightarrow> bytes \<Rightarrow> 'm remote_map \<Rightarrow> bool" where
  "remove_task i e m \<longleftrightarrow>
     (case map_of (rm_tasks m) i of None \<Rightarrow> e \<notin> set (remotes (rm_tasks m)) | Some t \<Rightarrow> tk_remote t = e)"

lemma remove_task_facts:
  assumes "rm_inv m" "remove_task i e m"
  shows "distinct (al_keys (al_remove i (rm_tasks m)))" "distinct (remotes (al_remove i (rm_tasks m)))"
    "e \<notin> set (remotes (al_remove i (rm_tasks m)))"
    "e' \<noteq> e \<Longrightarrow> task_msgs e' (al_remove i (rm_tasks m)) = task_msgs e' (rm_tasks m)"
    "map_of (rm_tasks m) j = Some u \<Longrightarrow> tk_remote u = e \<Longrightarrow> j = i"
proof -
  note d = rm_invD(1,2) [OF assms(1)]
  have absent: "al_remove i (rm_tasks m) = rm_tasks m" if "map_of (rm_tasks m) i = None"
    using that by (simp add: al_remove_absent map_of_eq_None_iff)
  show "distinct (al_keys (al_remove i (rm_tasks m)))" using d(1) by simp
  show "distinct (remotes (al_remove i (rm_tasks m)))" "e \<notin> set (remotes (al_remove i (rm_tasks m)))"
    "e' \<noteq> e \<Longrightarrow> task_msgs e' (al_remove i (rm_tasks m)) = task_msgs e' (rm_tasks m)"
    using d absent assms(2) task_msgs_remove [OF d(2,1), of i _ e']
    by (cases "map_of (rm_tasks m) i"; simp add: remove_task_def)+
  show "j = i" if "map_of (rm_tasks m) j = Some u" "tk_remote u = e"
  proof (rule ccontr)
    assume "j \<noteq> i"
    then have "map_of (al_remove i (rm_tasks m)) j = Some u" using that by simp
    then show False
      using remotes_mem that(2) \<open>e \<notin> set (remotes (al_remove i (rm_tasks m)))\<close> by metis
  qed
qed

lemma rm_inv_start:
  assumes inv: "rm_inv m" and rem: "remove_task i e m"
    and s': "s' = rm_sending m \<or> (s' = None \<and> e \<in> fst ` set_option (rm_sending m))" "e \<notin> fst ` set_option s'"
    and init: "init = task_msgs e (rm_tasks m) @ of_remote e (case rm_sending m of None \<Rightarrow> [] | Some p \<Rightarrow> [p])"
  shows "rm_inv (m\<lparr>rm_endpoint_addrs := addrs,
    rm_tasks := al_remove i (rm_tasks m) @
      [(rm_next m, \<lparr>tk_remote = e, tk_initial = init, tk_inbox = [], tk_phase = Tk_Running\<rparr>)],
    rm_next := rm_next m + 1, rm_senders := al_update e (rm_next m) (rm_senders m), rm_sending := s'\<rparr>)" (is "rm_inv ?m")
proof -
  note f = remove_task_facts [OF inv rem] and d = rm_invD [OF inv]
  have sub: "set (al_remove i (rm_tasks m)) \<subseteq> set (rm_tasks m)" by (auto simp: al_remove_def)
  have fresh: "map_of (rm_tasks m) (rm_next m) = None" "rm_next m \<notin> fst ` set (al_remove i (rm_tasks m))"
    using d(3) sub by (force simp: map_of_eq_None_iff)+
  show ?thesis
  proof (rule rm_invI)
    show "\<And>e' j. map_of (rm_senders ?m) e' = Some j \<longleftrightarrow> (\<exists>t. map_of (rm_tasks ?m) j = Some t \<and> tk_remote t = e')"
    proof -
      fix e' j
      show "map_of (rm_senders ?m) e' = Some j \<longleftrightarrow> (\<exists>t. map_of (rm_tasks ?m) j = Some t \<and> tk_remote t = e')"
      proof (cases "e' = e")
        case True
        then show ?thesis using fresh f(5) by (auto simp: map_add_def split: option.splits)
      next
        case False
        have "\<exists>t. map_of (rm_tasks m) i = Some t \<and> tk_remote t = e'" if "map_of (rm_senders m) e' = Some i"
          using that d(5) by blast
        then have "map_of (rm_senders m) e' \<noteq> Some i" using rem False by (auto simp: remove_task_def)
        then show ?thesis using False fresh d(5) [of e' j] by (auto simp: map_add_def split: option.splits)
      qed
    qed
    show "\<And>e' msg. rm_sending ?m = Some (e', msg) \<Longrightarrow>
        \<exists>j u. map_of (rm_tasks ?m) j = Some u \<and> tk_remote u = e' \<and> tk_phase u \<noteq> Tk_Running"
    proof -
      fix e' msg
      assume a: "rm_sending ?m = Some (e', msg)"
      have s1: "s' = Some (e', msg)" using a by simp
      have "rm_sending m = Some (e', msg)" using s'(1) unfolding s1 by auto
      moreover have "e' \<noteq> e" using s'(2) unfolding s1 by auto
      ultimately have a: "rm_sending m = Some (e', msg)" "e' \<noteq> e" by blast+
      then obtain j u where u: "map_of (rm_tasks m) j = Some u" "tk_remote u = e'" "tk_phase u \<noteq> Tk_Running"
        using d(7) by blast
      then have "j \<noteq> i" "j \<noteq> rm_next m" using rem fresh a(2) by (auto simp: remove_task_def)
      then show "\<exists>j u. map_of (rm_tasks ?m) j = Some u \<and> tk_remote u = e' \<and> tk_phase u \<noteq> Tk_Running"
        using u by (auto simp: map_add_def)
    qed
    show "\<And>e'. of_remote e' (rm_sent ?m) = of_remote e' (rm_handled ?m) @ waiting_msgs e' ?m"
      using d(8) f(3,4) s' by (auto simp: waiting_msgs_def init task_msgs_none split: option.splits)
    show "\<And>j. j \<in> fst ` set (rm_tasks ?m) \<Longrightarrow> j < rm_next ?m" using d(3) sub by fastforce
    show "\<And>j u. map_of (rm_tasks ?m) j = Some u \<Longrightarrow> tk_phase u \<noteq> Tk_Running \<Longrightarrow> tk_initial u = []"
      using d(6) by (auto simp: map_add_def split: option.splits if_splits)
  qed (use f(1-3) d(4) fresh in \<open>simp_all\<close>)
qed

lemma rm_inv_remove:
  assumes inv: "rm_inv m" and t: "map_of (rm_tasks m) i = Some t" and e: "tk_remote t = e"
    and s: "e \<notin> fst ` set_option (rm_sending m)" and none: "tk_initial t = []" "tk_inbox t = []"
  shows "rm_inv (m\<lparr>rm_tasks := al_remove i (rm_tasks m), rm_senders := al_remove e (rm_senders m)\<rparr>)" (is "rm_inv ?m")
proof -
  have rem: "remove_task i e m" using t e by (simp add: remove_task_def)
  note f = remove_task_facts [OF inv rem] and d = rm_invD [OF inv]
  have sub: "set (al_remove i (rm_tasks m)) \<subseteq> set (rm_tasks m)" by (auto simp: al_remove_def)
  have msgs: "task_msgs e' (al_remove i (rm_tasks m)) = task_msgs e' (rm_tasks m)" for e'
    using f(3,4) task_msgs_of [OF d(2) t] none e by (cases "e' = e") (simp_all add: task_msgs_none)
  have own: "map_of (rm_senders m) e' \<noteq> Some i" if "e' \<noteq> e" for e' using that d(5) [of e' i] t e by auto
  show ?thesis
  proof (rule rm_invI)
    show "\<And>e' j. map_of (rm_senders ?m) e' = Some j \<longleftrightarrow> (\<exists>t. map_of (rm_tasks ?m) j = Some t \<and> tk_remote t = e')"
    proof -
      fix e' j
      show "map_of (rm_senders ?m) e' = Some j \<longleftrightarrow> (\<exists>t. map_of (rm_tasks ?m) j = Some t \<and> tk_remote t = e')"
        using f(5) own d(5) [of e' j] by (cases "e' = e") auto
    qed
    show "\<And>e' msg. rm_sending ?m = Some (e', msg) \<Longrightarrow>
        \<exists>j u. map_of (rm_tasks ?m) j = Some u \<and> tk_remote u = e' \<and> tk_phase u \<noteq> Tk_Running"
    proof -
      fix e' msg
      assume a: "rm_sending ?m = Some (e', msg)"
      then obtain j u where u: "map_of (rm_tasks m) j = Some u" "tk_remote u = e'" "tk_phase u \<noteq> Tk_Running"
        using d(7) by auto
      then have "j \<noteq> i" using a s t e by auto
      then show "\<exists>j u. map_of (rm_tasks ?m) j = Some u \<and> tk_remote u = e' \<and> tk_phase u \<noteq> Tk_Running" using u by auto
    qed
    show "\<And>e'. of_remote e' (rm_sent ?m) = of_remote e' (rm_handled ?m) @ waiting_msgs e' ?m"
      using d(8) by (simp add: waiting_msgs_def msgs)
    show "\<And>j. j \<in> fst ` set (rm_tasks ?m) \<Longrightarrow> j < rm_next ?m" using d(3) sub by fastforce
    show "\<And>j u. map_of (rm_tasks ?m) j = Some u \<Longrightarrow> tk_phase u \<noteq> Tk_Running \<Longrightarrow> tk_initial u = []"
      using d(6) by (auto split: if_splits)
  qed (use f(1,2) d(4) in simp_all)
qed

lemma no_task: "rm_inv m \<Longrightarrow> map_of (rm_senders m) e = None \<Longrightarrow> remove_task (rm_next m) e m"
proof -
  assume inv: "rm_inv m" and none: "map_of (rm_senders m) e = None"
  have "map_of (rm_tasks m) (rm_next m) = None" using rm_invD(3) [OF inv, of "rm_next m"] by (auto simp: map_of_eq_None_iff)
  moreover have "e \<notin> set (remotes (rm_tasks m))"
  proof
    assume "e \<in> set (remotes (rm_tasks m))"
    then obtain i t where "(i, t) \<in> set (rm_tasks m)" "tk_remote t = e" by (auto simp: remotes_def)
    then have "map_of (rm_senders m) e = Some i" using rm_invD(1,5) [OF inv] by (metis map_of_is_SomeI)
    then show False using none by simp
  qed
  ultimately show ?thesis by (simp add: remove_task_def)
qed

lemma sending_same:
  "rm_sending m = s \<Longrightarrow> m\<lparr>rm_endpoint_addrs := a, rm_tasks := ts, rm_next := n, rm_senders := x, rm_sending := s\<rparr> =
     m\<lparr>rm_endpoint_addrs := a, rm_tasks := ts, rm_next := n, rm_senders := x\<rparr>"
  by (cases m) simp

lemma get_or_start_inv:
  assumes "rm_inv m" "rm_sending m = None" "get_or_start e m = (i, m')"
  shows "rm_inv m'" "rm_sending m' = None" "\<exists>t. map_of (rm_tasks m') i = Some t \<and> tk_remote t = e"
    "rm_sent m' = rm_sent m" "rm_handled m' = rm_handled m"
proof -
  have "rm_inv m' \<and> rm_sending m' = None \<and> (\<exists>t. map_of (rm_tasks m') i = Some t \<and> tk_remote t = e) \<and>
      rm_sent m' = rm_sent m \<and> rm_handled m' = rm_handled m"
  proof (cases "map_of (rm_senders m) e")
    case (Some j)
    then have "i = j" "m' = m" using assms(3) by (simp_all add: get_or_start_def)
    then show ?thesis using Some assms(1,2) rm_invD(5) [OF assms(1), of e j] by simp
  next
    case None
    note rem = no_task [OF assms(1) None]
    obtain a addrs where g: "addr_map_get endpoint_id_generate e (rm_endpoint_addrs m) = (a, addrs)" by (rule prod.exhaust)
    have fresh: "map_of (rm_tasks m) (rm_next m) = None"
      using rm_invD(3) [OF assms(1), of "rm_next m"] by (auto simp: map_of_eq_None_iff)
    then have same: "al_remove (rm_next m) (rm_tasks m) = rm_tasks m" by (simp add: al_remove_absent map_of_eq_None_iff)
    have "task_msgs e (rm_tasks m) = []" using rem fresh by (simp add: remove_task_def task_msgs_none)
    then show ?thesis
      using assms(2,3) None g fresh rm_inv_start [OF assms(1) rem, of None "[]" addrs] same
      by (auto simp: get_or_start_def start_remote_state_actor_def map_add_def sending_same)
  qed
  then show "rm_inv m'" "rm_sending m' = None" "\<exists>t. map_of (rm_tasks m') i = Some t \<and> tk_remote t = e"
    "rm_sent m' = rm_sent m" "rm_handled m' = rm_handled m" by blast+
qed

lemma push_msg_inv:
  assumes "rm_inv m" "map_of (rm_tasks m) i = Some t" "tk_phase t = Tk_Running"
  shows "rm_inv (push_msg i t msg m)"
  using rm_inv_update [OF assms(1,2), of "t\<lparr>tk_inbox := tk_inbox t @ [msg]\<rparr>" "[msg]" "[]"] assms(3)
  by (simp add: push_msg_def)

lemma try_send_inv: "rm_inv m \<Longrightarrow> rm_inv (try_send i msg m)"
  by (auto simp: try_send_def intro: push_msg_inv split: option.splits)

lemma on_network_change_inv: "rm_inv m \<Longrightarrow> rm_inv (on_network_change msg m)"
proof -
  have "rm_inv (fold (\<lambda>(_, i). try_send i msg) xs m)" if "rm_inv m" for xs :: "(bytes \<times> nat) list" and m
    using that by (induction xs arbitrary: m) (auto simp: try_send_inv)
  then show "rm_inv m \<Longrightarrow> rm_inv (on_network_change msg m)" by (simp add: on_network_change_def)
qed

lemma send_to_actor_inv:
  assumes "rm_inv m" "rm_sending m = None" "send_to_actor e msg m = Some m'"
  shows "rm_inv m'"
proof -
  obtain i m1 where g: "get_or_start e m = (i, m1)" by (rule prod.exhaust)
  note k = get_or_start_inv [OF assms(1,2) g]
  obtain t where t: "map_of (rm_tasks m1) i = Some t" "tk_remote t = e" using k(3) by blast
  note d = rm_invD [OF k(1)]
  show ?thesis
  proof (cases "tk_phase t = Tk_Running")
    case True
    then show ?thesis using assms(3) g t push_msg_inv [OF k(1) t(1)] by (auto simp: send_to_actor_def split: if_splits)
  next
    case False
    then have m': "m' = m1\<lparr>rm_sending := Some (e, msg), rm_sent := rm_sent m1 @ [(e, msg)]\<rparr>"
      using assms(3) g t by (simp add: send_to_actor_def)
    show ?thesis
      unfolding m'
    proof (rule rm_invI)
      show "\<And>e'. of_remote e' (rm_sent (m1\<lparr>rm_sending := Some (e, msg), rm_sent := rm_sent m1 @ [(e, msg)]\<rparr>)) =
          of_remote e' (rm_handled (m1\<lparr>rm_sending := Some (e, msg), rm_sent := rm_sent m1 @ [(e, msg)]\<rparr>)) @
          waiting_msgs e' (m1\<lparr>rm_sending := Some (e, msg), rm_sent := rm_sent m1 @ [(e, msg)]\<rparr>)"
        using d(8) k(2) by (simp add: waiting_msgs_def)
    qed (use d(1-6) t False in auto)
  qed
qed

lemma join_task_cases:
  assumes "rm_inv m" "map_of (rm_tasks m) i = Some t" "tk_phase t = Tk_Finished"
  defines "msgs \<equiv> waiting_msgs (tk_remote t) m"
  defines "s \<equiv> if tk_remote t \<in> fst ` set_option (rm_sending m) then None else rm_sending m"
  shows "msgs = [] \<Longrightarrow> join_task i t m = m\<lparr>rm_tasks := al_remove i (rm_tasks m), rm_senders := al_remove (tk_remote t) (rm_senders m)\<rparr>"
    "msgs \<noteq> [] \<Longrightarrow> \<exists>addrs. join_task i t m = m\<lparr>rm_endpoint_addrs := addrs,
      rm_tasks := al_remove i (rm_tasks m) @
        [(rm_next m, \<lparr>tk_remote = tk_remote t, tk_initial = msgs, tk_inbox = [], tk_phase = Tk_Running\<rparr>)],
      rm_next := rm_next m + 1, rm_senders := al_update (tk_remote t) (rm_next m) (rm_senders m), rm_sending := s\<rparr>"
proof -
  note d = rm_invD [OF assms(1)]
  have init: "tk_initial t = []" using d(6) [OF assms(2)] assms(3) by simp
  have msgs: "msgs = tk_inbox t @ of_remote (tk_remote t) (case rm_sending m of None \<Rightarrow> [] | Some p \<Rightarrow> [p])"
    using task_msgs_of [OF d(2) assms(2)] init by (simp add: msgs_def waiting_msgs_def)
  show "msgs = [] \<Longrightarrow> join_task i t m = m\<lparr>rm_tasks := al_remove i (rm_tasks m), rm_senders := al_remove (tk_remote t) (rm_senders m)\<rparr>"
    by (auto simp: msgs join_task_def remove_or_restart_actor_def Let_def split: option.splits if_splits)
  show "msgs \<noteq> [] \<Longrightarrow> \<exists>addrs. join_task i t m = m\<lparr>rm_endpoint_addrs := addrs,
      rm_tasks := al_remove i (rm_tasks m) @
        [(rm_next m, \<lparr>tk_remote = tk_remote t, tk_initial = msgs, tk_inbox = [], tk_phase = Tk_Running\<rparr>)],
      rm_next := rm_next m + 1, rm_senders := al_update (tk_remote t) (rm_next m) (rm_senders m), rm_sending := s\<rparr>"
    by (cases "rm_sending m")
      (auto simp: sending_same msgs s_def join_task_def remove_or_restart_actor_def start_remote_state_actor_def Let_def
        split: prod.splits if_splits)
qed

lemma join_task_inv:
  assumes "rm_inv m" "map_of (rm_tasks m) i = Some t" "tk_phase t = Tk_Finished"
  shows "rm_inv (join_task i t m)"
proof (cases "waiting_msgs (tk_remote t) m = []")
  case True
  have none: "tk_initial t = []" "tk_inbox t = []" "tk_remote t \<notin> fst ` set_option (rm_sending m)"
    using True task_msgs_of [OF rm_invD(2) [OF assms(1)] assms(2)]
    by (auto simp: waiting_msgs_def split: option.splits)
  show ?thesis
    unfolding join_task_cases(1) [OF assms True] by (rule rm_inv_remove [OF assms(1,2) refl none(3,1,2)])
next
  case False
  from join_task_cases(2) [OF assms False] obtain addrs where j: "join_task i t m = m\<lparr>rm_endpoint_addrs := addrs,
      rm_tasks := al_remove i (rm_tasks m) @
        [(rm_next m, \<lparr>tk_remote = tk_remote t, tk_initial = waiting_msgs (tk_remote t) m, tk_inbox = [], tk_phase = Tk_Running\<rparr>)],
      rm_next := rm_next m + 1, rm_senders := al_update (tk_remote t) (rm_next m) (rm_senders m),
      rm_sending := if tk_remote t \<in> fst ` set_option (rm_sending m) then None else rm_sending m\<rparr>" by blast
  show ?thesis
    unfolding j by (rule rm_inv_start [OF assms(1)]) (auto simp: remove_task_def assms(2) waiting_msgs_def)
qed

lemma rm_step_inv:
  assumes "rm_step m m'" "rm_inv m"
  shows "rm_inv m'"
  using assms
proof (induction rule: rm_step.induct)
  case (handle_initial m i t msg msgs)
  then show ?case
    using rm_inv_update [OF handle_initial(4,1), of "t\<lparr>tk_initial := msgs\<rparr>" "[]" "[msg]"] by simp
next
  case (handle_inbox m i t msg msgs)
  then show ?case
    using rm_inv_update [OF handle_inbox(5,1), of "t\<lparr>tk_inbox := msgs\<rparr>" "[]" "[msg]"] by simp
next
  case (close_inbox m i t)
  then show ?case
    using rm_inv_update [OF close_inbox(4,1), of "t\<lparr>tk_phase := Tk_Closed\<rparr>" "[]" "[]"] by simp
next
  case (finish m i t)
  then show ?case
    using rm_inv_update [OF finish(3,1), of "t\<lparr>tk_phase := Tk_Finished\<rparr>" "[]" "[]"] rm_invD(6) [OF finish(3,1)] by simp
qed (auto intro: send_to_actor_inv on_network_change_inv try_send_inv join_task_inv)

lemma rm_reachable_inv: "rm_reachable counter m \<Longrightarrow> rm_inv m"
proof (induction rule: rm_reachable.induct)
  case start
  show ?case by (simp add: rm_inv_def remote_map_new_def waiting_msgs_def)
qed (rule rm_step_inv)

section \<open>Every message can be handled\<close>

lemma run_to_finished:
  assumes "map_of (rm_tasks m) i = Some t" "tk_phase t \<noteq> Tk_Running"
  obtains m' t' where "rm_step\<^sup>*\<^sup>* m m'" "map_of (rm_tasks m') i = Some t'" "tk_phase t' = Tk_Finished"
    "tk_remote t' = tk_remote t" "rm_sent m' = rm_sent m" "rm_handled m' = rm_handled m" "rm_sending m' = rm_sending m"
proof (cases "tk_phase t")
  case Tk_Closed
  show ?thesis
    by (rule that [OF r_into_rtranclp [of rm_step, OF rm_step.finish [OF assms(1) Tk_Closed]], of "t\<lparr>tk_phase := Tk_Finished\<rparr>"])
      simp_all
next
  case Tk_Finished
  show ?thesis by (rule that [of m t]) (use assms Tk_Finished in simp_all)
qed (use assms(2) in simp)

text \<open>An ended actor is joined; the messages left for it are with its successor, if there are any.\<close>

lemma run_to_joined:
  assumes "rm_inv m" "map_of (rm_tasks m) i = Some t" "tk_phase t \<noteq> Tk_Running"
  shows "\<exists>m'. rm_step\<^sup>*\<^sup>* m m' \<and> rm_inv m' \<and> rm_sent m' = rm_sent m \<and>
    rm_sending m' = (if tk_remote t \<in> fst ` set_option (rm_sending m) then None else rm_sending m) \<and>
    (\<forall>j u. map_of (rm_tasks m') j = Some u \<longrightarrow> tk_remote u = tk_remote t \<longrightarrow> tk_phase u = Tk_Running)"
proof -
  obtain m1 t1 where m1: "rm_step\<^sup>*\<^sup>* m m1" "map_of (rm_tasks m1) i = Some t1" "tk_phase t1 = Tk_Finished"
    "tk_remote t1 = tk_remote t" "rm_sent m1 = rm_sent m" "rm_handled m1 = rm_handled m" "rm_sending m1 = rm_sending m"
    by (rule run_to_finished [OF assms(2,3)])
  have inv1: "rm_inv m1" using m1(1) assms(1) by (induction rule: rtranclp_induct) (auto intro: rm_step_inv)
  have inv2: "rm_inv (join_task i t1 m1)" by (rule join_task_inv [OF inv1 m1(2,3)])
  have rem: "remove_task i (tk_remote t1) m1" by (simp add: remove_task_def m1(2))
  have only: "j = i" if "map_of (rm_tasks m1) j = Some u" "tk_remote u = tk_remote t" for j u
    by (rule remove_task_facts(5) [OF inv1 rem that(1)]) (simp add: that(2) m1(4))
  have j: "rm_sent (join_task i t1 m1) = rm_sent m \<and>
      rm_sending (join_task i t1 m1) = (if tk_remote t \<in> fst ` set_option (rm_sending m) then None else rm_sending m) \<and>
      (\<forall>j u. map_of (rm_tasks (join_task i t1 m1)) j = Some u \<longrightarrow> tk_remote u = tk_remote t \<longrightarrow> tk_phase u = Tk_Running)"
  proof (cases "waiting_msgs (tk_remote t1) m1 = []")
    case True
    then have "tk_remote t \<notin> fst ` set_option (rm_sending m)"
      using m1(4,7) by (auto simp: waiting_msgs_def split: option.splits)
    then show ?thesis
      unfolding join_task_cases(1) [OF inv1 m1(2,3) True] using only by (auto simp: m1(4-7))
  next
    case False
    define u0 where "u0 = \<lparr>tk_remote = tk_remote t1, tk_initial = waiting_msgs (tk_remote t1) m1, tk_inbox = [], tk_phase = Tk_Running\<rparr>"
    have "tk_phase u0 = Tk_Running" by (simp add: u0_def)
    then show ?thesis
      using join_task_cases(2) [OF inv1 m1(2,3) False, folded u0_def] only
      by (auto simp: m1(4-7) map_add_def split: option.splits if_splits)
  qed
  have "rm_step\<^sup>*\<^sup>* m (join_task i t1 m1)"
    using m1(1) rm_step.join [OF m1(2,3)] by (rule rtranclp.rtrancl_into_rtrancl)
  then show ?thesis using j inv2 by blast
qed

text \<open>A running actor without new input handles everything that waits for it.\<close>

lemma run_to_drained:
  assumes "map_of (rm_tasks m) i = Some t" "tk_phase t = Tk_Running"
  shows "\<exists>m' t'. rm_step\<^sup>*\<^sup>* m m' \<and> rm_sent m' = rm_sent m \<and> rm_sending m' = rm_sending m \<and>
    map_of (rm_tasks m') i = Some t' \<and> tk_remote t' = tk_remote t \<and> tk_initial t' = [] \<and> tk_inbox t' = []"
  using assms
proof (induction "length (tk_initial t) + length (tk_inbox t)" arbitrary: m t rule: less_induct)
  case less
  have step: ?case
    if s: "rm_step m m1" "map_of (rm_tasks m1) i = Some t1" "tk_phase t1 = Tk_Running" "tk_remote t1 = tk_remote t"
      "rm_sent m1 = rm_sent m" "rm_sending m1 = rm_sending m"
      "length (tk_initial t1) + length (tk_inbox t1) < length (tk_initial t) + length (tk_inbox t)" for m1 t1
    using less.hyps [OF s(7,2,3)] s by (metis converse_rtranclp_into_rtranclp)
  show ?case
  proof (cases "tk_initial t")
    case (Cons msg msgs)
    show ?thesis by (rule step [OF rm_step.handle_initial [OF less.prems Cons], of "t\<lparr>tk_initial := msgs\<rparr>"])
        (use less.prems Cons in simp_all)
  next
    case init: Nil
    show ?thesis
    proof (cases "tk_inbox t")
      case (Cons msg msgs)
      show ?thesis by (rule step [OF rm_step.handle_inbox [OF less.prems init Cons], of "t\<lparr>tk_inbox := msgs\<rparr>"])
          (use less.prems Cons in simp_all)
    next
      case Nil
      then show ?thesis using less.prems init by blast
    qed
  qed
qed

lemma steps_inv: "rm_step\<^sup>*\<^sup>* m m' \<Longrightarrow> rm_inv m \<Longrightarrow> rm_inv m'"
  by (induction rule: rtranclp_induct) (auto intro: rm_step_inv)

lemma run_to_sent:
  assumes "rm_inv m"
  shows "\<exists>m'. rm_step\<^sup>*\<^sup>* m m' \<and> rm_inv m' \<and> rm_sent m' = rm_sent m \<and> rm_sending m' = None"
proof (cases "rm_sending m")
  case None
  then show ?thesis using assms by blast
next
  case (Some p)
  obtain e msg where p: "p = (e, msg)" by force
  obtain i t where t: "map_of (rm_tasks m) i = Some t" "tk_remote t = e" "tk_phase t \<noteq> Tk_Running"
    using rm_invD(7) [OF assms] Some p by blast
  from run_to_joined [OF assms t(1,3)] show ?thesis using Some p t(2) by auto
qed

lemma run_to_handled:
  assumes "rm_inv m"
  shows "\<exists>m'. rm_step\<^sup>*\<^sup>* m m' \<and> rm_sent m' = rm_sent m \<and> of_remote e (rm_handled m') = of_remote e (rm_sent m)"
proof -
  obtain m1 where m1: "rm_step\<^sup>*\<^sup>* m m1" "rm_inv m1" "rm_sent m1 = rm_sent m" "rm_sending m1 = None"
    using run_to_sent [OF assms] by blast
  obtain m2 where m2: "rm_step\<^sup>*\<^sup>* m1 m2" "rm_inv m2" "rm_sent m2 = rm_sent m" "rm_sending m2 = None"
    "\<And>j u. map_of (rm_tasks m2) j = Some u \<Longrightarrow> tk_remote u = e \<Longrightarrow> tk_phase u = Tk_Running"
  proof (cases "\<exists>i t. map_of (rm_tasks m1) i = Some t \<and> tk_remote t = e \<and> tk_phase t \<noteq> Tk_Running")
    case True
    then obtain i t where t: "map_of (rm_tasks m1) i = Some t" "tk_remote t = e" "tk_phase t \<noteq> Tk_Running" by blast
    from run_to_joined [OF m1(2) t(1,3)] show ?thesis using m1(3,4) t(2) that by auto
  next
    case False
    then show ?thesis using m1 that by blast
  qed
  have all: "of_remote e (rm_handled x) = of_remote e (rm_sent x)"
    if "rm_inv x" "rm_sending x = None" "task_msgs e (rm_tasks x) = []" for x :: "'a remote_map"
    using rm_invD(8) [OF that(1), of e] that(2,3) by (simp add: waiting_msgs_def)
  show ?thesis
  proof (cases "\<exists>i t. map_of (rm_tasks m2) i = Some t \<and> tk_remote t = e")
    case True
    then obtain i t where t: "map_of (rm_tasks m2) i = Some t" "tk_remote t = e" by blast
    obtain m3 t3 where m3: "rm_step\<^sup>*\<^sup>* m2 m3" "rm_sent m3 = rm_sent m2" "rm_sending m3 = rm_sending m2"
      "map_of (rm_tasks m3) i = Some t3" "tk_remote t3 = e" "tk_initial t3 = []" "tk_inbox t3 = []"
      using run_to_drained [OF t(1) m2(5) [OF t]] t(2) by blast
    have inv3: "rm_inv m3" using steps_inv [OF m3(1) m2(2)] .
    have "task_msgs e (rm_tasks m3) = []" using task_msgs_of [OF rm_invD(2) [OF inv3] m3(4)] m3(5-7) by simp
    then have "of_remote e (rm_handled m3) = of_remote e (rm_sent m)" using all [OF inv3] m3(2,3) m2(3,4) by simp
    moreover have "rm_step\<^sup>*\<^sup>* m m3" using m1(1) m2(1) m3(1) by (meson rtranclp_trans)
    ultimately show ?thesis using m3(2) m2(3) by metis
  next
    case False
    then have "e \<notin> set (remotes (rm_tasks m2))"
      using rm_invD(1) [OF m2(2)] by (auto simp: remotes_def dest: map_of_is_SomeI)
    then have "of_remote e (rm_handled m2) = of_remote e (rm_sent m)" using all [OF m2(2,4)] m2(3) by (simp add: task_msgs_none)
    moreover have "rm_step\<^sup>*\<^sup>* m m2" using m1(1) m2(1) by (meson rtranclp_trans)
    ultimately show ?thesis using m2(3) by metis
  qed
qed

end
