(* ===== verification/Socket_Properties.thy ===== *)
theory Socket_Properties
  imports Socket_Instances Remote_Map
begin

text \<open>
  Properties of the socket side: addresses and their encodings, the addresses shown to QUIC, path
  selection, the remote state actor and the map of actors, with their witnesses.
\<close>

section \<open>Addresses\<close>

text \<open>C39: Custom transport addresses survive both encodings: every address built by the library is
  restored from its bytes and from its text, and the bytes of an address that was read are the ones
  it was read from.\<close>

theorem custom_addr_encodings:
  assumes "custom_ok a" "text_encodings_ok T"
  shows "(\<exists>v. custom_to_vec a = Some v \<and> custom_from_bytes v = Inr a \<and> length v = 8 + custom_len (custom_data a)) \<and>
    (\<exists>s. custom_display T a = Some s \<and> custom_from_str T s = Inr a) \<and>
    (\<forall>v b. custom_from_bytes v = Inr b \<longrightarrow> custom_ok b \<and> custom_to_vec b = Some v)"
  using custom_binary_roundtrip [OF assms(1)] custom_text_roundtrip [OF assms(2,1)] custom_binary_surj by blast

theorem custom_addr_encodings_witness:
  "\<exists>s. custom_display hex_encodings (custom_from_parts 7 [1, 2]) = Some s \<and>
     custom_from_str hex_encodings s = Inr (custom_from_parts 7 [1, 2])"
  using custom_addr_encodings [of "custom_from_parts 7 [1, 2]" hex_encodings] by (simp add: hex_encodings_ok)


text \<open>C38: A network path handed to QUIC comes back as the same path: relay and custom paths are
  replaced by private addresses, which identify them again.\<close>

theorem four_tuple_through_noq:
  assumes "mapped_inv ms" "mapped_room ms" "ft_ok ft" "ft_to_noq ft ms = (p, ms')"
  shows "ft_from_noq p ms' = Some ft"
  using assms by (rule ft_noq_roundtrip)

theorem four_tuple_through_noq_witness:
  "case ft_to_noq (FT_Relay ''https://relay'' [1, 2]) fresh_mapped of
     (p, ms) \<Rightarrow> ft_from_noq p ms = Some (FT_Relay ''https://relay'' [1, 2])"
  using four_tuple_through_noq [OF fresh_mapped_ok, of "FT_Relay ''https://relay'' [1, 2]"]
  by (simp split: prod.split)

section \<open>Path selection\<close>

lemma default_tier:
  "fst (path_sort_key biases_default ft rtt) = (if ft_is_relay ft then Backup else Primary)"
  by (cases ft rule: ft_addr_kind.cases)
    (simp_all add: path_sort_key_def bias_for_def biases_default_def Let_def bias_primary_def bias_backup_def with_rtt_advantage_def)

lemma select_default_relay:
  assumes "select biases_default current paths = Some ft" "ft_is_relay ft" "(ft', Some rtt) \<in> set paths"
  shows "ft_is_relay ft'"
proof -
  obtain key where k: "best_of (keyed biases_default paths) (Some (ft, key))" using select_best [OF assms(1)] by blast
  have "key \<le> path_sort_key biases_default ft' rtt"
    by (rule best_ofD(2) [OF k]) (use assms(3) in \<open>auto simp: keyed_def\<close>)
  moreover have "fst key = Backup"
    using best_ofD(1) [OF k] assms(2) default_tier by (auto simp: keyed_def)
  ultimately show ?thesis
    using default_tier [of ft' rtt] by (cases "path_sort_key biases_default ft' rtt") (auto simp: less_eq_prod_def less_eq_transport_type_def less_transport_type_def split: if_splits)
qed

text \<open>C34: The selector picks a candidate with the least key, and keeps its choice when the same
  candidates are offered again. It picks nothing only if no candidate has statistics, or the current
  path is in the best tier and no candidate of it is five milliseconds better. With the default
  biases a relay path is picked only if every candidate with statistics is one.\<close>

theorem path_selection:
  "(select bs current paths = Some ft \<longrightarrow>
      (\<exists>key. best_of (keyed bs paths) (Some (ft, key))) \<and> select bs (Some ft) paths = None) \<and>
   (select bs current paths = None \<longrightarrow>
      keyed bs paths = {} \<or>
      (\<exists>cur tier b. current = Some cur \<and> (cur, tier, b) \<in> keyed bs paths \<and>
         (\<forall>ft' tier' b'. (ft', tier', b') \<in> keyed bs paths \<longrightarrow>
            tier < tier' \<or> tier = tier' \<and> b < b' + int RTT_SWITCHING_MIN))) \<and>
   (select biases_default current paths = Some ft \<and> ft_is_relay ft \<longrightarrow>
      (\<forall>ft' rtt. (ft', Some rtt) \<in> set paths \<longrightarrow> ft_is_relay ft'))"
proof -
  have "keyed bs paths = {} \<or>
      (\<exists>cur tier b. current = Some cur \<and> (cur, tier, b) \<in> keyed bs paths \<and>
         (\<forall>ft' tier' b'. (ft', tier', b') \<in> keyed bs paths \<longrightarrow>
            tier < tier' \<or> tier = tier' \<and> b < b' + int RTT_SWITCHING_MIN))" if "select bs current paths = None"
  proof (cases "keyed bs paths = {}")
    case False
    show ?thesis by (rule select_none [OF that False]) blast
  qed simp
  then show ?thesis using select_best select_stable select_default_relay by blast
qed

theorem path_selection_witness:
  "select biases_default (Some lan_path)
     [(lan_path, Some (from_millis 20)), (wan_path, Some (from_millis 30)), (relay_path, Some 1)] = None"
  using path_selection [of biases_default None
      "[(lan_path, Some (from_millis 20)), (wan_path, Some (from_millis 30)), (relay_path, Some 1)]" lan_path] select_example
  by blast

section \<open>Known paths\<close>

text \<open>C36: Pruning never drops a relay path, an open path or one of unknown status, and does nothing
  below thirty direct paths. From thirty on it drops the ten paths that were closed longest ago, so
  that with at most ten closed paths none of them stays, and it drops the unusable paths unless
  there is nothing else, in which case thirty of them stay.\<close>

theorem prune_paths_effect:
  assumes "distinct (al_keys (rp_paths rp))"
  shows "(\<forall>a st. (a, st) \<in> set (rp_paths rp) \<and> (addr_is_relay a \<or> ps_status st = PS_Open \<or> ps_status st = PS_Unknown) \<longrightarrow>
       (a, st) \<in> set (rp_paths (prune_paths rp))) \<and>
    (length (non_relay (rp_paths rp)) < MAX_NON_RELAY_PATHS \<longrightarrow> prune_paths rp = rp) \<and>
    (MAX_NON_RELAY_PATHS \<le> length (non_relay (rp_paths rp)) \<longrightarrow>
       length (inactive_paths (non_relay (rp_paths (prune_paths rp)))) =
         length (inactive_paths (non_relay (rp_paths rp))) - MAX_INACTIVE_NON_RELAY_PATHS \<and>
       (\<forall>a t b u. (a, t) \<in> set (inactive_paths (non_relay (rp_paths (prune_paths rp)))) \<and>
          (b, u) \<in> set (inactive_paths (non_relay (rp_paths rp))) \<and>
          (b, u) \<notin> set (inactive_paths (non_relay (rp_paths (prune_paths rp)))) \<longrightarrow> u \<le> t) \<and>
       (if length (failed_paths (non_relay (rp_paths rp))) = length (rp_paths rp)
        then length (rp_paths (prune_paths rp)) = MAX_NON_RELAY_PATHS
        else failed_paths (non_relay (rp_paths (prune_paths rp))) = []))"
proof -
  have small: "prune_paths rp = rp" if "length (non_relay (rp_paths rp)) < MAX_NON_RELAY_PATHS"
    using that by (cases rp) (simp add: prune_paths_def prune_non_relay_paths_def)
  have sel: "rp_paths (prune_paths rp) = prune_non_relay_paths (rp_paths rp)" by (simp add: prune_paths_def)
  show ?thesis
    unfolding sel
    using prune_keeps [OF assms] small prune_inactive_count [OF assms] prune_inactive_recent [OF assms] prune_failed [OF assms]
    by blast
qed

text \<open>With thirty closed paths the twenty latest stay.\<close>

theorem prune_paths_effect_witness:
  "length (inactive_paths (non_relay (rp_paths (prune_paths (remote_paths_new\<lparr>rp_paths := closed_paths 30\<rparr>))))) = 20"
proof -
  have d: "distinct (al_keys (rp_paths (remote_paths_new\<lparr>rp_paths := closed_paths 30\<rparr>)))" by code_simp
  have "length (non_relay (closed_paths 30)) = 30" "length (inactive_paths (non_relay (closed_paths 30))) = 30"
    by code_simp+
  then show ?thesis
    using prune_paths_effect [OF d] by (simp add: MAX_NON_RELAY_PATHS_def MAX_INACTIVE_NON_RELAY_PATHS_def)
qed

section \<open>The remote state actor\<close>

text \<open>C17: After any sequence of events, whatever the connections do, the watchers of a connection see
  exactly its open paths, a path is selected only while there is a connection, paths whose opening
  was postponed have a timer, no resolve request waits once a path is known, and the requests that
  came are, each once, the answered and the waiting ones.\<close>

theorem remote_actor_invariant:
  assumes a_def: "a = run_events (select bs) es (remote_actor_new e ms addrs)"
  shows "(\<forall>(cid, cs) \<in> set (ra_conns a). pw_list (cs_watch cs) = map shown_path (cs_paths cs) \<and> distinct (al_keys (cs_paths cs))) \<and>
    (rs_selected_path (ra_state a) \<noteq> None \<longrightarrow> ra_conns a \<noteq> []) \<and>
    (rs_pending_open_paths (ra_state a) \<noteq> [] \<longrightarrow> rs_scheduled_open_path (ra_state a) \<noteq> None) \<and>
    (rp_paths (rs_paths (ra_state a)) \<noteq> [] \<longrightarrow> rp_pending (rs_paths (ra_state a)) = []) \<and>
    mset (map fst (rp_replies (rs_paths (ra_state a)))) + mset (rp_pending (rs_paths (ra_state a))) =
      mset (concat (map (\<lambda>(_, _, ev). requested ev) es))"
proof -
  have inv: "ra_inv a" unfolding a_def by (rule biased_rtt.run_events_inv) (rule ra_inv_new)
  have "rp_requests (rs_paths (ra_state (remote_actor_new e ms addrs))) = {#}" by (simp add: remote_actor_new_def)
  then have req: "rp_requests (rs_paths (ra_state a)) = mset (concat (map (\<lambda>(_, _, ev). requested ev) es))"
    unfolding a_def by (simp add: run_events_requests)
  show ?thesis
    using inv req by (auto simp: ra_inv_def conn_ok_def rp_inv_def open_timer_ok_def rp_requests_def)
qed

theorem remote_actor_invariant_witness:
  "ra_conns example_actor \<noteq> [] \<and> rp_pending (rs_paths (ra_state example_actor)) = []"
  using remote_actor_invariant [OF example_actor_def] example_actor_state(1,3) by (auto simp: example_events_def requested_def)

text \<open>C18: A selection leaves a path selected that was a candidate or selected before, and repeating it
  with the same candidates changes nothing. Every open path of every live connection is told its
  status, available exactly for the selected path, except that a client closes the other IP paths of
  a connection with two or more. Clients without the selected path open it, and nobody else opens
  a path.\<close>

theorem selected_path_applied:
  assumes "a' = select_path (select bs) now W a" "rs_selected_path (ra_state a') = Some selected"
  shows "(rs_selected_path (ra_state a) = Some selected \<or> selected \<in> fst ` set (selection_paths W a)) \<and>
    rs_selected_path (ra_state (select_path (select bs) now' W a')) = Some selected \<and>
    (\<exists>new. rs_cmds (ra_state a') = rs_cmds (ra_state a) @ new \<and>
       (\<forall>cid i. Cmd_ClosePath cid i \<in> set new \<longleftrightarrow>
          (\<exists>cs conn ft. (cid, cs) \<in> set (ra_conns a) \<and> map_of W cid = Some conn \<and> i \<in> fst ` set (nc_paths conn) \<and>
             (i, ft) \<in> set (cs_paths cs) \<and> nc_client conn \<and> ft_is_ip ft \<and> ft \<noteq> selected \<and>
             2 \<le> length (filter (\<lambda>(_, f). ft_is_ip f) (cs_paths cs)))) \<and>
       (\<forall>cid i st. Cmd_SetStatus cid i st \<in> set new \<longleftrightarrow>
          (\<exists>cs conn ft. (cid, cs) \<in> set (ra_conns a) \<and> map_of W cid = Some conn \<and> i \<in> fst ` set (nc_paths conn) \<and>
             (i, ft) \<in> set (cs_paths cs) \<and> \<not> redundant_path selected cs conn ft \<and>
             st = (if ft = selected then Status_Available else Status_Backup))) \<and>
       concat (map opened_by new) = map (\<lambda>cid. (cid, Status_Available)) (missing_selected W selected (ra_conns a)))"
proof -
  obtain new where n: "rs_cmds (ra_state a') = rs_cmds (ra_state a) @ new"
    "filter (\<lambda>c. \<not> is_open_cmd c) new = concat (map (path_cmds_of W selected) (ra_conns a))"
    "concat (map opened_by new) = map (\<lambda>cid. (cid, Status_Available)) (missing_selected W selected (ra_conns a))"
    using select_path_cmds [OF assms(2) [unfolded assms(1)]] assms(1) by auto
  have "rs_selected_path (ra_state a) = Some selected \<or> selected \<in> fst ` set (selection_paths W a)"
    using biased_rtt.select_path_candidate [of bs now W a] assms by (metis option.inject)
  moreover have "rs_selected_path (ra_state (select_path (select bs) now' W a')) = Some selected"
    using biased_rtt.select_path_settles [of bs now' W now a] assms by simp
  moreover note selected_cmds_mem [OF n(2)]
  ultimately show ?thesis using n(1,3) by (intro conjI exI [of _ new]) (auto simp: redundant_path_def Suc_le_eq numeral_2_eq_2)
qed

definition custom_selected :: remote_actor where
  "custom_selected =
     example_actor\<lparr>ra_state := (ra_state example_actor)\<lparr>rs_selected_path := Some relay_path\<rparr>\<rparr>"

text \<open>While the selected path is not one of them, both IP paths of a connection are closed.\<close>

theorem selected_path_applied_witness:
  "\<exists>new. rs_cmds (ra_state (select_path (select biases_default) 5 [(7, two_path_conn\<lparr>nc_rtt := []\<rparr>)] custom_selected)) =
      rs_cmds (ra_state custom_selected) @ new \<and> Cmd_ClosePath 7 0 \<in> set new \<and> Cmd_ClosePath 7 1 \<in> set new"
proof -
  let ?W = "[(7, two_path_conn\<lparr>nc_rtt := []\<rparr>)]"
  obtain cs where cs: "(7, cs) \<in> set (ra_conns custom_selected)" "cs_paths cs = [(0, lan_path), (1, wan_path)]"
    using example_actor_state(2) by (auto simp: custom_selected_def dest: map_of_SomeD)
  have "map_of (nc_rtt (two_path_conn\<lparr>nc_rtt := []\<rparr>)) i = None" for i by (simp add: two_path_conn_def)
  then have none: "snd p = None" if "p \<in> set (selection_paths ?W custom_selected)" for p
    using that by (auto simp: selection_paths_def live_conns_def mem_map_filter split: if_splits)
  have "keyed biases_default (selection_paths ?W custom_selected) = {}" using none by (fastforce simp: keyed_def)
  then have "select biases_default cur (selection_paths ?W custom_selected) = None" for cur
    using select_best best_ofD(1) by (metis empty_iff not_Some_eq)
  then have "rs_selected_path (ra_state (select_path (select biases_default) 5 ?W custom_selected)) = Some relay_path"
    unfolding select_path_selected by (simp add: custom_selected_def)
  note applied = selected_path_applied [OF refl this, of 6]
  have redundant: "\<exists>cs conn ft. (7, cs) \<in> set (ra_conns custom_selected) \<and> map_of ?W 7 = Some conn \<and>
      i \<in> fst ` set (nc_paths conn) \<and> (i, ft) \<in> set (cs_paths cs) \<and> nc_client conn \<and> ft_is_ip ft \<and> ft \<noteq> relay_path \<and>
      2 \<le> length (filter (\<lambda>(_, f). ft_is_ip f) (cs_paths cs))"
    if "(i, ft) \<in> {(0, lan_path), (1, wan_path)}" for i ft
    by (rule exI [of _ cs], rule exI [of _ "two_path_conn\<lparr>nc_rtt := []\<rparr>"], rule exI [of _ ft])
      (use that cs in \<open>auto simp: two_path_conn_def example_paths\<close>)
  show ?thesis
    using conjunct2 [OF conjunct2 [OF applied]]
    apply (elim exE conjE)
    apply (intro exI conjI)
      apply assumption
     apply (drule spec, drule spec, erule iffD2, rule redundant [OF insertI1])
    apply (drule spec, drule spec, erule iffD2, rule redundant [OF insertI2 [OF insertI1]])
    done
qed

text \<open>C35: Hole punching is throttled: while the candidates stay the same and the rounds succeed, any
  sequence of triggers makes at most one attempt, and one more for each five seconds that pass.\<close>

theorem holepunch_rate:
  assumes "steady_network W a" "sorted (now # ts)" "\<And>t. punched_at t W a \<Longrightarrow> t \<le> now"
  shows "attempts (fold (\<lambda>t. trigger_holepunching t W) (now # ts) a) \<le>
    attempts a + 1 + (last (now # ts) - now) div HOLEPUNCH_ATTEMPTS_INTERVAL"
proof (cases "\<exists>t. punched_at t W a \<and> now < t + HOLEPUNCH_ATTEMPTS_INTERVAL")
  case False
  note k = trigger_steady(3) [OF assms(1) False]
  show ?thesis using trigger_rate [OF trigger_steady(1) [OF assms(1)] conjunct2 [OF k] assms(2)] k by simp
next
  case True
  let ?I = HOLEPUNCH_ATTEMPTS_INTERVAL and ?l = "last (now # ts)"
  obtain t where t: "punched_at t W a" "now < t + ?I" using True by blast
  have "t \<le> now" by (rule assms(3) [OF t(1)])
  then have s: "sorted (t # now # ts)" using assms(2) by auto
  have "now \<le> ?l" using assms(2) by (cases ts) auto
  have "attempts (fold (\<lambda>t. trigger_holepunching t W) (now # ts) a) \<le> attempts a + (last (t # now # ts) - t) div ?I"
    by (rule trigger_rate [OF assms(1) t(1) s])
  also have "(last (t # now # ts) - t) div ?I \<le> (?I + (?l - now)) div ?I"
    using t(2) \<open>now \<le> ?l\<close> by (intro div_le_mono) simp
  also have "(?I + (?l - now)) div ?I = 1 + (?l - now) div ?I"
    by (subst div_add_self1) (simp_all add: HOLEPUNCH_ATTEMPTS_INTERVAL_def from_secs_def)
  finally show ?thesis by simp
qed

theorem holepunch_rate_witness:
  "attempts (fold (\<lambda>t. trigger_holepunching t [(7, two_path_conn)]) [2, 3, 4] example_actor) \<le> attempts example_actor + 1"
proof -
  obtain cs where conns: "ra_conns example_actor = [(7, cs)]" using example_actor_state(4) by (cases "ra_conns example_actor") auto
  have c: "client_conn [(7, two_path_conn)] example_actor = Some (7, two_path_conn)"
    by (simp add: client_conn_def live_conns_def conns List.map_filter_simps two_path_conn_def)
  have "steady_network [(7, two_path_conn)] example_actor"
    by (simp add: steady_network_def c) (simp add: two_path_conn_def canonical_socket_def)
  moreover have "t \<le> 2" if "punched_at t [(7, two_path_conn)] example_actor" for t
    using that example_actor_state(5) by (auto simp: punched_at_def)
  ultimately show ?thesis
    using holepunch_rate [of "[(7, two_path_conn)]" example_actor 2 "[3, 4]"]
    by (simp add: HOLEPUNCH_ATTEMPTS_INTERVAL_def from_secs_def)
qed

text \<open>C37: What a subscriber of the path events replays is the state: the open paths with their
  addresses in order, and the selected path whenever there is one. A selected path is open.\<close>

theorem path_events_replay:
  assumes "w = fold watch_apply ops path_watch_new"
  shows "fold replay_paths (pw_events w) [] = pw_list w \<and> distinct (al_keys (pw_list w)) \<and>
    (\<forall>i. pw_selected w = Some i \<longrightarrow>
       fold replay_selected (pw_events w) None = Some i \<and> i \<in> fst ` set (pw_list w))"
  using watch_run_inv [OF watch_inv_new, of ops] by (simp add: watch_inv_def assms)

theorem path_events_replay_witness:
  "fold replay_selected
     (pw_events (fold watch_apply [W_Opened 0 lan_path, W_Selected lan_path] path_watch_new)) None = Some 0"
proof -
  have "pw_selected (fold watch_apply [W_Opened 0 lan_path, W_Selected lan_path] path_watch_new) = Some 0"
    by (simp add: record_selected_def record_opened_def path_watch_new_def Let_def lan_path_def)
  then show ?thesis using path_events_replay [OF refl] by blast
qed

section \<open>The map of actors\<close>

text \<open>C19: In every reachable state there is at most one actor for an endpoint, its sender is the
  registered one, and the messages of an endpoint are handled in the order they were accepted: the
  accepted ones are those handled so far followed by those that wait. A send that waits for an
  ending actor waits for one that exists.\<close>

theorem remote_map_order:
  assumes "rm_reachable counter m"
  shows "distinct (remotes (rm_tasks m)) \<and>
    (map_of (rm_senders m) e = Some i \<longleftrightarrow> (\<exists>t. map_of (rm_tasks m) i = Some t \<and> tk_remote t = e)) \<and>
    of_remote e (rm_sent m) = of_remote e (rm_handled m) @ waiting_msgs e m \<and>
    (rm_sending m = Some (e, msg) \<longrightarrow>
       (\<exists>j t. map_of (rm_tasks m) j = Some t \<and> tk_remote t = e \<and> tk_phase t \<noteq> Tk_Running))"
  using rm_invD(2,5,7,8) [OF rm_reachable_inv [OF assms]] by blast


text \<open>An actor that ends while a message arrives.\<close>

definition started_map :: "nat remote_map" where
  "started_map = the (send_to_actor [1] 10 (remote_map_new 0))"

definition ended_map :: "nat remote_map" where
  "ended_map = started_map\<lparr>rm_tasks := map (\<lambda>(i, t). (i, t\<lparr>tk_phase := Tk_Closed\<rparr>)) (rm_tasks started_map)\<rparr>"

lemma started_map_tasks:
  "rm_tasks started_map = [(0, \<lparr>tk_remote = [1], tk_initial = [], tk_inbox = [10], tk_phase = Tk_Running\<rparr>)]"
  "rm_sent started_map = [([1], 10)]" "send_to_actor [1] 10 (remote_map_new 0 :: nat remote_map) = Some started_map"
  "rm_sending started_map = None"
  by (simp_all add: started_map_def send_to_actor_def get_or_start_def start_remote_state_actor_def remote_map_new_def
      push_msg_def INBOX_CAPACITY_def Let_def split: prod.splits)

lemma ended_map_reachable: "rm_reachable 0 ended_map"
proof -
  have "rm_reachable 0 started_map"
    by (rule rm_reachable.step [OF rm_reachable.start rm_step.send [OF _ started_map_tasks(3)]]) (simp add: remote_map_new_def)
  moreover have "rm_step started_map ended_map"
    using rm_step.close_inbox [of started_map 0 "\<lparr>tk_remote = [1], tk_initial = [], tk_inbox = [10], tk_phase = Tk_Running\<rparr>"]
    by (simp add: started_map_tasks ended_map_def)
  ultimately show ?thesis by (rule rm_reachable.step)
qed

theorem remote_map_order_witness: "of_remote [1] (rm_sent ended_map) = of_remote [1] (rm_handled ended_map) @ [10]"
proof -
  have "waiting_msgs [1] ended_map = [10]" using started_map_tasks by (simp add: ended_map_def waiting_msgs_def)
  then show ?thesis using remote_map_order [OF ended_map_reachable, of "[1]"] by simp
qed


end
