(* ===== verification/Socket_Text.thy ===== *)
theory Socket_Text
  imports Endpoint_Addr
begin

text \<open>
  The text form of socket addresses in the standard library (\<open>Display\<close> and \<open>FromStr\<close> of
  \<open>std::net::SocketAddr\<close>), which DNS records, configuration and the command line tools use: decimal
  IPv4 octets, hexadecimal IPv6 groups with the longest run of zeros compressed, the embedded IPv4
  form, scope identifiers and ports. The parser is the recursive descent parser of the library, one
  definition per reader; a reader returns the value and the rest of the input. Lemmas: parsing
  undoes formatting for every address without flow information, and both only ever handle hexadecimal
  digits and the characters of \<open>.:[]%\<close>.
\<close>

section \<open>Reading numbers\<close>

definition digit10 :: "char \<Rightarrow> nat option" where
  "digit10 c = (let n = of_char c :: nat in if 48 \<le> n \<and> n \<le> 57 then Some (n - 48) else None)"

definition number_value :: "nat \<Rightarrow> (char \<Rightarrow> nat option) \<Rightarrow> string \<Rightarrow> nat" where
  "number_value radix digit ds = foldl (\<lambda>a c. a * radix + the (digit c)) 0 ds"

text \<open>The digits are read greedily; the result must be below the bound of the target type.\<close>

definition read_number ::
  "nat \<Rightarrow> (char \<Rightarrow> nat option) \<Rightarrow> nat option \<Rightarrow> bool \<Rightarrow> nat \<Rightarrow> string \<Rightarrow> (nat \<times> string) option" where
  "read_number radix digit max_digits allow_zero_prefix bound s =
     (let ds = takeWhile (\<lambda>c. digit c \<noteq> None) s in
      if ds = [] \<or> (case max_digits of Some m \<Rightarrow> m < length ds | None \<Rightarrow> False) then None
      else if \<not> allow_zero_prefix \<and> hd ds = CHR ''0'' \<and> 1 < length ds then None
      else if number_value radix digit ds < bound
        then Some (number_value radix digit ds, dropWhile (\<lambda>c. digit c \<noteq> None) s)
      else None)"

definition read_char :: "char \<Rightarrow> string \<Rightarrow> string option" where
  "read_char c s = (case s of [] \<Rightarrow> None | x # xs \<Rightarrow> if x = c then Some xs else None)"

definition read_separator ::
  "char \<Rightarrow> bool \<Rightarrow> (string \<Rightarrow> ('a \<times> string) option) \<Rightarrow> string \<Rightarrow> ('a \<times> string) option" where
  "read_separator c first inner s = (if first then inner s else Option.bind (read_char c s) inner)"

section \<open>IPv4 addresses\<close>

definition read_octet :: "string \<Rightarrow> (nat \<times> string) option" where
  "read_octet = read_number 10 digit10 (Some 3) False 256"

fun read_octets :: "nat \<Rightarrow> bool \<Rightarrow> string \<Rightarrow> (nat list \<times> string) option" where
  "read_octets 0 first s = Some ([], s)"
| "read_octets (Suc k) first s =
     Option.bind (read_separator (CHR ''.'') first read_octet s)
       (\<lambda>(n, r). map_option (\<lambda>(ns, t). (n # ns, t)) (read_octets k False r))"

definition read_ipv4_addr :: "string \<Rightarrow> (nat list \<times> string) option" where
  "read_ipv4_addr = read_octets 4 True"

definition ipv4_display :: "bytes \<Rightarrow> string" where
  "ipv4_display ip = join ''.'' (map (\<lambda>b. show_nat (unat b)) ip)"

section \<open>IPv6 addresses\<close>

text \<open>The eight 16-bit groups of an address.\<close>

fun ipv6_segments :: "bytes \<Rightarrow> nat list" where
  "ipv6_segments (a # b # bs) = (unat a * 256 + unat b) # ipv6_segments bs"
| "ipv6_segments _ = []"

fun segment_octets :: "nat list \<Rightarrow> bytes" where
  "segment_octets [] = []"
| "segment_octets (g # gs) = of_nat (g div 256) # of_nat (g mod 256) # segment_octets gs"

definition read_h16 :: "string \<Rightarrow> (nat \<times> string) option" where
  "read_h16 = read_number 16 digit16 (Some 4) True 65536"

text \<open>
  The groups that follow, at most the given number of them: an embedded IPv4 address ends the
  list when at least two groups are left.
\<close>

fun read_groups :: "nat \<Rightarrow> bool \<Rightarrow> string \<Rightarrow> nat list \<times> bool \<times> string" where
  "read_groups 0 first s = ([], False, s)"
| "read_groups (Suc n) first s =
     (case (if n > 0 then read_separator (CHR '':'') first read_ipv4_addr s else None) of
        Some (os, r) \<Rightarrow> ([os ! 0 * 256 + os ! 1, os ! 2 * 256 + os ! 3], True, r)
      | None \<Rightarrow>
         (case read_separator (CHR '':'') first read_h16 s of
            None \<Rightarrow> ([], False, s)
          | Some (g, r) \<Rightarrow> (case read_groups n False r of (gs, b, t) \<Rightarrow> (g # gs, b, t))))"

definition read_ipv6_addr :: "string \<Rightarrow> (nat list \<times> string) option" where
  "read_ipv6_addr s =
     (case read_groups 8 True s of (head, head_ipv4, r) \<Rightarrow>
        if length head = 8 then Some (head, r)
        else if head_ipv4 then None
        else Option.bind (read_char (CHR '':'') r) (\<lambda>r1.
             Option.bind (read_char (CHR '':'') r1) (\<lambda>r2.
               case read_groups (8 - (length head + 1)) True r2 of (tail, _, t) \<Rightarrow>
                 Some (head @ replicate (8 - length head - length tail) 0 @ tail, t))))"

text \<open>The longest run of zero groups, the first one among equals: its start and length.\<close>

fun zero_run :: "nat \<Rightarrow> nat \<times> nat \<Rightarrow> nat \<times> nat \<Rightarrow> nat list \<Rightarrow> nat \<times> nat" where
  "zero_run i cur longest [] = longest"
| "zero_run i (start, len) longest (g # gs) =
     (if g = 0 then
        let cur = (if len = 0 then i else start, len + 1) in
        zero_run (i + 1) cur (if snd longest < snd cur then cur else longest) gs
      else zero_run (i + 1) (0, 0) longest gs)"

definition fmt_subslice :: "nat list \<Rightarrow> string" where
  "fmt_subslice gs = join '':'' (map show_hex gs)"

definition ipv6_display :: "bytes \<Rightarrow> string" where
  "ipv6_display ip =
     (if take 12 ip = replicate 10 0 @ [0xff, 0xff] then ''::ffff:'' @ ipv4_display (drop 12 ip)
      else
        let gs = ipv6_segments ip; (start, len) = zero_run 0 (0, 0) (0, 0) gs in
        if 1 < len then fmt_subslice (take start gs) @ ''::'' @ fmt_subslice (drop (start + len) gs)
        else fmt_subslice gs)"

section \<open>Socket addresses\<close>

definition read_port :: "string \<Rightarrow> (nat \<times> string) option" where
  "read_port s = Option.bind (read_char (CHR '':'') s) (read_number 10 digit10 None True (2 ^ 16))"

definition read_scope_id :: "string \<Rightarrow> (nat \<times> string) option" where
  "read_scope_id s = Option.bind (read_char (CHR ''%'') s) (read_number 10 digit10 None True (2 ^ 32))"

definition read_socket_addr_v4 :: "string \<Rightarrow> (socket_addr \<times> string) option" where
  "read_socket_addr_v4 s =
     Option.bind (read_ipv4_addr s) (\<lambda>(ip, r).
     Option.bind (read_port r) (\<lambda>(port, t). Some (SocketV4 (map of_nat ip) (of_nat port), t)))"

definition read_socket_addr_v6 :: "string \<Rightarrow> (socket_addr \<times> string) option" where
  "read_socket_addr_v6 s =
     Option.bind (read_char (CHR ''['') s) (\<lambda>r0.
     Option.bind (read_ipv6_addr r0) (\<lambda>(ip, r1).
       let (scope, r2) = (case read_scope_id r1 of Some x \<Rightarrow> x | None \<Rightarrow> (0, r1)) in
       Option.bind (read_char (CHR '']'') r2) (\<lambda>r3.
       Option.bind (read_port r3) (\<lambda>(port, t).
         Some (SocketV6 (segment_octets ip) (of_nat port) 0 (of_nat scope), t)))))"

definition socket_addr_from_str :: "string \<Rightarrow> socket_addr option" where
  "socket_addr_from_str s =
     (case (case read_socket_addr_v4 s of Some x \<Rightarrow> Some x | None \<Rightarrow> read_socket_addr_v6 s) of
        Some (a, []) \<Rightarrow> Some a
      | _ \<Rightarrow> None)"

fun socket_addr_display :: "socket_addr \<Rightarrow> string" where
  "socket_addr_display (SocketV4 ip port) = ipv4_display ip @ '':'' @ show_nat (unat port)"
| "socket_addr_display (SocketV6 ip port flow scope) =
     ''['' @ ipv6_display ip @ (if scope = 0 then [] else ''%'' @ show_nat (unat scope)) @ '']:'' @
     show_nat (unat port)"

text \<open>An address has four or sixteen octets; text does not carry the flow information.\<close>

fun socket_text_ok :: "socket_addr \<Rightarrow> bool" where
  "socket_text_ok (SocketV4 ip port) \<longleftrightarrow> length ip = 4"
| "socket_text_ok (SocketV6 ip port flow scope) \<longleftrightarrow> length ip = 16 \<and> flow = 0"

section \<open>Formatted numbers are read back\<close>

definition stops :: "(char \<Rightarrow> nat option) \<Rightarrow> string \<Rightarrow> bool" where
  "stops digit s \<longleftrightarrow> (case s of [] \<Rightarrow> True | c # _ \<Rightarrow> digit c = None)"

lemma stops_while:
  assumes "\<forall>c \<in> set ds. digit c \<noteq> None" "stops digit s"
  shows "takeWhile (\<lambda>c. digit c \<noteq> None) (ds @ s) = ds" "dropWhile (\<lambda>c. digit c \<noteq> None) (ds @ s) = s"
proof -
  have "takeWhile (\<lambda>c. digit c \<noteq> None) s = []" "dropWhile (\<lambda>c. digit c \<noteq> None) s = s"
    using assms(2) by (cases s; auto simp: stops_def)+
  then show "takeWhile (\<lambda>c. digit c \<noteq> None) (ds @ s) = ds"
    "dropWhile (\<lambda>c. digit c \<noteq> None) (ds @ s) = s"
    using assms(1) by (simp_all add: takeWhile_append2 dropWhile_append2 del: not_None_eq)
qed

lemma read_number_append:
  assumes "\<forall>c \<in> set ds. digit c \<noteq> None" "stops digit s" "ds \<noteq> []"
    "case m of Some k \<Rightarrow> length ds \<le> k | None \<Rightarrow> True"
    "z \<or> hd ds \<noteq> CHR ''0'' \<or> length ds = 1" "number_value radix digit ds < bound"
  shows "read_number radix digit m z bound (ds @ s) = Some (number_value radix digit ds, s)"
  using assms(3-) unfolding read_number_def Let_def stops_while [OF assms(1,2)]
  by (auto split: option.splits)

lemma number_value_snoc:
  "number_value radix digit (ds @ [c]) = number_value radix digit ds * radix + the (digit c)"
  by (simp add: number_value_def)

lemma number_value_single [simp]: "number_value radix digit [c] = the (digit c)"
  by (simp add: number_value_def)

lemma digit10_char [simp]: "n < 10 \<Longrightarrow> digit10 (char_of (48 + n)) = Some n"
  by (simp add: digit10_def of_char_of)

lemma show_nat_digits: "c \<in> set (show_nat n) \<Longrightarrow> digit10 c \<noteq> None"
proof (induction n rule: show_nat.induct)
  case (1 n)
  then show ?case by (subst (asm) (2) show_nat.simps) (auto split: if_splits)
qed

lemma show_nat_nonempty [simp]: "show_nat n \<noteq> []"
  by (subst show_nat.simps) simp

lemma show_nat_value [simp]: "number_value 10 digit10 (show_nat n) = n"
proof (induction n rule: show_nat.induct)
  case (1 n)
  then show ?case by (subst show_nat.simps) (simp add: number_value_snoc)
qed

lemma show_nat_length: "n < 10 ^ k \<Longrightarrow> 0 < k \<Longrightarrow> length (show_nat n) \<le> k"
proof (induction k arbitrary: n)
  case (Suc k)
  show ?case
  proof (cases "n < 10")
    case False
    then have "0 < k" using Suc.prems(1) by (cases k) auto
    moreover have "n div 10 < 10 ^ k" using Suc.prems(1) by (simp add: less_mult_imp_div_less mult.commute)
    ultimately show ?thesis using Suc.IH [of "n div 10"] False by (subst show_nat.simps) simp
  qed (subst show_nat.simps, simp)
qed simp

lemma char_of_48: "(n::nat) < 10 \<Longrightarrow> char_of (48 + n) = CHR ''0'' \<longleftrightarrow> n = 0"
  by (simp add: char_of_eq_iff of_char_def take_bit_nat_eq_self)

lemma show_nat_zero_prefix: "hd (show_nat n) \<noteq> CHR ''0'' \<or> length (show_nat n) = 1"
proof -
  have "0 < n \<Longrightarrow> hd (show_nat n) \<noteq> CHR ''0''"
  proof (induction n rule: show_nat.induct)
    case (1 n)
    then show ?case by (subst show_nat.simps) (auto simp: char_of_48 div_greater_zero_iff)
  qed
  moreover have "length (show_nat 0) = 1" by (subst show_nat.simps) simp
  ultimately show ?thesis by (cases n) auto
qed

lemma show_hex_value [simp]: "number_value 16 digit16 (show_hex n) = n"
proof (induction n rule: show_hex.induct)
  case (1 n)
  then show ?case by (subst show_hex.simps) (simp add: number_value_snoc)
qed

lemma show_hex_length: "n < 16 ^ k \<Longrightarrow> 0 < k \<Longrightarrow> length (show_hex n) \<le> k"
proof (induction k arbitrary: n)
  case (Suc k)
  show ?case
  proof (cases "n < 16")
    case False
    then have "0 < k" using Suc.prems(1) by (cases k) auto
    moreover have "n div 16 < 16 ^ k" using Suc.prems(1) by (simp add: less_mult_imp_div_less mult.commute)
    ultimately show ?thesis using Suc.IH [of "n div 16"] False by (subst show_hex.simps) simp
  qed (subst show_hex.simps, simp)
qed simp

lemma read_octet_show:
  "n < 256 \<Longrightarrow> stops digit10 s \<Longrightarrow> read_octet (show_nat n @ s) = Some (n, s)"
  using show_nat_digits show_nat_length [of n 3] show_nat_zero_prefix [of n]
  unfolding read_octet_def by (subst read_number_append) auto

lemma read_decimal_show:
  "n < b \<Longrightarrow> stops digit10 s \<Longrightarrow> read_number 10 digit10 None True b (show_nat n @ s) = Some (n, s)"
  using show_nat_digits by (subst read_number_append) auto

lemma read_h16_show:
  "n < 65536 \<Longrightarrow> stops digit16 s \<Longrightarrow> read_h16 (show_hex n @ s) = Some (n, s)"
  using show_hex_chars show_hex_length [of n 4]
  unfolding read_h16_def by (subst read_number_append) auto

section \<open>Separated lists\<close>

fun joined :: "char \<Rightarrow> bool \<Rightarrow> string list \<Rightarrow> string" where
  "joined c first [] = []"
| "joined c first (t # ts) = (if first then t else c # t) @ joined c False ts"

lemma join_joined: "join [c] ts = joined c True ts"
proof (induction "[c]" ts rule: join.induct)
  case (3 s t ss)
  then show ?case by simp
qed simp_all

lemma read_char_simps [simp]:
  "read_char c [] = None" "read_char c (x # s) = (if x = c then Some s else None)"
  by (simp_all add: read_char_def)

lemma read_separator_simps [simp]:
  "read_separator c True f s = f s" "read_separator c False f (c # s) = f s"
  "x \<noteq> c \<Longrightarrow> read_separator c False f (x # s) = None" "read_separator c False f [] = None"
  by (simp_all add: read_separator_def)

lemma digit_punctuation [simp]:
  "digit10 (CHR ''.'') = None" "digit10 (CHR '':'') = None" "digit10 (CHR ''%'') = None"
  "digit10 (CHR '']'') = None" "digit16 (CHR ''.'') = None" "digit16 (CHR '':'') = None"
  "digit16 (CHR ''%'') = None" "digit16 (CHR '']'') = None"
  by (simp_all add: digit10_def digit16_def Let_def of_char_def)

lemma stops_simps [simp]: "stops d []" "stops d (c # s) \<longleftrightarrow> d c = None"
  by (simp_all add: stops_def)

lemma joined_append_stops:
  assumes "d c = None" "stops d r"
  shows "stops d (joined c False ts @ r)"
  using assms by (cases ts) auto

lemma read_octets_joined:
  "\<forall>n \<in> set ns. n < 256 \<Longrightarrow> stops digit10 r \<Longrightarrow>
   read_octets (length ns) first (joined (CHR ''.'') first (map show_nat ns) @ r) = Some (ns, r)"
proof (induction ns arbitrary: first)
  case (Cons n ns)
  have "read_octet (show_nat n @ joined (CHR ''.'') False (map show_nat ns) @ r) =
      Some (n, joined (CHR ''.'') False (map show_nat ns) @ r)"
    using Cons.prems by (intro read_octet_show joined_append_stops) auto
  then show ?case using Cons by (cases first) simp_all
qed simp

lemma read_ipv4_display:
  assumes "length ip = 4" "stops digit10 r"
  shows "read_ipv4_addr (ipv4_display ip @ r) = Some (map unat ip, r)"
proof -
  have "\<forall>n \<in> set (map unat ip). n < 256" by simp
  then show ?thesis
    using read_octets_joined [of "map unat ip" r True] assms
    by (simp add: read_ipv4_addr_def ipv4_display_def join_joined comp_def)
qed

text \<open>A text whose leading decimal digits are not followed by a full stop is no IPv4 address.\<close>

lemma read_ipv4_None:
  assumes "read_char (CHR ''.'') (dropWhile (\<lambda>c. digit10 c \<noteq> None) s) = None"
  shows "read_ipv4_addr s = None"
proof -
  have "read_octet s = None \<or> (\<exists>n. read_octet s = Some (n, dropWhile (\<lambda>c. digit10 c \<noteq> None) s))"
    unfolding read_octet_def read_number_def Let_def by simp
  then show ?thesis
    using assms unfolding read_ipv4_addr_def
    by (auto simp: numeral_eq_Suc read_separator_def)
qed

lemma digit10_digit16: "digit10 c \<noteq> None \<Longrightarrow> digit16 c \<noteq> None"
  by (simp add: digit10_def digit16_def Let_def split: if_splits)

lemma read_ipv4_hex:
  assumes "stops digit16 r" "read_char (CHR ''.'') r = None"
  shows "read_ipv4_addr (show_hex g @ r) = None"
proof (rule read_ipv4_None)
  define P where "P = (\<lambda>c. digit10 c \<noteq> None)"
  have r: "dropWhile P r = r"
    using assms(1) digit10_digit16 unfolding P_def by (cases r) (auto simp del: not_None_eq)
  have "read_char (CHR ''.'') (dropWhile P (show_hex g @ r)) = None"
  proof (cases "dropWhile P (show_hex g)")
    case Nil
    then show ?thesis using assms(2) by (simp add: dropWhile_append r)
  next
    case (Cons x xs)
    then have "x \<in> set (show_hex g)" using set_dropWhileD [of x P] by simp
    then have "x \<noteq> CHR ''.''" using show_hex_chars [of x g] by auto
    then show ?thesis using Cons assms(2) by (simp add: dropWhile_append r)
  qed
  then show "read_char (CHR ''.'') (dropWhile (\<lambda>c. digit10 c \<noteq> None) (show_hex g @ r)) = None"
    unfolding P_def .
qed

lemma read_groups_Suc_None:
  assumes "read_separator (CHR '':'') first read_ipv4_addr s = None"
  shows "read_groups (Suc n) first s =
     (case read_separator (CHR '':'') first read_h16 s of
        None \<Rightarrow> ([], False, s)
      | Some (g, r) \<Rightarrow> (case read_groups n False r of (gs, b, t) \<Rightarrow> (g # gs, b, t)))"
  using assms by simp

lemma read_groups_joined:
  assumes "\<forall>g \<in> set gs. g < 65536" "stops digit16 r" "read_char (CHR ''.'') r = None"
    "read_groups m (first \<and> gs = []) r = (ts, b, r')"
  shows "read_groups (length gs + m) first (joined (CHR '':'') first (map show_hex gs) @ r) = (gs @ ts, b, r')"
  using assms(1,4)
proof (induction gs arbitrary: first)
  case (Cons g gs)
  define s where "s = joined (CHR '':'') False (map show_hex gs) @ r"
  have s: "stops digit16 s" "read_char (CHR ''.'') s = None"
    using joined_append_stops [of digit16 "CHR '':''" r] assms(2,3) unfolding s_def
    by (simp, cases gs) simp_all
  have "read_groups (length gs + m) False s = (gs @ ts, b, r')" using Cons by (simp add: s_def)
  moreover have "read_separator (CHR '':'') first read_ipv4_addr ((if first then show_hex g else CHR '':'' # show_hex g) @ s) = None"
    "read_separator (CHR '':'') first read_h16 ((if first then show_hex g else CHR '':'' # show_hex g) @ s) = Some (g, s)"
    using read_ipv4_hex [OF s] read_h16_show [OF _ s(1)] Cons.prems(1) by (cases first; simp)+
  ultimately show ?case
    using read_groups_Suc_None by (simp del: read_groups.simps add: s_def)
qed simp

section \<open>Formatted addresses are read back\<close>

lemma read_number_stops: "stops digit s \<Longrightarrow> read_number radix digit m z b s = None"
  by (cases s) (simp_all add: read_number_def)

lemma read_inner_stops:
  assumes "stops digit16 r"
  shows "read_ipv4_addr r = None" "read_h16 r = None"
proof -
  have "stops digit10 r" using assms digit10_digit16 by (cases r) (auto simp del: not_None_eq)
  then show "read_ipv4_addr r = None" by (simp add: read_ipv4_addr_def numeral_eq_Suc read_octet_def read_number_stops)
  show "read_h16 r = None" using assms by (simp add: read_h16_def read_number_stops)
qed

lemma read_groups_stop:
  assumes "stops digit16 r" "first \<or> read_char (CHR '':'') r = None"
  shows "read_groups m first r = ([], False, r)"
  using read_inner_stops [OF assms(1)] assms(2)
  by (cases m; cases first) (auto simp: read_separator_def)

lemma read_groups_double_colon: "read_groups m first (CHR '':'' # CHR '':'' # s) = ([], False, CHR '':'' # CHR '':'' # s)"
  using read_inner_stops [of "CHR '':'' # s"] read_inner_stops [of "CHR '':'' # CHR '':'' # s"]
  by (cases m; cases first) auto

definition run_ok :: "nat list \<Rightarrow> nat \<times> nat \<Rightarrow> bool" where
  "run_ok gs span \<longleftrightarrow> fst span + snd span \<le> length gs \<and>
     take (snd span) (drop (fst span) gs) = replicate (snd span) 0"

lemma zero_run_ok:
  "run_ok pre longest \<Longrightarrow> len = 0 \<or> start + len = length pre \<and> drop start pre = replicate len 0 \<Longrightarrow>
   run_ok (pre @ gs) (zero_run (length pre) (start, len) longest gs)"
proof (induction gs arbitrary: pre start len longest)
  case (Cons g gs)
  have longest: "run_ok (pre @ [g]) longest" using Cons.prems(1) by (auto simp: run_ok_def)
  show ?case
  proof (cases "g = 0")
    case True
    define st where "st = (if len = 0 then length pre else start)"
    have st: "st + (len + 1) = length (pre @ [g])" "drop st (pre @ [g]) = replicate (len + 1) 0"
      using Cons.prems(2) True by (auto simp: st_def replicate_append_same)
    then have "run_ok (pre @ [g]) (st, len + 1)" by (simp add: run_ok_def)
    then have "run_ok (pre @ [g]) (if snd longest < len + 1 then (st, len + 1) else longest)"
      using longest by simp
    moreover have "zero_run (length pre) (start, len) longest (g # gs) =
        zero_run (length (pre @ [g])) (st, len + 1) (if snd longest < len + 1 then (st, len + 1) else longest) gs"
      using True by (simp add: Let_def st_def)
    moreover have "pre @ g # gs = (pre @ [g]) @ gs" by simp
    ultimately show ?thesis using Cons.IH st by presburger
  next
    case False
    then show ?thesis using Cons.IH [of "pre @ [g]" longest 0 0] longest by simp
  qed
qed simp

lemma run_split:
  assumes "run_ok gs (start, len)"
  shows "gs = take start gs @ replicate len 0 @ drop (start + len) gs"
proof -
  have "gs = take start gs @ take len (drop start gs) @ drop len (drop start gs)"
    by (simp only: append_take_drop_id)
  also have "\<dots> = take start gs @ replicate len 0 @ drop (start + len) gs"
    using assms unfolding run_ok_def by (simp add: add.commute)
  finally show ?thesis .
qed

lemma length_ipv6_segments: "even (length ip) \<Longrightarrow> 2 * length (ipv6_segments ip) = length ip"
  by (induction ip rule: ipv6_segments.induct) auto

lemma ipv6_segments_bound: "\<forall>g \<in> set (ipv6_segments ip). g < 65536"
proof (induction ip rule: ipv6_segments.induct)
  case (1 a b bs)
  have "unat a * 256 + unat b < 65536" using unat_byte_less [of a] unat_byte_less [of b] by linarith
  then show ?case using 1 by simp
qed simp_all

lemma segment_octets_segments: "even (length ip) \<Longrightarrow> segment_octets (ipv6_segments ip) = ip"
proof (induction ip rule: ipv6_segments.induct)
  case (1 a b bs)
  have "(unat a * 256 + unat b) div 256 = unat a" "(unat a * 256 + unat b) mod 256 = unat b"
    using unat_byte_less [of b] by simp_all
  then show ?case using 1 by simp
qed simp_all

lemma read_ipv6_compressed:
  assumes gs: "\<forall>g \<in> set (as @ bs). g < 65536" and len: "length as + len + length bs = 8" "0 < len"
    and r: "stops digit16 r" "read_char (CHR ''.'') r = None" "read_char (CHR '':'') r = None"
  shows "read_ipv6_addr (fmt_subslice as @ ''::'' @ fmt_subslice bs @ r) = Some (as @ replicate len 0 @ bs, r)"
proof -
  have head: "read_groups 8 True (fmt_subslice as @ ''::'' @ fmt_subslice bs @ r) = (as, False, ''::'' @ fmt_subslice bs @ r)"
    using read_groups_joined [where gs = as and m = "8 - length as" and first = True and ts = "[]" and b = False]
      gs len by (simp add: fmt_subslice_def join_joined read_groups_double_colon)
  have limit: "8 - (length as + 1) = length bs + (len - 1)" using len by simp
  have tail: "read_groups (8 - (length as + 1)) True (fmt_subslice bs @ r) = (bs, False, r)"
    unfolding limit
    using read_groups_joined [where gs = bs and m = "len - 1" and first = True and ts = "[]" and b = False]
      gs r read_groups_stop [OF r(1)] by (simp add: fmt_subslice_def join_joined)
  have "length as \<noteq> 8" "8 - length as - length bs = len" using len by simp_all
  then show ?thesis using tail unfolding read_ipv6_addr_def head by simp
qed

lemma show_hex_ffff: "show_hex 65535 = ''ffff''"
  by (simp add: show_hex.simps hex_digit_char_def char_of_eq_iff of_char_def take_bit_nat_eq_self)

lemma read_ipv6_leading:
  assumes "read_groups 7 True s = (tail, b, r)"
  shows "read_ipv6_addr (CHR '':'' # CHR '':'' # s) = Some (replicate (8 - length tail) 0 @ tail, r)"
  unfolding read_ipv6_addr_def read_groups_double_colon using assms by simp

lemma read_ipv6_mapped:
  assumes ip: "length ip = 4" and r: "stops digit10 r"
  shows "read_ipv6_addr (''::ffff:'' @ ipv4_display ip @ r) =
    Some ([0, 0, 0, 0, 0, 65535, unat (ip ! 0) * 256 + unat (ip ! 1), unat (ip ! 2) * 256 + unat (ip ! 3)], r)"
proof -
  define gs where "gs = [unat (ip ! 0) * 256 + unat (ip ! 1), unat (ip ! 2) * 256 + unat (ip ! 3)]"
  define s where "s = CHR '':'' # ipv4_display ip @ r"
  have form: "''::ffff:'' @ ipv4_display ip @ r = CHR '':'' # CHR '':'' # show_hex 65535 @ s"
    by (simp add: show_hex_ffff s_def)
  have "read_separator (CHR '':'') False read_ipv4_addr s = Some (map unat ip, r)"
    using read_ipv4_display [OF ip r] by (simp add: s_def)
  then have "read_groups (Suc 5) False s = (gs, True, r)"
    using ip unfolding read_groups.simps by (simp add: gs_def)
  then have "read_groups (Suc (Suc 5)) True (show_hex 65535 @ s) = (65535 # gs, True, r)"
    by (subst read_groups_Suc_None) (simp_all add: read_ipv4_hex read_h16_show s_def del: read_groups.simps)
  then have "read_groups 7 True (show_hex 65535 @ s) = (65535 # gs, True, r)"
    by (simp del: read_groups.simps)
  moreover have "replicate 5 (0 :: nat) = [0, 0, 0, 0, 0]" by (simp add: numeral_eq_Suc)
  ultimately show ?thesis
    using read_ipv6_leading unfolding form by (simp add: gs_def)
qed

lemma stops10: "stops digit16 r \<Longrightarrow> stops digit10 r"
  using digit10_digit16 by (cases r) (auto simp del: not_None_eq)

lemma length_4E:
  assumes "length xs = 4"
  obtains a b c d where "xs = [a, b, c, d]"
  using assms by (auto simp: numeral_eq_Suc length_Suc_conv)

lemma read_ipv6_display:
  assumes ip: "length ip = 16"
    and r: "stops digit16 r" "read_char (CHR ''.'') r = None" "read_char (CHR '':'') r = None"
  shows "read_ipv6_addr (ipv6_display ip @ r) = Some (ipv6_segments ip, r)"
proof (cases "take 12 ip = replicate 10 0 @ [0xff, 0xff]")
  case True
  have "length (drop 12 ip) = 4" using ip by simp
  then obtain a b c d where d: "drop 12 ip = [a, b, c, d]" by (rule length_4E)
  then have "ip = replicate 10 0 @ [0xff, 0xff] @ [a, b, c, d]" using True append_take_drop_id [of 12 ip] by simp
  moreover have "replicate 10 (0 :: byte) = [0, 0, 0, 0, 0, 0, 0, 0, 0, 0]" by (simp add: numeral_eq_Suc)
  ultimately have "ipv6_segments ip = [0, 0, 0, 0, 0, 65535, unat a * 256 + unat b, unat c * 256 + unat d]"
    by simp
  moreover have "ipv6_display ip @ r = ''::ffff:'' @ ipv4_display [a, b, c, d] @ r"
    using True by (simp add: ipv6_display_def d)
  ultimately show ?thesis using read_ipv6_mapped [OF _ stops10 [OF r(1)], of "[a, b, c, d]"] by simp
next
  case False
  define gs where "gs = ipv6_segments ip"
  have gs: "length gs = 8" "\<forall>g \<in> set gs. g < 65536"
    using length_ipv6_segments [of ip] ipv6_segments_bound [of ip] ip by (simp_all add: gs_def)
  obtain st len where run: "zero_run 0 (0, 0) (0, 0) gs = (st, len)" by fastforce
  have ok: "run_ok gs (st, len)" using zero_run_ok [of "[]" "(0, 0)" 0 0 gs] run by (simp add: run_ok_def)
  show ?thesis
  proof (cases "1 < len")
    case True
    have "ipv6_display ip @ r = fmt_subslice (take st gs) @ ''::'' @ fmt_subslice (drop (st + len) gs) @ r"
      using False True by (simp add: ipv6_display_def gs_def [symmetric] run)
    moreover have "\<forall>g \<in> set (take st gs @ drop (st + len) gs). g < 65536"
      using gs(2) by (auto dest: in_set_takeD in_set_dropD)
    ultimately show ?thesis
      using read_ipv6_compressed [of "take st gs" "drop (st + len) gs" len r] gs(1) ok r True run_split [OF ok]
      by (simp add: run_ok_def gs_def)
  next
    case short: False
    have "read_groups (length gs + 0) True (fmt_subslice gs @ r) = (gs @ [], False, r)"
      unfolding fmt_subslice_def join_joined by (rule read_groups_joined) (use gs(2) r in simp_all)
    moreover have "ipv6_display ip @ r = fmt_subslice gs @ r"
      using False short by (simp add: ipv6_display_def gs_def [symmetric] run)
    ultimately show ?thesis using gs(1) by (simp add: read_ipv6_addr_def gs_def)
  qed
qed

lemma read_port_show: "read_port (CHR '':'' # show_nat (unat (p :: u16))) = Some (unat p, [])"
proof -
  have "unat p < 2 ^ LENGTH(16)" by (rule unsigned_less)
  then show ?thesis using read_decimal_show [of "unat p" "2 ^ 16" "[]"] by (simp add: read_port_def)
qed

lemma read_scope_show:
  "read_scope_id (CHR ''%'' # show_nat (unat (w :: u32)) @ CHR '']'' # r) = Some (unat w, CHR '']'' # r)"
proof -
  have "unat w < 2 ^ LENGTH(32)" by (rule unsigned_less)
  then show ?thesis using read_decimal_show [of "unat w" "2 ^ 32" "CHR '']'' # r"] by (simp add: read_scope_id_def)
qed

lemma read_ipv4_bracket: "read_ipv4_addr (CHR ''['' # s) = None"
  by (rule read_inner_stops) (simp add: digit16_def Let_def of_char_def)

lemma map_of_nat_unat [simp]: "map of_nat (map unat ip) = (ip :: bytes)"
  by (simp add: comp_def)

lemma socket_text_roundtrip:
  assumes "socket_text_ok a"
  shows "socket_addr_from_str (socket_addr_display a) = Some a"
proof (cases a)
  case (SocketV4 ip port)
  have "read_ipv4_addr (ipv4_display ip @ CHR '':'' # show_nat (unat port)) = Some (map unat ip, CHR '':'' # show_nat (unat port))"
    using SocketV4 assms by (intro read_ipv4_display) auto
  then have "read_socket_addr_v4 (socket_addr_display a) = Some (a, [])"
    using SocketV4 by (simp add: read_socket_addr_v4_def read_port_show comp_def)
  then show ?thesis by (simp add: socket_addr_from_str_def)
next
  case (SocketV6 ip port flow scope)
  define t where "t = (if scope = 0 then [] else ''%'' @ show_nat (unat scope)) @ '']:'' @ show_nat (unat port)"
  have form: "socket_addr_display a = CHR ''['' # ipv6_display ip @ t" using SocketV6 by (simp add: t_def)
  have ip: "length ip = 16" "flow = 0" using SocketV6 assms by simp_all
  have "read_ipv6_addr (ipv6_display ip @ t) = Some (ipv6_segments ip, t)"
    by (rule read_ipv6_display) (auto simp: ip t_def)
  moreover have "(case read_scope_id t of Some x \<Rightarrow> x | None \<Rightarrow> (0, t)) = (unat scope, '']:'' @ show_nat (unat port))"
    using read_scope_show [of scope] by (auto simp: t_def read_scope_id_def)
  ultimately have "read_socket_addr_v6 (CHR ''['' # ipv6_display ip @ t) = Some (a, [])"
    using ip by (simp add: read_socket_addr_v6_def read_port_show segment_octets_segments SocketV6)
  moreover have "read_socket_addr_v4 (CHR ''['' # ipv6_display ip @ t) = None"
    by (simp add: read_socket_addr_v4_def read_ipv4_bracket)
  ultimately show ?thesis unfolding form by (simp add: socket_addr_from_str_def)
qed

section \<open>The characters of an address\<close>

definition sock_char :: "char \<Rightarrow> bool" where
  "sock_char c \<longleftrightarrow> digit16 c \<noteq> None \<or> c \<in> set ''.:[]%''"

lemma sock_char_simps [simp]:
  "sock_char (CHR ''.'')" "sock_char (CHR '':'')" "sock_char (CHR ''['')" "sock_char (CHR '']'')"
  "sock_char (CHR ''%'')" "\<not> sock_char (CHR ''_'')" "\<not> sock_char (CHR ''='')"
  by (simp_all add: sock_char_def) (simp add: digit16_def Let_def of_char_def)

text \<open>What was consumed between two inputs consists of such characters.\<close>

definition eaten :: "string \<Rightarrow> string \<Rightarrow> bool" where
  "eaten s r \<longleftrightarrow> (\<exists>u. s = u @ r \<and> list_all sock_char u)"

lemma eaten_refl [simp]: "eaten s s"
  by (simp add: eaten_def)

lemma eaten_trans [trans]: "eaten s t \<Longrightarrow> eaten t r \<Longrightarrow> eaten s r"
  by (auto simp: eaten_def)

lemma eaten_Cons: "sock_char c \<Longrightarrow> eaten (c # r) r"
  unfolding eaten_def by (rule exI [of _ "[c]"]) simp

lemma read_char_eaten: "read_char c s = Some r \<Longrightarrow> sock_char c \<Longrightarrow> eaten s r"
  by (cases s) (auto simp: eaten_Cons split: if_splits)

lemma read_number_eaten:
  assumes "read_number radix digit m z b s = Some (n, r)" "\<And>c. digit c \<noteq> None \<Longrightarrow> digit16 c \<noteq> None"
  shows "eaten s r"
proof -
  let ?P = "\<lambda>c. digit c \<noteq> None"
  have "r = dropWhile ?P s" using assms(1) by (simp add: read_number_def Let_def split: if_splits)
  moreover have "list_all sock_char (takeWhile ?P s)"
    using assms(2) by (auto simp: list_all_iff sock_char_def simp del: not_None_eq dest: set_takeWhileD)
  moreover have "s = takeWhile ?P s @ dropWhile ?P s" by (simp only: takeWhile_dropWhile_id)
  ultimately show ?thesis unfolding eaten_def by blast
qed

lemmas read_decimal_eaten = read_number_eaten [where digit = digit10, OF _ digit10_digit16]

lemma read_separator_eaten:
  assumes "read_separator c first f s = Some (v, r)" "sock_char c" "\<And>t. f t = Some (v, r) \<Longrightarrow> eaten t r"
  shows "eaten s r"
  using assms by (auto simp: read_separator_def bind_eq_Some_conv split: if_splits intro: eaten_trans read_char_eaten)

lemma read_octets_eaten: "read_octets k first s = Some (ns, r) \<Longrightarrow> eaten s r"
proof (induction k first s arbitrary: ns r rule: read_octets.induct)
  case (2 k first s)
  then obtain n t ms where "read_separator (CHR ''.'') first read_octet s = Some (n, t)" "read_octets k False t = Some (ms, r)"
    by (auto simp: bind_eq_Some_conv)
  then show ?case
    using 2(1) read_separator_eaten [of "CHR ''.''" first read_octet s n t] read_decimal_eaten
    unfolding read_octet_def by (metis eaten_trans sock_char_simps(1))
qed simp

lemma read_groups_eaten: "read_groups k first s = (gs, b, r) \<Longrightarrow> eaten s r"
proof (induction k first s arbitrary: gs b r rule: read_groups.induct)
  case (2 n first s)
  consider (v4) os where "n > 0" "read_separator (CHR '':'') first read_ipv4_addr s = Some (os, r)"
    | (stop) "r = s"
    | (group) g t gs' where "read_separator (CHR '':'') first read_h16 s = Some (g, t)" "read_groups n False t = (gs', b, r)"
        "(if n > 0 then read_separator (CHR '':'') first read_ipv4_addr s else None) = None"
    using 2(2) by (auto split: option.splits if_splits prod.splits)
  then show ?case
  proof cases
    case v4
    show ?thesis
      by (rule read_separator_eaten [OF v4(2)]) (simp_all add: read_ipv4_addr_def read_octets_eaten)
  next
    case group
    have "eaten s t" by (rule read_separator_eaten [OF group(1)]) (auto simp: read_h16_def intro: read_number_eaten)
    moreover have "eaten t r" using group 2(1) by blast
    ultimately show ?thesis by (rule eaten_trans)
  qed simp
qed simp

lemma read_ipv6_eaten:
  assumes "read_ipv6_addr s = Some (gs, r)"
  shows "eaten s r"
proof -
  obtain head b t where h: "read_groups 8 True s = (head, b, t)" by (cases "read_groups 8 True s") auto
  show ?thesis
  proof (cases "length head = 8")
    case True
    then show ?thesis using assms h read_groups_eaten [OF h] by (simp add: read_ipv6_addr_def)
  next
    case False
    then obtain r1 r2 where r: "read_char (CHR '':'') t = Some r1" "read_char (CHR '':'') r1 = Some r2"
      "r = snd (snd (read_groups (8 - (length head + 1)) True r2))"
      using assms h by (auto simp: read_ipv6_addr_def bind_eq_Some_conv case_prod_beta split: if_splits)
    have "eaten s t" using h by (rule read_groups_eaten)
    also have "eaten t r1" using r(1) by (rule read_char_eaten) simp
    also have "eaten r1 r2" using r(2) by (rule read_char_eaten) simp
    also have "eaten r2 r" using r(3) read_groups_eaten by (metis prod.collapse)
    finally show ?thesis .
  qed
qed

lemma read_prefixed_eaten:
  "Option.bind (read_char c s) (read_number 10 digit10 m z b) = Some (n, r) \<Longrightarrow> sock_char c \<Longrightarrow> eaten s r"
  unfolding bind_eq_Some_conv using read_char_eaten read_decimal_eaten eaten_trans by blast

lemma read_port_eaten: "read_port s = Some (p, r) \<Longrightarrow> eaten s r"
  unfolding read_port_def by (erule read_prefixed_eaten) simp

lemma read_scope_eaten: "(case read_scope_id s of Some x \<Rightarrow> x | None \<Rightarrow> (0, s)) = (p, r) \<Longrightarrow> eaten s r"
  unfolding read_scope_id_def
  by (auto split: option.splits intro: read_prefixed_eaten [of "CHR ''%''"])

lemma read_v6_eaten:
  assumes "read_socket_addr_v6 s = Some (a, r)"
  shows "eaten s r"
proof -
  obtain r0 ip r1 r2 r3 port where r: "read_char (CHR ''['') s = Some r0" "read_ipv6_addr r0 = Some (ip, r1)"
    "r2 = snd (case read_scope_id r1 of Some x \<Rightarrow> x | None \<Rightarrow> (0, r1))"
    "read_char (CHR '']'') r2 = Some r3" "read_port r3 = Some (port, r)"
    using assms by (auto simp: read_socket_addr_v6_def bind_eq_Some_conv Let_def case_prod_beta cong: option.case_cong)
  have "eaten s r0" using r(1) by (rule read_char_eaten) simp
  also have "eaten r0 r1" using r(2) by (rule read_ipv6_eaten)
  also have "eaten r1 r2" unfolding r(3) by (rule read_scope_eaten) (rule prod.collapse [symmetric])
  also have "eaten r2 r3" using r(4) by (rule read_char_eaten) simp
  also have "eaten r3 r" using r(5) by (rule read_port_eaten)
  finally show ?thesis .
qed

lemma read_v4_eaten: "read_socket_addr_v4 s = Some (a, r) \<Longrightarrow> eaten s r"
  by (auto simp: read_socket_addr_v4_def bind_eq_Some_conv read_ipv4_addr_def
      intro: eaten_trans read_octets_eaten read_port_eaten)

lemma socket_from_str_chars:
  assumes "socket_addr_from_str s = Some a"
  shows "list_all sock_char s"
proof -
  have "eaten s []"
    using assms read_v4_eaten [of s a "[]"] read_v6_eaten [of s a "[]"]
    by (auto simp: socket_addr_from_str_def split: option.splits prod.splits list.splits)
  then show ?thesis by (simp add: eaten_def)
qed

lemma join_chars: "list_all P sep \<Longrightarrow> \<forall>t \<in> set ts. list_all P t \<Longrightarrow> list_all P (join sep ts)"
  by (induction sep ts rule: join.induct) auto

lemma show_chars: "list_all sock_char (show_nat n)" "list_all sock_char (show_hex n)"
  unfolding list_all_iff sock_char_def
  using show_nat_digits digit10_digit16 show_hex_chars by blast+

lemma ipv4_display_chars: "list_all sock_char (ipv4_display ip)"
  by (auto simp: ipv4_display_def show_chars intro!: join_chars)

lemma fmt_subslice_chars: "list_all sock_char (fmt_subslice gs)"
  by (auto simp: fmt_subslice_def show_chars intro!: join_chars)

lemma ipv6_display_chars: "list_all sock_char (ipv6_display ip)"
proof -
  have "sock_char (CHR ''f'')" by (simp add: sock_char_def digit16_def Let_def of_char_def)
  then show ?thesis
    by (auto simp: ipv6_display_def ipv4_display_chars fmt_subslice_chars Let_def case_prod_beta)
qed

lemma socket_display_chars: "list_all sock_char (socket_addr_display a)"
  by (cases a) (simp_all add: ipv4_display_chars ipv6_display_chars show_chars)

end
