(* ===== verification/Signed_Packet.thy ===== *)
theory Signed_Packet
  imports Socket_Text "HOL-Library.Sublist"
begin

text \<open>
  Signed DNS packets in the pkarr format (\<open>iroh-dns/src/pkarr.rs\<close>): building, parsing with and
  without verification, the accessors, the order by recency, and the process-wide strictly monotonic
  timestamps with their compare-and-exchange loop. A packet is its octets
  \<open><32 public key><64 signature><8 timestamp><DNS packet>\<close>. The DNS codec is a third-party library
  and a parameter. Lemmas: a built packet verifies and parses back to what was signed, parsing accepts
  only packets whose signature verifies, and timestamps returned by concurrent callers increase
  strictly.
\<close>

section \<open>The DNS library\<close>

datatype dns_rdata = RD_TXT bytes | RD_Other

record dns_record =
  rr_name :: string
  rr_ttl :: u32
  rr_rdata :: dns_rdata

record dns_lib =
  dns_build :: "dns_record list \<Rightarrow> bytes option"
  dns_parse :: "bytes \<Rightarrow> dns_record list option"
  txt_add_string :: "string \<Rightarrow> bytes option"
  txt_to_string :: "bytes \<Rightarrow> string option"
  name_new_ok :: "string \<Rightarrow> bool"
  name_without :: "string \<Rightarrow> string \<Rightarrow> string option"

text \<open>
  Documented behaviour of \<open>simple_dns\<close>: a packet that was encoded parses to the same answers, and a
  TXT record holding one character string converts back to it.
\<close>

definition dns_lib_ok :: "dns_lib \<Rightarrow> bool" where
  "dns_lib_ok D \<longleftrightarrow>
     (\<forall>rs b. dns_build D rs = Some b \<longrightarrow> dns_parse D b = Some rs) \<and>
     (\<forall>s t. txt_add_string D s = Some t \<longrightarrow> txt_to_string D t = Some s)"

section \<open>Building and parsing\<close>

definition MAX_DNS_PACKET_SIZE :: nat where "MAX_DNS_PACKET_SIZE = 1000"
definition HEADER_SIZE :: nat where "HEADER_SIZE = 104"
definition MAX_SIGNED_PACKET_SIZE :: nat where "MAX_SIGNED_PACKET_SIZE = HEADER_SIZE + MAX_DNS_PACKET_SIZE"

type_synonym signed_packet = bytes
type_synonym timestamp = u64

datatype build_error = PacketTooLarge nat | BuildDnsError

datatype verify_error = TooShort nat | TooLarge nat | SignatureError | VerifyDnsError | InvalidKey

text \<open>The signed octets of BEP 44.\<close>

definition signable :: "timestamp \<Rightarrow> bytes \<Rightarrow> bytes" where
  "signable ts v = string_bytes (''3:seqi'' @ show_nat (unat ts) @ ''e1:v'' @ show_nat (length v) @ '':'') @ v"

definition normalize_name :: "string \<Rightarrow> string \<Rightarrow> string" where
  "normalize_name origin name0 =
     (let name = (if suffix ''.'' name0 then butlast name0 else name0);
          label = last (split_char (CHR ''.'') name) in
      if label = origin then name
      else if label = ''@'' \<or> label = [] then origin
      else name @ ''.'' @ origin)"

text \<open>The records of \<open>from_txt_strings\<close>; the first value that is no character string is an error.\<close>

fun txt_answers :: "dns_lib \<Rightarrow> string \<Rightarrow> u32 \<Rightarrow> string list \<Rightarrow> build_error + dns_record list" where
  "txt_answers D name ttl [] = Inr []"
| "txt_answers D name ttl (v # vs) =
     and_then (ok_or BuildDnsError (txt_add_string D v)) (\<lambda>t.
     and_then (txt_answers D name ttl vs) (\<lambda>rs.
       Inr (\<lparr>rr_name = name, rr_ttl = ttl, rr_rdata = RD_TXT t\<rparr> # rs)))"

text \<open>The timestamp is taken only once the packet is known to fit.\<close>

definition encode_txt_strings ::
  "ed25519 \<Rightarrow> text_encodings \<Rightarrow> dns_lib \<Rightarrow> secret_key \<Rightarrow> string \<Rightarrow> string list \<Rightarrow> u32 \<Rightarrow> build_error + bytes" where
  "encode_txt_strings C T D sk name values ttl =
     (let origin = public_key_to_z32 T (secret_key_public C sk) in
      and_then (txt_answers D (normalize_name origin name) ttl values) (\<lambda>answers.
      and_then (ok_or BuildDnsError (dns_build D answers)) (\<lambda>encoded.
        if length encoded > MAX_DNS_PACKET_SIZE then Inl (PacketTooLarge (length encoded))
        else Inr encoded)))"

definition from_txt_strings ::
  "ed25519 \<Rightarrow> text_encodings \<Rightarrow> dns_lib \<Rightarrow> timestamp \<Rightarrow> secret_key \<Rightarrow> string \<Rightarrow> string list \<Rightarrow> u32 \<Rightarrow>
   build_error + signed_packet" where
  "from_txt_strings C T D now sk name values ttl =
     and_then (encode_txt_strings C T D sk name values ttl) (\<lambda>encoded.
       Inr (secret_key_public C sk @ secret_key_sign C sk (signable now encoded) @ u64_to_be now @ encoded))"

definition packet_public_key :: "ed25519 \<Rightarrow> signed_packet \<Rightarrow> public_key option" where
  "packet_public_key C p = (case public_key_try_from C (take 32 p) of Inr k \<Rightarrow> Some k | Inl _ \<Rightarrow> None)"

definition packet_signature :: "signed_packet \<Rightarrow> signature" where
  "packet_signature p = take 64 (drop 32 p)"

definition packet_timestamp :: "signed_packet \<Rightarrow> timestamp" where
  "packet_timestamp p = u64_of_be (take 8 (drop 96 p))"

definition encoded_packet :: "signed_packet \<Rightarrow> bytes" where
  "encoded_packet p = drop 104 p"

definition to_relay_payload :: "signed_packet \<Rightarrow> bytes" where
  "to_relay_payload p = drop 32 p"

text \<open>The outer \<open>None\<close> is a panic of the signature check on octets that are no key.\<close>

definition packet_from_bytes :: "ed25519 \<Rightarrow> dns_lib \<Rightarrow> bytes \<Rightarrow> (verify_error + signed_packet) option" where
  "packet_from_bytes C D b =
     (if length b < HEADER_SIZE then Some (Inl (TooShort (length b)))
      else if length b > MAX_SIGNED_PACKET_SIZE then Some (Inl (TooLarge (length b)))
      else
        (case public_key_try_from C (take 32 b) of
           Inl _ \<Rightarrow> Some (Inl InvalidKey)
         | Inr public_key \<Rightarrow>
            (let sig = take 64 (drop 32 b); ts = u64_of_be (take 8 (drop 96 b)); encoded = drop 104 b in
             case public_key_verify C public_key (signable ts encoded) sig of
               None \<Rightarrow> None
             | Some False \<Rightarrow> Some (Inl SignatureError)
             | Some True \<Rightarrow> (if dns_parse D encoded = None then Some (Inl VerifyDnsError) else Some (Inr b)))))"

definition from_relay_payload ::
  "ed25519 \<Rightarrow> dns_lib \<Rightarrow> public_key \<Rightarrow> bytes \<Rightarrow> (verify_error + signed_packet) option" where
  "from_relay_payload C D public_key payload = packet_from_bytes C D (public_key @ payload)"

definition from_bytes_unchecked :: "dns_lib \<Rightarrow> bytes \<Rightarrow> verify_error + signed_packet" where
  "from_bytes_unchecked D b =
     (if length b < HEADER_SIZE then Inl (TooShort (length b))
      else if length b > MAX_SIGNED_PACKET_SIZE then Inl (TooLarge (length b))
      else if dns_parse D (drop 104 b) = None then Inl VerifyDnsError
      else Inr b)"

definition from_parts_unchecked ::
  "dns_lib \<Rightarrow> bytes \<Rightarrow> bytes \<Rightarrow> timestamp \<Rightarrow> bytes \<Rightarrow> verify_error + signed_packet" where
  "from_parts_unchecked D public_key sig ts encoded =
     from_bytes_unchecked D (public_key @ sig @ u64_to_be ts @ encoded)"

text \<open>The records under a name; \<open>None\<close> is the panic of \<open>public_key\<close> on octets that are no key.\<close>

definition txt_record_value :: "dns_lib \<Rightarrow> string \<Rightarrow> string \<Rightarrow> string \<Rightarrow> dns_record \<Rightarrow> string option" where
  "txt_record_value D zone normalized name rr =
     (case rr_rdata rr of
        RD_Other \<Rightarrow> None
      | RD_TXT txt \<Rightarrow>
         (if rr_name rr = normalized then txt_to_string D txt
          else
            (case name_without D (rr_name rr) zone of
               None \<Rightarrow> None
             | Some relative \<Rightarrow> (if relative = name then txt_to_string D txt else None))))"

definition txt_records :: "ed25519 \<Rightarrow> text_encodings \<Rightarrow> dns_lib \<Rightarrow> string \<Rightarrow> signed_packet \<Rightarrow> string list option" where
  "txt_records C T D name p =
     (case packet_public_key C p of
        None \<Rightarrow> None
      | Some k \<Rightarrow>
         (let origin = public_key_to_z32 T k in
          case dns_parse D (encoded_packet p) of
            None \<Rightarrow> Some []
          | Some answers \<Rightarrow>
             (if name_new_ok D origin
              then Some (List.map_filter (txt_record_value D origin (normalize_name origin name) name) answers)
              else Some [])))"

definition all_txt_records ::
  "ed25519 \<Rightarrow> text_encodings \<Rightarrow> dns_lib \<Rightarrow> signed_packet \<Rightarrow> (string \<times> string) list option" where
  "all_txt_records C T D p =
     (case packet_public_key C p of
        None \<Rightarrow> None
      | Some k \<Rightarrow>
         (let origin = public_key_to_z32 T k in
          case dns_parse D (encoded_packet p) of
            None \<Rightarrow> Some []
          | Some answers \<Rightarrow>
             (if name_new_ok D origin
              then Some (List.map_filter (\<lambda>rr. case rr_rdata rr of
                     RD_Other \<Rightarrow> None
                   | RD_TXT txt \<Rightarrow>
                      map_option (\<lambda>v. (case name_without D (rr_name rr) origin of Some n \<Rightarrow> n | None \<Rightarrow> [], v))
                        (txt_to_string D txt)) answers)
              else Some [])))"

definition more_recent_than :: "signed_packet \<Rightarrow> signed_packet \<Rightarrow> bool" where
  "more_recent_than p q =
     (if packet_timestamp p = packet_timestamp q then encoded_packet p > encoded_packet q
      else packet_timestamp p > packet_timestamp q)"

section \<open>Timestamps\<close>

text \<open>
  One iteration of the loop of \<open>Timestamp::now\<close>: the candidate is the clock, or one more than the
  last timestamp known (the addition wraps around at the width of the counter).
\<close>

definition next_timestamp :: "u64 \<Rightarrow> u64 \<Rightarrow> timestamp" where
  "next_timestamp micros prev = max micros (prev + 1)"

text \<open>
  Concurrent callers on the shared counter: the counter, the callers inside the loop with the clock
  they read and the last value they know, and the timestamps returned so far.
\<close>

record ts_state =
  ts_last :: u64
  ts_callers :: "(nat \<times> u64 \<times> u64) list"
  ts_returned :: "timestamp list"

definition ts_init :: ts_state where
  "ts_init = \<lparr>ts_last = 0, ts_callers = [], ts_returned = []\<rparr>"

text \<open>
  An iteration of one caller: the exchange succeeds when the counter still holds the value the caller
  knows, and the caller returns; otherwise the caller learns the current value and goes round again.
\<close>

inductive ts_loop :: "ts_state \<Rightarrow> ts_state \<Rightarrow> bool" where
  ts_exchange: "map_of (ts_callers s) c = Some (micros, prev) \<Longrightarrow> prev = ts_last s \<Longrightarrow>
     ts_loop s (s\<lparr>ts_last := next_timestamp micros prev, ts_callers := al_remove c (ts_callers s),
                  ts_returned := ts_returned s @ [next_timestamp micros prev]\<rparr>)"
| ts_conflict: "map_of (ts_callers s) c = Some (micros, prev) \<Longrightarrow> prev \<noteq> ts_last s \<Longrightarrow>
     ts_loop s (s\<lparr>ts_callers := al_update c (micros, ts_last s) (ts_callers s)\<rparr>)"

text \<open>
  The weak exchange may also fail although the counter holds the expected value; the caller then
  knows the same value as before and nothing changes.
\<close>

inductive ts_step :: "ts_state \<Rightarrow> ts_state \<Rightarrow> bool" where
  ts_load: "c \<notin> set (al_keys (ts_callers s)) \<Longrightarrow>
     ts_step s (s\<lparr>ts_callers := al_update c (micros, ts_last s) (ts_callers s)\<rparr>)"
| ts_iterate: "ts_loop s t \<Longrightarrow> ts_step s t"
| ts_spurious: "map_of (ts_callers s) c = Some (micros, ts_last s) \<Longrightarrow> ts_step s s"

section \<open>Timestamps increase strictly\<close>

definition ts_inv :: "ts_state \<Rightarrow> bool" where
  "ts_inv s \<longleftrightarrow> distinct (al_keys (ts_callers s)) \<and>
     (ts_returned s \<noteq> [] \<longrightarrow> last (ts_returned s) = ts_last s) \<and>
     (- 1 \<notin> set (butlast (ts_returned s)) \<longrightarrow> sorted_wrt (<) (ts_returned s))"

lemma next_timestamp_greater: "prev \<noteq> - 1 \<Longrightarrow> prev < next_timestamp micros prev"
proof -
  assume "prev \<noteq> - 1"
  then have "1 + prev \<noteq> 0" by (simp add: add.commute eq_neg_iff_add_eq_0)
  then have "prev < prev + 1" by (simp add: word_less_nat_alt unatSuc add.commute)
  then show ?thesis by (simp add: next_timestamp_def less_max_iff_disj)
qed

lemma sorted_wrt_last:
  "sorted_wrt (<) xs \<Longrightarrow> x \<in> set xs \<Longrightarrow> x \<le> last (xs :: 'a :: linorder list)"
  by (induction xs) (auto simp: less_imp_le)

lemma ts_inv_init: "ts_inv ts_init"
  by (simp add: ts_inv_def ts_init_def)

lemma ts_inv_loop:
  assumes "ts_loop s t" "ts_inv s"
  shows "ts_inv t"
  using assms(1)
proof cases
  case (ts_exchange c micros prev)
  let ?n = "next_timestamp micros prev"
  have "sorted_wrt (<) (ts_returned s @ [?n])" if max: "- 1 \<notin> set (ts_returned s)"
  proof -
    have sorted: "sorted_wrt (<) (ts_returned s)"
      using assms(2) max in_set_butlastD by (fastforce simp: ts_inv_def)
    have "x < ?n" if x: "x \<in> set (ts_returned s)" for x
    proof -
      have "ts_returned s \<noteq> []" using x by auto
      then have l: "last (ts_returned s) = prev" "prev \<in> set (ts_returned s)"
        using assms(2) ts_exchange last_in_set by (fastforce simp: ts_inv_def)+
      then have "x \<le> prev" using sorted_wrt_last [OF sorted x] by simp
      also have "prev < ?n" using l(2) max by (intro next_timestamp_greater) auto
      finally show ?thesis .
    qed
    then show ?thesis using sorted by (simp add: sorted_wrt_append)
  qed
  then show ?thesis using assms(2) ts_exchange(1) by (simp add: ts_inv_def)
next
  case (ts_conflict c micros prev)
  then show ?thesis using assms(2) by (simp add: ts_inv_def)
qed

lemma ts_inv_step: "ts_step s t \<Longrightarrow> ts_inv s \<Longrightarrow> ts_inv t"
proof (induction rule: ts_step.induct)
  case (ts_load c s micros)
  then show ?case by (simp add: ts_inv_def)
qed (auto intro: ts_inv_loop)

lemma ts_reachable_inv: "ts_step\<^sup>*\<^sup>* ts_init s \<Longrightarrow> ts_inv s"
  by (induction rule: rtranclp_induct) (auto intro: ts_inv_init ts_inv_step)

section \<open>The loop ends\<close>

text \<open>
  While no new caller enters, every iteration either lets a caller return or brings a caller up to
  date until the next return.
\<close>

definition stale :: "u64 \<Rightarrow> u64 \<times> u64 \<Rightarrow> nat" where
  "stale current v = (if snd v = current then 0 else 1)"

definition ts_stale :: "ts_state \<Rightarrow> nat" where
  "ts_stale s = sum_list (map (\<lambda>p. stale (ts_last s) (snd p)) (ts_callers s))"

definition ts_measure :: "ts_state \<Rightarrow> nat" where
  "ts_measure s = length (ts_callers s) * length (ts_callers s) + ts_stale s"

lemma ts_stale_le: "ts_stale s \<le> length (ts_callers s)"
proof -
  have "sum_list (map (\<lambda>p. stale l (snd p)) m) \<le> length m" for l and m :: "(nat \<times> u64 \<times> u64) list"
    by (induction m) (auto simp: stale_def)
  then show ?thesis by (simp add: ts_stale_def)
qed

lemma ts_loop_measure:
  assumes "ts_loop s t" "ts_inv s"
  shows "ts_measure t < ts_measure s"
  using assms(1)
proof cases
  case (ts_exchange c micros prev)
  have "distinct (al_keys (ts_callers s))" using assms(2) by (simp add: ts_inv_def)
  from length_al_remove [OF this ts_exchange(2)]
  have "length (ts_callers s) = Suc (length (ts_callers t))" using ts_exchange(1) by simp
  then show ?thesis using ts_stale_le [of t] by (simp add: ts_measure_def)
next
  case (ts_conflict c micros prev)
  have "ts_last t = ts_last s" "length (ts_callers t) = length (ts_callers s)"
    using ts_conflict by (auto simp: length_al_update dest: map_of_SomeD intro: rev_image_eqI)
  moreover have "ts_stale t + 1 = ts_stale s"
    using sum_al_update [of "stale (ts_last s)" c "(micros, ts_last s)" "ts_callers s"] ts_conflict
    by (simp add: ts_stale_def stale_def)
  ultimately show ?thesis by (simp add: ts_measure_def)
qed

lemma ts_loop_bound:
  "(ts_loop ^^ n) s t \<Longrightarrow> ts_inv s \<Longrightarrow> ts_inv t \<and> n + ts_measure t \<le> ts_measure s"
proof (induction n arbitrary: t)
  case (Suc n)
  then obtain u where u: "(ts_loop ^^ n) s u" "ts_loop u t" by auto
  then have "ts_inv u" "n + ts_measure u \<le> ts_measure s" using Suc by auto
  then show ?case using ts_loop_measure [OF u(2)] ts_inv_loop [OF u(2)] by simp
qed simp

lemma ts_loop_progress: "ts_callers s \<noteq> [] \<Longrightarrow> \<exists>t. ts_loop s t"
proof -
  assume "ts_callers s \<noteq> []"
  then obtain c micros prev m where "ts_callers s = (c, micros, prev) # m" by (cases "ts_callers s") auto
  then have "map_of (ts_callers s) c = Some (micros, prev)" by simp
  then show ?thesis using ts_exchange [of s c] ts_conflict [of s c] by blast
qed

section \<open>Packets\<close>

text \<open>The signed octets determine the timestamp and the DNS packet.\<close>

lemma show_nat_inj: "show_nat m = show_nat n \<longleftrightarrow> m = n"
  using show_nat_value by metis

lemma show_nat_prefix:
  assumes "show_nat m @ c # s = show_nat n @ c # t" "digit10 c = None"
  shows "m = n \<and> s = t"
proof -
  have "c \<notin> set (show_nat m)" "c \<notin> set (show_nat n)" using assms(2) show_nat_digits by blast+
  then have "show_nat m = show_nat n \<and> s = t" using assms(1) split_once_append by (metis option.inject prod.inject)
  then show ?thesis by (simp add: show_nat_inj)
qed

lemma string_bytes_append: "string_bytes (s @ t) = string_bytes s @ string_bytes t"
  by (simp add: string_bytes_def)

lemma bytes_string_append: "bytes_string (s @ t) = bytes_string s @ bytes_string t"
  by (simp add: bytes_string_def)

lemma signable_inj: "signable ts v = signable ts' v' \<longleftrightarrow> ts = ts' \<and> v = v'"
proof
  assume "signable ts v = signable ts' v'"
  then have "bytes_string (signable ts v) = bytes_string (signable ts' v')" by simp
  then have "show_nat (unat ts) @ CHR ''e'' # ''1:v'' @ show_nat (length v) @ '':'' @ bytes_string v =
      show_nat (unat ts') @ CHR ''e'' # ''1:v'' @ show_nat (length v') @ '':'' @ bytes_string v'"
    by (simp add: signable_def bytes_string_append)
  then have ts: "unat ts = unat ts'" and "show_nat (length v) @ CHR '':'' # bytes_string v = show_nat (length v') @ CHR '':'' # bytes_string v'"
    by (auto dest!: show_nat_prefix simp: digit10_def of_char_def)
  then have "bytes_string v = bytes_string v'" by (auto dest!: show_nat_prefix)
  then have "v = v'" using string_bytes_string by metis
  then show "ts = ts' \<and> v = v'" using ts by (simp add: word_unat_eq_iff)
qed simp

lemma packet_parts:
  assumes "length k = 32" "length sig = 64"
  shows "take 32 (k @ sig @ u64_to_be ts @ v) = k" "packet_signature (k @ sig @ u64_to_be ts @ v) = sig"
    "packet_timestamp (k @ sig @ u64_to_be ts @ v) = ts" "encoded_packet (k @ sig @ u64_to_be ts @ v) = v"
    "to_relay_payload (k @ sig @ u64_to_be ts @ v) = sig @ u64_to_be ts @ v"
  using assms
  by (simp_all add: packet_signature_def packet_timestamp_def encoded_packet_def to_relay_payload_def)

lemma packet_assemble:
  assumes "HEADER_SIZE \<le> length p"
  shows "p = take 32 p @ packet_signature p @ u64_to_be (packet_timestamp p) @ encoded_packet p"
proof -
  have "length (take 8 (drop 96 p)) = 8" using assms by (simp add: HEADER_SIZE_def)
  then have "u64_to_be (packet_timestamp p) = take 8 (drop 96 p)" by (simp add: packet_timestamp_def u64_to_of_be)
  moreover have "take 8 (drop 96 p) @ drop 104 p = drop 96 p"
    using append_take_drop_id [of 8 "drop 96 p"] by simp
  moreover have "take 64 (drop 32 p) @ drop 96 p = drop 32 p"
    using append_take_drop_id [of 64 "drop 32 p"] by simp
  ultimately show ?thesis
    by (simp add: packet_signature_def encoded_packet_def)
qed

lemma packet_from_bytes_InrD:
  assumes "ed25519_ok C" "packet_from_bytes C D b = Some (Inr p)"
  shows "p = b" "HEADER_SIZE \<le> length p" "length p \<le> MAX_SIGNED_PACKET_SIZE" "key_valid C (take 32 p)"
    "packet_public_key C p = Some (take 32 p)"
    "vk_verify_strict C (take 32 p) (signable (packet_timestamp p) (encoded_packet p)) (packet_signature p)"
    "dns_parse D (encoded_packet p) \<noteq> None"
proof -
  show p: "p = b" and "HEADER_SIZE \<le> length p" "length p \<le> MAX_SIGNED_PACKET_SIZE"
    using assms(2) by (auto simp: packet_from_bytes_def Let_def split: if_splits sum.splits option.splits bool.splits)
  obtain k where k: "public_key_try_from C (take 32 p) = Inr k"
    "public_key_verify C k (signable (packet_timestamp p) (encoded_packet p)) (packet_signature p) = Some True"
    and d: "dns_parse D (encoded_packet p) \<noteq> None"
    using assms(2) p unfolding packet_from_bytes_def packet_timestamp_def packet_signature_def encoded_packet_def Let_def
    by (auto split: if_splits sum.splits option.splits bool.splits)
  have kv: "k = take 32 p" "key_valid C k" using public_key_try_from_InrD [OF assms(1) k(1)] by blast+
  show "key_valid C (take 32 p)" using kv(2) unfolding kv(1) .
  show "packet_public_key C p = Some (take 32 p)" using k(1) unfolding packet_public_key_def kv(1) by simp
  show "vk_verify_strict C (take 32 p) (signable (packet_timestamp p) (encoded_packet p)) (packet_signature p)"
    using k(2) kv by (simp add: public_key_verify_def key_valid_def)
  show "dns_parse D (encoded_packet p) \<noteq> None" by (rule d)
qed

lemma packet_from_bytes_total:
  assumes "ed25519_ok C"
  shows "packet_from_bytes C D b \<noteq> None"
proof (cases "public_key_try_from C (take 32 b)")
  case (Inr k)
  have "vk_from_bytes C k = Some k" using public_key_try_from_InrD [OF assms Inr] unfolding key_valid_def by blast
  then show ?thesis unfolding packet_from_bytes_def Let_def Inr public_key_verify_def by (simp split: bool.splits)
qed (simp add: packet_from_bytes_def)

lemma packet_from_bytes_accepts:
  assumes "key_valid C (take 32 p)" "HEADER_SIZE \<le> length p" "length p \<le> MAX_SIGNED_PACKET_SIZE"
    "vk_verify_strict C (take 32 p) (signable (packet_timestamp p) (encoded_packet p)) (packet_signature p)"
    "dns_parse D (encoded_packet p) \<noteq> None"
  shows "packet_from_bytes C D p = Some (Inr p)"
  using assms public_key_try_from_valid [OF assms(1)]
  by (auto simp: packet_from_bytes_def packet_timestamp_def packet_signature_def encoded_packet_def
      public_key_verify_def key_valid_def Let_def)

lemma txt_answers_records:
  assumes "txt_answers D n ttl vs = Inr rs" "dns_lib_ok D"
  shows "List.map_filter (txt_record_value D zone n name) rs = vs"
  using assms(1)
proof (induction vs arbitrary: rs)
  case (Cons v vs)
  then obtain t rs' where "txt_add_string D v = Some t" "txt_answers D n ttl vs = Inr rs'"
    "rs = \<lparr>rr_name = n, rr_ttl = ttl, rr_rdata = RD_TXT t\<rparr> # rs'"
    by auto
  then show ?case
    using Cons.IH assms(2) by (simp add: List.map_filter_simps txt_record_value_def dns_lib_ok_def)
qed (simp add: List.map_filter_simps)

lemma from_txt_strings_InrE:
  assumes "from_txt_strings C T D now sk name values ttl = Inr p"
  obtains rs v where
    "txt_answers D (normalize_name (public_key_to_z32 T (secret_key_public C sk)) name) ttl values = Inr rs"
    "dns_build D rs = Some v" "length v \<le> MAX_DNS_PACKET_SIZE"
    "p = secret_key_public C sk @ secret_key_sign C sk (signable now v) @ u64_to_be now @ v"
  using assms by (auto simp: from_txt_strings_def encode_txt_strings_def Let_def split: if_splits)

lemma secret_key_lengths:
  assumes "ed25519_ok C" "length sk = 32"
  shows "length (secret_key_public C sk) = 32" "length (secret_key_sign C sk m) = 64"
    "vk_verify_strict C (secret_key_public C sk) m (secret_key_sign C sk m)"
proof -
  show "length (secret_key_public C sk) = 32"
    using secret_key_public_valid [OF assms] by (simp add: key_valid_def PUBLIC_KEY_LENGTH_def)
  show "length (secret_key_sign C sk m) = 64" "vk_verify_strict C (secret_key_public C sk) m (secret_key_sign C sk m)"
    using assms unfolding ed25519_ok_def secret_key_public_def secret_key_sign_def by blast+
qed

lemma from_txt_strings_verifies:
  assumes C: "ed25519_ok C" and D: "dns_lib_ok D" and sk: "length sk = 32"
    and p: "from_txt_strings C T D now sk name values ttl = Inr p"
  shows "packet_from_bytes C D p = Some (Inr p)" "packet_public_key C p = Some (secret_key_public C sk)"
    "packet_timestamp p = now" "length p \<le> MAX_SIGNED_PACKET_SIZE"
    "name_new_ok D (public_key_to_z32 T (secret_key_public C sk)) \<Longrightarrow> txt_records C T D name p = Some values"
proof -
  define pk where "pk = secret_key_public C sk"
  obtain rs v where v: "txt_answers D (normalize_name (public_key_to_z32 T pk) name) ttl values = Inr rs"
    "dns_build D rs = Some v" "length v \<le> MAX_DNS_PACKET_SIZE"
    "p = pk @ secret_key_sign C sk (signable now v) @ u64_to_be now @ v"
    using p unfolding pk_def by (rule from_txt_strings_InrE)
  note len = secret_key_lengths [OF C sk, folded pk_def]
  note parts = packet_parts [OF len(1,2), of "signable now v" now v, folded v(4)]
  have pk: "key_valid C pk" unfolding pk_def using C sk by (rule secret_key_public_valid)
  have parse: "dns_parse D v = Some rs" using D v(2) unfolding dns_lib_ok_def by blast
  show "length p \<le> MAX_SIGNED_PACKET_SIZE"
    using v(3,4) len by (simp add: MAX_SIGNED_PACKET_SIZE_def HEADER_SIZE_def)
  moreover have "HEADER_SIZE \<le> length p" using v(4) len by (simp add: HEADER_SIZE_def)
  ultimately show "packet_from_bytes C D p = Some (Inr p)"
    using pk len parse by (intro packet_from_bytes_accepts) (simp_all add: parts)
  show key: "packet_public_key C p = Some (secret_key_public C sk)"
    using pk by (simp add: packet_public_key_def parts pk_def)
  show "packet_timestamp p = now" by (rule parts)
  show "txt_records C T D name p = Some values" if "name_new_ok D (public_key_to_z32 T (secret_key_public C sk))"
    using that txt_answers_records [OF v(1) D] key parse by (simp add: txt_records_def parts pk_def Let_def)
qed

lemma from_txt_strings_Inl_iff:
  "from_txt_strings C T D now sk name values ttl = Inl e \<longleftrightarrow> encode_txt_strings C T D sk name values ttl = Inl e"
  by (cases "encode_txt_strings C T D sk name values ttl") (simp_all add: from_txt_strings_def)

text \<open>Recency is the lexicographic order of the timestamp and the DNS packet.\<close>

lemma more_recent_iff:
  "more_recent_than p q \<longleftrightarrow> packet_timestamp q < packet_timestamp p \<or>
     packet_timestamp q = packet_timestamp p \<and> encoded_packet q < encoded_packet p"
  by (auto simp: more_recent_than_def)

lemma more_recent_order:
  "\<not> more_recent_than p p"
  "more_recent_than p q \<Longrightarrow> more_recent_than q r \<Longrightarrow> more_recent_than p r"
  "more_recent_than p q \<Longrightarrow> \<not> more_recent_than q p"
  "\<not> more_recent_than p q \<Longrightarrow> \<not> more_recent_than q p \<Longrightarrow>
     packet_timestamp p = packet_timestamp q \<and> encoded_packet p = encoded_packet q"
  by (auto simp: more_recent_iff not_less)

end
