(* ===== verification/Endpoint_Info.thy ===== *)
theory Endpoint_Info
  imports Signed_Packet
begin

text \<open>
  What an endpoint publishes about itself: the TXT attributes of \<open>iroh-dns/src/attrs.rs\<close> and the
  endpoint data, address filters and endpoint info of \<open>iroh-dns/src/endpoint_info.rs\<close>. A \<open>BTreeMap\<close>
  is the association list sorted by its keys. Parsing URLs is a parameter, as for relay URLs. Lemmas:
  the set operations keep addresses free of duplicates, and publishing and resolving an endpoint
  info keeps its addresses, relays first, while a value is cut at its first equals sign.
\<close>

section \<open>TXT attributes\<close>

definition IROH_TXT_NAME :: string where "IROH_TXT_NAME = ''_iroh''"

datatype parse_error =
  UnexpectedFormat string
| AttrFromString string
| NumLabels nat
| NotAnIrohRecord string
| DecodingError key_parsing_error

definition endpoint_id_from_txt_name ::
  "ed25519 \<Rightarrow> text_encodings \<Rightarrow> string \<Rightarrow> parse_error + endpoint_id" where
  "endpoint_id_from_txt_name C T name =
     (let labels = split_char (CHR ''.'') name in
      if length labels < 2 then Inl (NumLabels (length labels))
      else if labels ! 0 \<noteq> IROH_TXT_NAME then Inl (NotAnIrohRecord (labels ! 0))
      else map_err DecodingError (public_key_from_z32 C T (labels ! 1)))"

datatype iroh_attr = Attr_Relay | Attr_Addr | Attr_UserData

fun attr_display :: "iroh_attr \<Rightarrow> string" where
  "attr_display Attr_Relay = ''relay''"
| "attr_display Attr_Addr = ''addr''"
| "attr_display Attr_UserData = ''user-data''"

definition attr_from_str :: "string \<Rightarrow> iroh_attr option" where
  "attr_from_str s =
     (if s = ''relay'' then Some Attr_Relay else if s = ''addr'' then Some Attr_Addr
      else if s = ''user-data'' then Some Attr_UserData else None)"

fun attr_rank :: "iroh_attr \<Rightarrow> nat" where
  "attr_rank Attr_Relay = 0"
| "attr_rank Attr_Addr = 1"
| "attr_rank Attr_UserData = 2"

lemma attr_rank_inj: "attr_rank a = attr_rank b \<Longrightarrow> a = b"
  by (cases a; cases b) auto

instantiation iroh_attr :: linorder
begin

definition less_eq_iroh_attr :: "iroh_attr \<Rightarrow> iroh_attr \<Rightarrow> bool" where
  "less_eq_iroh_attr a b \<longleftrightarrow> attr_rank a \<le> attr_rank b"

definition less_iroh_attr :: "iroh_attr \<Rightarrow> iroh_attr \<Rightarrow> bool" where
  "less_iroh_attr a b \<longleftrightarrow> attr_rank a < attr_rank b"

instance
  by standard (auto simp: less_eq_iroh_attr_def less_iroh_attr_def intro: attr_rank_inj)

end

type_synonym attr_map = "(iroh_attr \<times> string list) list"

record txt_attrs =
  ta_endpoint_id :: endpoint_id
  ta_attrs :: attr_map

text \<open>\<open>attrs.entry(k).or_default().push(v)\<close>\<close>

fun attr_push :: "iroh_attr \<Rightarrow> string \<Rightarrow> attr_map \<Rightarrow> attr_map" where
  "attr_push k v [] = [(k, [v])]"
| "attr_push k v ((l, vs) # m) =
     (if k = l then (l, vs @ [v]) # m
      else if k < l then (k, [v]) # (l, vs) # m
      else (l, vs) # attr_push k v m)"

definition attrs_from_parts :: "endpoint_id \<Rightarrow> (iroh_attr \<times> string) list \<Rightarrow> txt_attrs" where
  "attrs_from_parts i pairs = \<lparr>ta_endpoint_id = i, ta_attrs = fold (\<lambda>(k, v). attr_push k v) pairs []\<rparr>"

text \<open>A string must have a second piece after splitting at the equals signs; further pieces are ignored.\<close>

definition attr_of_string :: "string \<Rightarrow> parse_error + iroh_attr \<times> string" where
  "attr_of_string s =
     (case split_char (CHR ''='') s of
        key # value # _ \<Rightarrow>
          (case attr_from_str key of
             None \<Rightarrow> Inl (AttrFromString key)
           | Some attr \<Rightarrow> Inr (attr, value))
      | _ \<Rightarrow> Inl (UnexpectedFormat s))"

fun attrs_of_strings :: "attr_map \<Rightarrow> string list \<Rightarrow> parse_error + attr_map" where
  "attrs_of_strings m [] = Inr m"
| "attrs_of_strings m (s # ss) = and_then (attr_of_string s) (\<lambda>(k, v). attrs_of_strings (attr_push k v m) ss)"

definition attrs_from_strings :: "endpoint_id \<Rightarrow> string list \<Rightarrow> parse_error + txt_attrs" where
  "attrs_from_strings i strings =
     and_then (attrs_of_strings [] strings) (\<lambda>m. Inr \<lparr>ta_endpoint_id = i, ta_attrs = m\<rparr>)"

definition attrs_from_txt_lookup ::
  "ed25519 \<Rightarrow> text_encodings \<Rightarrow> string \<Rightarrow> string list \<Rightarrow> parse_error + txt_attrs" where
  "attrs_from_txt_lookup C T name lookup =
     and_then (endpoint_id_from_txt_name C T name) (\<lambda>i. attrs_from_strings i lookup)"

text \<open>The outer \<open>None\<close> is the panic of \<open>public_key\<close> on a packet without a valid key.\<close>

definition attrs_from_pkarr_signed_packet ::
  "ed25519 \<Rightarrow> text_encodings \<Rightarrow> dns_lib \<Rightarrow> signed_packet \<Rightarrow> (parse_error + txt_attrs) option" where
  "attrs_from_pkarr_signed_packet C T D p =
     Option.bind (packet_public_key C p) (\<lambda>i.
     map_option (attrs_from_strings i) (txt_records C T D IROH_TXT_NAME p))"

definition attrs_to_txt_strings :: "txt_attrs \<Rightarrow> string list" where
  "attrs_to_txt_strings a = concat (map (\<lambda>(k, vs). map (\<lambda>v. attr_display k @ ''='' @ v) vs) (ta_attrs a))"

definition attrs_to_pkarr_signed_packet ::
  "ed25519 \<Rightarrow> text_encodings \<Rightarrow> dns_lib \<Rightarrow> timestamp \<Rightarrow> secret_key \<Rightarrow> u32 \<Rightarrow> txt_attrs \<Rightarrow> build_error + signed_packet" where
  "attrs_to_pkarr_signed_packet C T D now sk ttl a =
     from_txt_strings C T D now sk IROH_TXT_NAME (attrs_to_txt_strings a) ttl"

definition attrs_get :: "iroh_attr \<Rightarrow> txt_attrs \<Rightarrow> string list" where
  "attrs_get k a = (case map_of (ta_attrs a) k of Some vs \<Rightarrow> vs | None \<Rightarrow> [])"

section \<open>Endpoint data\<close>

type_synonym user_data = string

definition USER_DATA_MAX_LENGTH :: nat where "USER_DATA_MAX_LENGTH = 245"

definition user_data_from_str :: "string \<Rightarrow> unit + user_data" where
  "user_data_from_str s = (if length s \<le> USER_DATA_MAX_LENGTH then Inr s else Inl ())"

record endpoint_data =
  ed_addrs :: "transport_addr list"
  ed_user_data :: "user_data option"

text \<open>\<open>dedup\<close>: keeps the first occurrence of every item, and returns the set of items seen.\<close>

fun dedup_loop :: "'a set \<Rightarrow> 'a list \<Rightarrow> 'a list \<times> 'a set" where
  "dedup_loop seen [] = ([], seen)"
| "dedup_loop seen (x # xs) =
     (if x \<in> seen then dedup_loop seen xs
      else (case dedup_loop (insert x seen) xs of (ys, seen') \<Rightarrow> (x # ys, seen')))"

definition dedup :: "'a list \<Rightarrow> 'a list \<times> 'a set" where
  "dedup items = dedup_loop {} items"

definition data_default :: endpoint_data where
  "data_default = \<lparr>ed_addrs = [], ed_user_data = None\<rparr>"

definition data_new :: "transport_addr list \<Rightarrow> endpoint_data" where
  "data_new addrs = \<lparr>ed_addrs = fst (dedup addrs), ed_user_data = None\<rparr>"

definition data_set_user_data :: "user_data option \<Rightarrow> endpoint_data \<Rightarrow> endpoint_data" where
  "data_set_user_data u d = d\<lparr>ed_user_data := u\<rparr>"

definition data_with_user_data :: "user_data \<Rightarrow> endpoint_data \<Rightarrow> endpoint_data" where
  "data_with_user_data u d = d\<lparr>ed_user_data := Some u\<rparr>"

definition data_add_relay_url :: "relay_url \<Rightarrow> endpoint_data \<Rightarrow> endpoint_data" where
  "data_add_relay_url u d =
     (if TA_Relay u \<in> set (ed_addrs d) then d else d\<lparr>ed_addrs := ed_addrs d @ [TA_Relay u]\<rparr>)"

fun add_loop :: "'a list \<times> 'a set \<Rightarrow> 'a list \<Rightarrow> 'a list" where
  "add_loop (acc, seen) [] = acc"
| "add_loop (acc, seen) (x # xs) =
     (if x \<in> seen then add_loop (acc, seen) xs else add_loop (acc @ [x], insert x seen) xs)"

definition data_add_addrs :: "transport_addr list \<Rightarrow> endpoint_data \<Rightarrow> endpoint_data" where
  "data_add_addrs addrs d = d\<lparr>ed_addrs := add_loop (dedup (ed_addrs d)) addrs\<rparr>"

definition data_add_ip_addrs :: "socket_addr list \<Rightarrow> endpoint_data \<Rightarrow> endpoint_data" where
  "data_add_ip_addrs addrs d = data_add_addrs (map TA_Ip addrs) d"

definition data_clear_ip_addrs :: "endpoint_data \<Rightarrow> endpoint_data" where
  "data_clear_ip_addrs d = d\<lparr>ed_addrs := filter (\<lambda>a. \<not> transport_is_ip a) (ed_addrs d)\<rparr>"

definition data_clear_relay_urls :: "endpoint_data \<Rightarrow> endpoint_data" where
  "data_clear_relay_urls d = d\<lparr>ed_addrs := filter (\<lambda>a. \<not> transport_is_relay a) (ed_addrs d)\<rparr>"

definition data_relay_urls :: "endpoint_data \<Rightarrow> relay_url list" where
  "data_relay_urls d = List.map_filter (\<lambda>a. case a of TA_Relay u \<Rightarrow> Some u | _ \<Rightarrow> None) (ed_addrs d)"

definition data_ip_addrs :: "endpoint_data \<Rightarrow> socket_addr list" where
  "data_ip_addrs d = List.map_filter (\<lambda>a. case a of TA_Ip s \<Rightarrow> Some s | _ \<Rightarrow> None) (ed_addrs d)"

definition data_has_addrs :: "endpoint_data \<Rightarrow> bool" where
  "data_has_addrs d \<longleftrightarrow> ed_addrs d \<noteq> []"

definition data_of_endpoint_addr :: "endpoint_addr \<Rightarrow> endpoint_data" where
  "data_of_endpoint_addr ea = \<lparr>ed_addrs = ea_addrs ea, ed_user_data = None\<rparr>"

section \<open>Address filters\<close>

datatype 'a cow = Borrowed 'a | Owned 'a

fun cow_value :: "'a cow \<Rightarrow> 'a" where
  "cow_value (Borrowed x) = x"
| "cow_value (Owned x) = x"

type_synonym addr_filter = "(transport_addr list \<Rightarrow> transport_addr list cow) option"

definition filter_unfiltered :: addr_filter where
  "filter_unfiltered = Some Borrowed"

definition filter_relay_only :: addr_filter where
  "filter_relay_only = Some (\<lambda>addrs. Owned (filter transport_is_relay addrs))"

definition filter_ip_only :: addr_filter where
  "filter_ip_only = Some (\<lambda>addrs. Owned (filter (\<lambda>a. \<not> transport_is_relay a) addrs))"

definition filter_apply :: "addr_filter \<Rightarrow> transport_addr list \<Rightarrow> transport_addr list cow" where
  "filter_apply f addrs = (case f of Some g \<Rightarrow> g addrs | None \<Rightarrow> Borrowed addrs)"

definition data_apply_filter :: "addr_filter \<Rightarrow> endpoint_data \<Rightarrow> endpoint_data cow" where
  "data_apply_filter f d =
     (case filter_apply f (ed_addrs d) of
        Borrowed _ \<Rightarrow> Borrowed d
      | Owned addrs \<Rightarrow> Owned (data_set_user_data (ed_user_data d) (data_new addrs)))"

section \<open>Endpoint info\<close>

record endpoint_info =
  ei_endpoint_id :: endpoint_id
  ei_data :: endpoint_data

definition info_from_parts :: "endpoint_id \<Rightarrow> endpoint_data \<Rightarrow> endpoint_info" where
  "info_from_parts i d = \<lparr>ei_endpoint_id = i, ei_data = d\<rparr>"

definition info_with_relay_url :: "relay_url \<Rightarrow> endpoint_info \<Rightarrow> endpoint_info" where
  "info_with_relay_url u info = info\<lparr>ei_data := data_add_relay_url u (ei_data info)\<rparr>"

definition info_with_ip_addrs :: "socket_addr list \<Rightarrow> endpoint_info \<Rightarrow> endpoint_info" where
  "info_with_ip_addrs addrs info = info\<lparr>ei_data := data_add_ip_addrs addrs (ei_data info)\<rparr>"

definition info_with_user_data :: "user_data option \<Rightarrow> endpoint_info \<Rightarrow> endpoint_info" where
  "info_with_user_data u info = info\<lparr>ei_data := data_set_user_data u (ei_data info)\<rparr>"

definition info_of_endpoint_addr :: "endpoint_addr \<Rightarrow> endpoint_info" where
  "info_of_endpoint_addr ea = \<lparr>ei_endpoint_id = ea_id ea, ei_data = data_of_endpoint_addr ea\<rparr>"

definition info_to_endpoint_addr :: "endpoint_info \<Rightarrow> endpoint_addr" where
  "info_to_endpoint_addr info = endpoint_addr_from_parts (ei_endpoint_id info) (ed_addrs (ei_data info))"

text \<open>The attribute of an address; \<open>None\<close> is the panic of formatting a malformed custom address.\<close>

fun addr_attr :: "text_encodings \<Rightarrow> transport_addr \<Rightarrow> (iroh_attr \<times> string) option" where
  "addr_attr T (TA_Relay url) = Some (Attr_Relay, url)"
| "addr_attr T (TA_Ip a) = Some (Attr_Addr, socket_addr_display a)"
| "addr_attr T (TA_Custom a) = map_option (Pair Attr_Addr) (custom_display T a)"

definition endpoint_info_to_attrs :: "text_encodings \<Rightarrow> endpoint_info \<Rightarrow> txt_attrs option" where
  "endpoint_info_to_attrs T info =
     map_option (\<lambda>pairs. attrs_from_parts (ei_endpoint_id info)
         (pairs @ (case ed_user_data (ei_data info) of Some u \<Rightarrow> [(Attr_UserData, u)] | None \<Rightarrow> [])))
       (those (map (addr_attr T) (ed_addrs (ei_data info))))"

definition addr_of_attr :: "text_encodings \<Rightarrow> string \<Rightarrow> transport_addr option" where
  "addr_of_attr T s =
     (case socket_addr_from_str s of
        Some a \<Rightarrow> Some (TA_Ip a)
      | None \<Rightarrow> (case custom_from_str T s of Inr a \<Rightarrow> Some (TA_Custom a) | Inl _ \<Rightarrow> None))"

definition endpoint_info_from_attrs ::
  "(string \<Rightarrow> string option) \<Rightarrow> text_encodings \<Rightarrow> txt_attrs \<Rightarrow> endpoint_info" where
  "endpoint_info_from_attrs url_parse T attrs =
     (let relay_urls = List.map_filter (\<lambda>s. map_option TA_Relay (url_parse s)) (attrs_get Attr_Relay attrs);
          addrs = List.map_filter (addr_of_attr T) (attrs_get Attr_Addr attrs);
          user_data = (case attrs_get Attr_UserData attrs of
                         [] \<Rightarrow> None
                       | s # _ \<Rightarrow> (case user_data_from_str s of Inr u \<Rightarrow> Some u | Inl _ \<Rightarrow> None))
      in \<lparr>ei_endpoint_id = ta_endpoint_id attrs,
          ei_data = data_add_addrs (relay_urls @ addrs) (data_set_user_data user_data data_default)\<rparr>)"

definition info_from_txt_lookup ::
  "(string \<Rightarrow> string option) \<Rightarrow> ed25519 \<Rightarrow> text_encodings \<Rightarrow> string \<Rightarrow> string list \<Rightarrow> parse_error + endpoint_info" where
  "info_from_txt_lookup url_parse C T name lookup =
     and_then (attrs_from_txt_lookup C T name lookup) (\<lambda>a. Inr (endpoint_info_from_attrs url_parse T a))"

definition info_from_pkarr_signed_packet ::
  "(string \<Rightarrow> string option) \<Rightarrow> ed25519 \<Rightarrow> text_encodings \<Rightarrow> dns_lib \<Rightarrow> signed_packet \<Rightarrow>
   (parse_error + endpoint_info) option" where
  "info_from_pkarr_signed_packet url_parse C T D p =
     map_option (\<lambda>r. and_then r (\<lambda>a. Inr (endpoint_info_from_attrs url_parse T a)))
       (attrs_from_pkarr_signed_packet C T D p)"

definition info_to_pkarr_signed_packet ::
  "ed25519 \<Rightarrow> text_encodings \<Rightarrow> dns_lib \<Rightarrow> timestamp \<Rightarrow> secret_key \<Rightarrow> u32 \<Rightarrow> endpoint_info \<Rightarrow>
   (build_error + signed_packet) option" where
  "info_to_pkarr_signed_packet C T D now sk ttl info =
     map_option (attrs_to_pkarr_signed_packet C T D now sk ttl) (endpoint_info_to_attrs T info)"

definition info_to_txt_strings :: "text_encodings \<Rightarrow> endpoint_info \<Rightarrow> string list option" where
  "info_to_txt_strings T info = map_option attrs_to_txt_strings (endpoint_info_to_attrs T info)"

section \<open>Address lists without duplicates\<close>

lemma dedup_loop_result:
  "dedup_loop seen xs = (ys, seen') \<Longrightarrow>
   distinct ys \<and> set ys = set xs - seen \<and> seen' = seen \<union> set xs"
proof (induction xs arbitrary: seen ys seen')
  case (Cons x xs)
  show ?case
  proof (cases "x \<in> seen")
    case True
    then show ?thesis using Cons.IH [of seen] Cons.prems by auto
  next
    case False
    then obtain zs where "dedup_loop (insert x seen) xs = (zs, seen')" "ys = x # zs"
      using Cons.prems by (auto split: prod.splits)
    then show ?thesis using Cons.IH [of "insert x seen" zs seen'] False by auto
  qed
qed simp

lemma dedup_result: "distinct (fst (dedup xs))" "set (fst (dedup xs)) = set xs" "snd (dedup xs) = set xs"
  using dedup_loop_result [of "{}" xs] by (cases "dedup_loop {} xs"; simp add: dedup_def)+

lemma dedup_loop_distinct: "distinct xs \<Longrightarrow> set xs \<inter> seen = {} \<Longrightarrow> fst (dedup_loop seen xs) = xs"
proof (induction xs arbitrary: seen)
  case (Cons x xs)
  then have "fst (dedup_loop (insert x seen) xs) = xs" by auto
  then show ?case using Cons.prems by (simp add: case_prod_beta)
qed simp

lemma dedup_distinct [simp]: "distinct xs \<Longrightarrow> dedup xs = (xs, set xs)"
  using dedup_loop_distinct [of xs "{}"] dedup_result(3) [of xs] by (simp add: dedup_def prod_eq_iff)

lemma add_loop_result:
  "distinct acc \<Longrightarrow>
   distinct (add_loop (acc, set acc) xs) \<and> set (add_loop (acc, set acc) xs) = set acc \<union> set xs"
proof (induction xs arbitrary: acc)
  case (Cons x xs)
  then show ?case using Cons.IH [of "acc @ [x]"] by (auto simp: insert_absorb)
qed simp

lemma add_loop_distinct:
  "distinct (acc @ xs) \<Longrightarrow> add_loop (acc, set acc) xs = acc @ xs"
proof (induction xs arbitrary: acc)
  case (Cons x xs)
  then show ?case using Cons.IH [of "acc @ [x]"] by simp
qed simp

definition data_inv :: "endpoint_data \<Rightarrow> bool" where
  "data_inv d \<longleftrightarrow> distinct (ed_addrs d) \<and>
     (case ed_user_data d of Some u \<Rightarrow> length u \<le> USER_DATA_MAX_LENGTH | None \<Rightarrow> True)"

lemma data_add_addrs_addrs:
  "distinct (ed_addrs (data_add_addrs addrs d)) \<and>
   set (ed_addrs (data_add_addrs addrs d)) = set (ed_addrs d) \<union> set addrs"
  using add_loop_result [of "fst (dedup (ed_addrs d))" addrs] dedup_result [of "ed_addrs d"]
  by (cases "dedup (ed_addrs d)") (simp add: data_add_addrs_def)

lemma data_ops_addrs:
  "set (ed_addrs (data_new addrs)) = set addrs"
  "set (ed_addrs (data_add_addrs addrs d)) = set (ed_addrs d) \<union> set addrs"
  "set (ed_addrs (data_add_ip_addrs ips d)) = set (ed_addrs d) \<union> TA_Ip ` set ips"
  "set (ed_addrs (data_add_relay_url u d)) = insert (TA_Relay u) (set (ed_addrs d))"
  "set (ed_addrs (data_clear_ip_addrs d)) = {a \<in> set (ed_addrs d). \<not> transport_is_ip a}"
  "set (ed_addrs (data_clear_relay_urls d)) = {a \<in> set (ed_addrs d). \<not> transport_is_relay a}"
  "set (ed_addrs (cow_value (data_apply_filter f d))) =
     (case filter_apply f (ed_addrs d) of Borrowed _ \<Rightarrow> set (ed_addrs d) | Owned as \<Rightarrow> set as)"
  by (auto simp: data_new_def dedup_result data_add_addrs_addrs data_add_ip_addrs_def data_add_relay_url_def
      data_clear_ip_addrs_def data_clear_relay_urls_def data_apply_filter_def data_set_user_data_def split: cow.splits)

lemma data_ops_inv:
  "data_inv (data_new addrs)"
  "data_inv d \<Longrightarrow> data_inv (data_add_addrs addrs d)"
  "data_inv d \<Longrightarrow> data_inv (data_add_ip_addrs ips d)"
  "data_inv d \<Longrightarrow> data_inv (data_add_relay_url u d)"
  "data_inv d \<Longrightarrow> data_inv (data_clear_ip_addrs d)"
  "data_inv d \<Longrightarrow> data_inv (data_clear_relay_urls d)"
  "data_inv d \<Longrightarrow> data_inv (cow_value (data_apply_filter f d))"
proof -
  show "data_inv (data_new addrs)" by (simp add: data_inv_def data_new_def dedup_result)
  show add: "data_inv d \<Longrightarrow> data_inv (data_add_addrs addrs d)" for addrs
    using data_add_addrs_addrs [of addrs d] by (simp add: data_inv_def data_add_addrs_def)
  then show "data_inv d \<Longrightarrow> data_inv (data_add_ip_addrs ips d)" by (simp add: data_add_ip_addrs_def)
qed (auto simp: data_inv_def data_add_relay_url_def data_clear_ip_addrs_def data_clear_relay_urls_def
      data_apply_filter_def data_set_user_data_def data_new_def dedup_result split: cow.splits)

lemma endpoint_addr_info_roundtrip:
  assumes "btree_ok (ea_addrs ea)"
  shows "info_to_endpoint_addr (info_of_endpoint_addr ea) = ea"
proof -
  have "fold btree_insert (ea_addrs ea) [] = ea_addrs ea"
    by (rule btree_eqI) (auto simp: assms btree_ok_def [of "[]"] intro: btree_fold_ok)
  then show ?thesis
    by (simp add: info_to_endpoint_addr_def info_of_endpoint_addr_def endpoint_addr_from_parts_def data_of_endpoint_addr_def)
qed

section \<open>Attributes through text\<close>

definition attr_values :: "iroh_attr \<Rightarrow> attr_map \<Rightarrow> string list" where
  "attr_values k m = (case map_of m k of Some vs \<Rightarrow> vs | None \<Rightarrow> [])"

definition attrs_sorted :: "attr_map \<Rightarrow> bool" where
  "attrs_sorted m \<longleftrightarrow> sorted_wrt (<) (map fst m)"

definition attr_pairs :: "attr_map \<Rightarrow> (iroh_attr \<times> string) list" where
  "attr_pairs m = concat (map (\<lambda>(k, vs). map (Pair k) vs) m)"

lemma attr_push_keys: "fst ` set (attr_push k v m) = insert k (fst ` set m)"
  by (induction k v m rule: attr_push.induct) auto

lemma attr_push_sorted: "attrs_sorted m \<Longrightarrow> attrs_sorted (attr_push k v m)"
proof (induction k v m rule: attr_push.induct)
  case (2 k v l vs m)
  show ?case
  proof (cases "k = l \<or> k < l")
    case True
    then show ?thesis using 2 by (auto simp: attrs_sorted_def)
  next
    case False
    then have "attrs_sorted (attr_push k v m)" using 2 by (auto simp: attrs_sorted_def)
    moreover have "\<forall>x \<in> fst ` set (attr_push k v m). l < x"
      using False 2(2) unfolding attr_push_keys by (auto simp: attrs_sorted_def)
    ultimately show ?thesis using False by (auto simp: attrs_sorted_def)
  qed
qed (simp add: attrs_sorted_def)

lemma attr_values_push:
  "attrs_sorted m \<Longrightarrow> attr_values l (attr_push k v m) = attr_values l m @ (if l = k then [v] else [])"
proof (induction k v m rule: attr_push.induct)
  case (2 k v l' vs m)
  have "k < l' \<Longrightarrow> map_of m k = None"
    using 2(2) by (auto simp: attrs_sorted_def map_of_eq_None_iff)
  then show ?case using 2 by (auto simp: attr_values_def attrs_sorted_def)
qed (simp add: attr_values_def)

lemma attr_fold_values:
  "attrs_sorted m \<Longrightarrow> attrs_sorted (fold (\<lambda>(k, v). attr_push k v) pairs m) \<and>
   attr_values l (fold (\<lambda>(k, v). attr_push k v) pairs m) = attr_values l m @ map snd (filter (\<lambda>p. fst p = l) pairs)"
proof (induction pairs arbitrary: m)
  case (Cons p pairs)
  then show ?case
    using attr_push_sorted [of m "fst p" "snd p"] attr_values_push [of m l "fst p" "snd p"]
    by (auto simp: case_prod_beta)
qed simp

lemma attr_pairs_values:
  "attrs_sorted m \<Longrightarrow> map snd (filter (\<lambda>p. fst p = l) (attr_pairs m)) = attr_values l m"
proof (induction m)
  case (Cons e m)
  obtain k vs where e: "e = (k, vs)" by (cases e)
  have "map_of m k = None" using Cons.prems e by (auto simp: attrs_sorted_def map_of_eq_None_iff)
  then show ?case
    using Cons e by (auto simp: attr_pairs_def attr_values_def attrs_sorted_def filter_map comp_def)
qed (simp add: attr_pairs_def attr_values_def)

text \<open>What is left of a value: the part before its first equals sign.\<close>

definition cut_value :: "string \<Rightarrow> string" where
  "cut_value v = takeWhile (\<lambda>c. c \<noteq> CHR ''='') v"

lemma cut_value_plain [simp]: "CHR ''='' \<notin> set v \<Longrightarrow> cut_value v = v"
  by (auto simp: cut_value_def takeWhile_eq_all_conv)

lemma length_cut_value: "length (cut_value v) \<le> length v"
  by (simp add: cut_value_def length_takeWhile_le)

lemma hd_split_char: "hd (split_char c s) = takeWhile (\<lambda>x. x \<noteq> c) s"
  by (induction s) (auto split: list.splits)

lemma attr_of_string_display: "attr_of_string (attr_display k @ ''='' @ v) = Inr (k, cut_value v)"
proof -
  have "CHR ''='' \<notin> set (attr_display k)" by (cases k) simp_all
  then have "split_char (CHR ''='') (attr_display k @ ''='' @ v) = attr_display k # split_char (CHR ''='') v"
    using split_char_append [of "CHR ''=''" "attr_display k" v] by simp
  moreover obtain ps where "split_char (CHR ''='') v = cut_value v # ps"
    using hd_split_char [of "CHR ''=''" v] split_char_nonempty [of "CHR ''=''" v]
    by (cases "split_char (CHR ''='') v") (simp_all add: cut_value_def)
  moreover have "attr_from_str (attr_display k) = Some k" by (cases k) (simp_all add: attr_from_str_def)
  ultimately show ?thesis by (simp add: attr_of_string_def)
qed

lemma attrs_of_strings_pairs:
  "attrs_of_strings m (map (\<lambda>(k, v). attr_display k @ ''='' @ v) pairs) =
   Inr (fold (\<lambda>(k, v). attr_push k v) (map (\<lambda>(k, v). (k, cut_value v)) pairs) m)"
  by (induction pairs arbitrary: m) (simp_all add: attr_of_string_display [simplified] case_prod_beta)

lemma attrs_to_txt_strings_pairs:
  "attrs_to_txt_strings a = map (\<lambda>(k, v). attr_display k @ ''='' @ v) (attr_pairs (ta_attrs a))"
  unfolding attrs_to_txt_strings_def attr_pairs_def map_concat case_prod_beta by (simp add: comp_def)

lemma attrs_text_roundtrip:
  assumes "attrs_sorted (ta_attrs a)"
  shows "\<exists>b. attrs_from_strings i (attrs_to_txt_strings a) = Inr b \<and> ta_endpoint_id b = i \<and>
    (\<forall>k. attrs_get k b = map cut_value (attrs_get k a))"
proof -
  define m where "m = fold (\<lambda>(k, v). attr_push k v) (map (\<lambda>(k, v). (k, cut_value v)) (attr_pairs (ta_attrs a))) []"
  have "attr_values k m = map cut_value (attr_values k (ta_attrs a))" for k
    using attr_fold_values [of "[]" "map (\<lambda>(k, v). (k, cut_value v)) (attr_pairs (ta_attrs a))" k]
      attr_pairs_values [OF assms, of k, symmetric]
    by (simp add: m_def attrs_sorted_def attr_values_def [of k "[]"] filter_map comp_def case_prod_beta)
  moreover have "attrs_from_strings i (attrs_to_txt_strings a) = Inr \<lparr>ta_endpoint_id = i, ta_attrs = m\<rparr>"
    unfolding attrs_from_strings_def attrs_to_txt_strings_pairs attrs_of_strings_pairs m_def by simp
  ultimately show ?thesis by (simp add: attrs_get_def attr_values_def)
qed

lemma attrs_from_parts_get:
  "attrs_sorted (ta_attrs (attrs_from_parts i pairs))"
  "attrs_get k (attrs_from_parts i pairs) = map snd (filter (\<lambda>p. fst p = k) pairs)"
  using attr_fold_values [of "[]" pairs k]
  by (simp_all add: attrs_from_parts_def attrs_get_def attr_values_def attrs_sorted_def)

section \<open>Publishing and resolving\<close>

fun addr_text_ok :: "(string \<Rightarrow> string option) \<Rightarrow> transport_addr \<Rightarrow> bool" where
  "addr_text_ok url_parse (TA_Relay u) \<longleftrightarrow> url_parse u = Some u \<and> CHR ''='' \<notin> set u"
| "addr_text_ok url_parse (TA_Ip a) \<longleftrightarrow> socket_text_ok a"
| "addr_text_ok url_parse (TA_Custom a) \<longleftrightarrow> custom_ok a"

lemma custom_display_chars:
  assumes "text_encodings_ok T" "custom_display T a = Some s"
  shows "CHR ''_'' \<in> set s" "CHR ''='' \<notin> set s"
proof -
  obtain d where d: "s = show_hex (unat (custom_id a)) @ ''_'' @ hex_encode T d"
    using assms(2) by (auto simp: custom_display_def)
  have "CHR ''='' \<notin> set (hex_encode T d)" using assms(1) unfolding text_encodings_ok_def by fastforce
  moreover have "CHR ''='' \<notin> set (show_hex n)" for n
    using show_hex_chars [of "CHR ''=''" n] by (auto simp: digit16_def Let_def of_char_def)
  ultimately show "CHR ''_'' \<in> set s" "CHR ''='' \<notin> set s" using d by simp_all
qed

lemma addr_attr_roundtrip:
  assumes "text_encodings_ok T" "addr_text_ok url_parse a"
  shows "\<exists>s. CHR ''='' \<notin> set s \<and>
     (if transport_is_relay a then addr_attr T a = Some (Attr_Relay, s) \<and> map_option TA_Relay (url_parse s) = Some a
      else addr_attr T a = Some (Attr_Addr, s) \<and> addr_of_attr T s = Some a)"
proof (cases a)
  case (TA_Relay u)
  then show ?thesis using assms(2) by auto
next
  case (TA_Ip s)
  have "CHR ''='' \<notin> set (socket_addr_display s)"
    using socket_display_chars [of s] by (auto simp: list_all_iff)
  then show ?thesis using TA_Ip assms(2) socket_text_roundtrip [of s] by (simp add: addr_of_attr_def)
next
  case (TA_Custom c)
  then obtain s where s: "custom_display T c = Some s" "custom_from_str T s = Inr c"
    using assms custom_text_roundtrip by fastforce
  have "socket_addr_from_str s = None"
    using custom_display_chars(1) [OF assms(1) s(1)] socket_from_str_chars [of s]
    by (cases "socket_addr_from_str s") (auto simp: list_all_iff)
  then show ?thesis
    using TA_Custom s custom_display_chars(2) [OF assms(1) s(1)] by (simp add: addr_of_attr_def)
qed

lemma addr_attrs_roundtrip:
  assumes "text_encodings_ok T" "\<forall>a \<in> set addrs. addr_text_ok url_parse a"
  shows "\<exists>pairs. those (map (addr_attr T) addrs) = Some pairs \<and>
     filter (\<lambda>p. fst p = Attr_UserData) pairs = [] \<and>
     List.map_filter (\<lambda>s. map_option TA_Relay (url_parse s))
       (map cut_value (map snd (filter (\<lambda>p. fst p = Attr_Relay) pairs))) = filter transport_is_relay addrs \<and>
     List.map_filter (addr_of_attr T)
       (map cut_value (map snd (filter (\<lambda>p. fst p = Attr_Addr) pairs))) = filter (\<lambda>a. \<not> transport_is_relay a) addrs"
  using assms(2)
proof (induction addrs)
  case (Cons a addrs)
  then obtain pairs where IH: "those (map (addr_attr T) addrs) = Some pairs"
    "filter (\<lambda>p. fst p = Attr_UserData) pairs = []"
    "List.map_filter (\<lambda>s. map_option TA_Relay (url_parse s))
       (map cut_value (map snd (filter (\<lambda>p. fst p = Attr_Relay) pairs))) = filter transport_is_relay addrs"
    "List.map_filter (addr_of_attr T)
       (map cut_value (map snd (filter (\<lambda>p. fst p = Attr_Addr) pairs))) = filter (\<lambda>a. \<not> transport_is_relay a) addrs"
    by auto
  obtain s where s: "CHR ''='' \<notin> set s"
    "if transport_is_relay a then addr_attr T a = Some (Attr_Relay, s) \<and> map_option TA_Relay (url_parse s) = Some a
     else addr_attr T a = Some (Attr_Addr, s) \<and> addr_of_attr T s = Some a"
    using addr_attr_roundtrip [OF assms(1)] Cons.prems by force
  then show ?case using IH by (cases "transport_is_relay a") (auto simp: List.map_filter_simps)
qed (simp add: List.map_filter_simps)

text \<open>The info that comes back: the relays first, the user data cut at its first equals sign.\<close>

definition info_published :: "endpoint_id \<Rightarrow> endpoint_info \<Rightarrow> endpoint_info" where
  "info_published i info =
     (let d = ei_data info in
      \<lparr>ei_endpoint_id = i,
       ei_data = \<lparr>ed_addrs = filter transport_is_relay (ed_addrs d) @ filter (\<lambda>a. \<not> transport_is_relay a) (ed_addrs d),
                  ed_user_data = map_option cut_value (ed_user_data d)\<rparr>\<rparr>)"

lemma data_add_addrs_default:
  "distinct as \<Longrightarrow> data_add_addrs as (data_set_user_data v data_default) = \<lparr>ed_addrs = as, ed_user_data = v\<rparr>"
  using add_loop_distinct [of "[]" as] by (simp add: data_add_addrs_def data_default_def data_set_user_data_def)

lemma info_attrs_roundtrip:
  assumes T: "text_encodings_ok T" and ok: "\<forall>a \<in> set (ed_addrs (ei_data info)). addr_text_ok url_parse a"
    and inv: "data_inv (ei_data info)"
  shows "\<exists>a b. endpoint_info_to_attrs T info = Some a \<and>
    attrs_from_strings i (attrs_to_txt_strings a) = Inr b \<and>
    endpoint_info_from_attrs url_parse T b = info_published i info"
proof -
  define u where "u = ed_user_data (ei_data info)"
  define us where "us = (case u of Some v \<Rightarrow> [(Attr_UserData, v)] | None \<Rightarrow> [])"
  obtain pairs where p: "those (map (addr_attr T) (ed_addrs (ei_data info))) = Some pairs"
    "filter (\<lambda>p. fst p = Attr_UserData) pairs = []"
    "List.map_filter (\<lambda>s. map_option TA_Relay (url_parse s))
       (map cut_value (map snd (filter (\<lambda>p. fst p = Attr_Relay) pairs))) = filter transport_is_relay (ed_addrs (ei_data info))"
    "List.map_filter (addr_of_attr T) (map cut_value (map snd (filter (\<lambda>p. fst p = Attr_Addr) pairs))) =
       filter (\<lambda>a. \<not> transport_is_relay a) (ed_addrs (ei_data info))"
    using addr_attrs_roundtrip [OF T ok] by blast
  define a where "a = attrs_from_parts (ei_endpoint_id info) (pairs @ us)"
  have a: "endpoint_info_to_attrs T info = Some a" using p(1) by (simp add: endpoint_info_to_attrs_def a_def us_def u_def)
  obtain b where b: "attrs_from_strings i (attrs_to_txt_strings a) = Inr b" "ta_endpoint_id b = i"
    "\<And>k. attrs_get k b = map cut_value (attrs_get k a)"
    using attrs_text_roundtrip [of a i] attrs_from_parts_get(1) unfolding a_def by blast
  have get: "attrs_get Attr_Relay b = map cut_value (map snd (filter (\<lambda>p. fst p = Attr_Relay) pairs))"
    "attrs_get Attr_Addr b = map cut_value (map snd (filter (\<lambda>p. fst p = Attr_Addr) pairs))"
    "attrs_get Attr_UserData b = (case u of Some v \<Rightarrow> [cut_value v] | None \<Rightarrow> [])"
    using p(2) by (auto simp: b(3) a_def attrs_from_parts_get us_def split: option.splits)
  have "distinct (filter transport_is_relay (ed_addrs (ei_data info)) @ filter (\<lambda>a. \<not> transport_is_relay a) (ed_addrs (ei_data info)))"
    using inv by (auto simp: data_inv_def)
  note addrs = data_add_addrs_default [OF this]
  have "(case attrs_get Attr_UserData b of [] \<Rightarrow> None
      | s # _ \<Rightarrow> (case user_data_from_str s of Inr x \<Rightarrow> Some x | Inl _ \<Rightarrow> None)) = map_option cut_value u"
  proof (cases u)
    case (Some v)
    then have "length (cut_value v) \<le> USER_DATA_MAX_LENGTH"
      using inv length_cut_value [of v] by (simp add: data_inv_def u_def)
    then show ?thesis unfolding get(3) by (simp add: Some user_data_from_str_def)
  qed (simp add: get(3))
  then have "endpoint_info_from_attrs url_parse T b = info_published i info"
    unfolding endpoint_info_from_attrs_def get(1,2) p(3,4) b(2) info_published_def Let_def addrs u_def by simp
  then show ?thesis using a b(1) by blast
qed

lemma info_packet_roundtrip:
  assumes C: "ed25519_ok C" and T: "text_encodings_ok T" and D: "dns_lib_ok D" and sk: "length sk = 32"
    and zone: "name_new_ok D (public_key_to_z32 T (secret_key_public C sk))"
    and ok: "\<forall>a \<in> set (ed_addrs (ei_data info)). addr_text_ok url_parse a" and inv: "data_inv (ei_data info)"
    and p: "info_to_pkarr_signed_packet C T D now sk ttl info = Some (Inr p)"
  shows "packet_from_bytes C D p = Some (Inr p)"
    "info_from_pkarr_signed_packet url_parse C T D p = Some (Inr (info_published (secret_key_public C sk) info))"
proof -
  obtain a b where ab: "endpoint_info_to_attrs T info = Some a"
    "attrs_from_strings (secret_key_public C sk) (attrs_to_txt_strings a) = Inr b"
    "endpoint_info_from_attrs url_parse T b = info_published (secret_key_public C sk) info"
    using info_attrs_roundtrip [OF T ok inv] by blast
  have "from_txt_strings C T D now sk IROH_TXT_NAME (attrs_to_txt_strings a) ttl = Inr p"
    using p ab(1) by (simp add: info_to_pkarr_signed_packet_def attrs_to_pkarr_signed_packet_def)
  note v = from_txt_strings_verifies [OF C D sk this]
  show "packet_from_bytes C D p = Some (Inr p)" by (rule v)
  show "info_from_pkarr_signed_packet url_parse C T D p = Some (Inr (info_published (secret_key_public C sk) info))"
    using v(2) v(5) [OF zone] ab by (simp add: info_from_pkarr_signed_packet_def attrs_from_pkarr_signed_packet_def)
qed

text \<open>The name an endpoint is looked up under leads back to its key.\<close>

lemma endpoint_id_txt_name:
  assumes T: "text_encodings_ok T" and k: "key_valid C k" and z: "CHR ''.'' \<notin> set (public_key_to_z32 T k)"
  shows "endpoint_id_from_txt_name C T (IROH_TXT_NAME @ ''.'' @ public_key_to_z32 T k @ ''.'' @ origin) = Inr k"
proof -
  have "split_char (CHR ''.'') (IROH_TXT_NAME @ ''.'' @ public_key_to_z32 T k @ ''.'' @ origin) =
      IROH_TXT_NAME # public_key_to_z32 T k # split_char (CHR ''.'') origin"
    using split_char_append [of "CHR ''.''" IROH_TXT_NAME] split_char_append [OF z, of origin]
    by (simp add: IROH_TXT_NAME_def)
  moreover have "public_key_from_z32 C T (public_key_to_z32 T k) = Inr k"
    using T k by (simp add: public_key_from_z32_def public_key_to_z32_def text_encodings_ok_def)
  ultimately show ?thesis
    by (simp add: endpoint_id_from_txt_name_def Let_def)
qed

end
