(* ===== verification/Packet_Store.thy ===== *)
theory Packet_Store
  imports Signed_Packet "HOL-Library.Product_Lexorder"
begin

text \<open>
  The store of signed packets of the DNS server (\<open>iroh-dns-server/src/store/signed_packets.rs\<close>): the
  two tables of the database, the message handlers of the store actor, its batches of messages in a
  write transaction, and the eviction task that looks for expired packets in a snapshot and asks the
  actor to check them. The database (\<open>redb\<close>) is its committed tables; an open transaction works on a
  copy that replaces them on commit, and a database error ends the actor and drops the copy.
  Lemmas: every stored packet is authentic, stored under its own key and found by the index of update
  times, a packet is only ever replaced by one that is not older, and only expired packets are
  removed.
\<close>

section \<open>Tables\<close>

text \<open>
  Rows of \<open>signed-packets-1\<close> by key, and the sorted entries of the multimap \<open>update-time-1\<close>.
\<close>

record tables =
  signed_packets :: "(bytes \<times> bytes) list"
  update_time :: "(bytes \<times> bytes) list"

record store_options =
  max_batch_size :: nat
  eviction_us :: u64

definition tables_empty :: tables where
  "tables_empty = \<lparr>signed_packets = [], update_time = []\<rparr>"

definition time_insert :: "timestamp \<Rightarrow> bytes \<Rightarrow> tables \<Rightarrow> tables" where
  "time_insert t k tb = tb\<lparr>update_time := btree_insert (u64_to_be t, k) (update_time tb)\<rparr>"

definition time_remove :: "timestamp \<Rightarrow> bytes \<Rightarrow> tables \<Rightarrow> tables" where
  "time_remove t k tb = tb\<lparr>update_time := removeAll (u64_to_be t, k) (update_time tb)\<rparr>"

definition packet_insert :: "bytes \<Rightarrow> bytes \<Rightarrow> tables \<Rightarrow> tables" where
  "packet_insert k v tb = tb\<lparr>signed_packets := al_update k v (signed_packets tb)\<rparr>"

definition packet_remove :: "bytes \<Rightarrow> tables \<Rightarrow> tables" where
  "packet_remove k tb = tb\<lparr>signed_packets := al_remove k (signed_packets tb)\<rparr>"

definition serialize :: "timestamp \<Rightarrow> signed_packet \<Rightarrow> bytes" where
  "serialize now p = u64_to_be now @ p"

definition deserialize :: "dns_lib \<Rightarrow> bytes \<Rightarrow> verify_error + signed_packet" where
  "deserialize D data =
     (case (if length data \<ge> 8 then from_bytes_unchecked D (drop 8 data) else Inl (TooShort (length data))) of
        Inr p \<Rightarrow> Inr p
      | Inl _ \<Rightarrow> from_bytes_unchecked D data)"

definition get_packet :: "dns_lib \<Rightarrow> bytes \<Rightarrow> tables \<Rightarrow> verify_error + signed_packet option" where
  "get_packet D k tb =
     (case map_of (signed_packets tb) k of
        None \<Rightarrow> Inr None
      | Some row \<Rightarrow> and_then (deserialize D row) (\<lambda>p. Inr (Some p)))"

section \<open>Messages\<close>

datatype message =
  Upsert signed_packet
| Get bytes
| Snapshot
| CheckExpired timestamp bytes

text \<open>What a handler does besides changing the tables: replies and metrics.\<close>

datatype store_event =
  Upserted bool
| Got "signed_packet option"
| Packets_Inserted
| Packets_Updated
| Packets_Expired

definition saturating_sub :: "u64 \<Rightarrow> u64 \<Rightarrow> u64" where
  "saturating_sub a b = (if b \<le> a then a - b else 0)"

definition expired_before :: "store_options \<Rightarrow> timestamp \<Rightarrow> timestamp" where
  "expired_before opts now = saturating_sub now (eviction_us opts)"

text \<open>
  The outer \<open>None\<close> is the panic of \<open>public_key\<close> on a packet without a valid key; \<open>Inl\<close> is the error
  that ends the actor. \<open>now\<close> is the timestamp the handler takes.
\<close>

definition handle_upsert ::
  "ed25519 \<Rightarrow> dns_lib \<Rightarrow> timestamp \<Rightarrow> signed_packet \<Rightarrow> tables \<Rightarrow> (verify_error + tables \<times> store_event list) option" where
  "handle_upsert C D now p tb =
     (case packet_public_key C p of
        None \<Rightarrow> None
      | Some key \<Rightarrow>
         Some (and_then (get_packet D key tb) (\<lambda>found.
           let store = (\<lambda>t. time_insert (packet_timestamp p) key (packet_insert key (serialize now p) t)) in
           case found of
             Some existing \<Rightarrow>
               (if more_recent_than existing p then Inr (tb, [Upserted False])
                else Inr (store (time_remove (packet_timestamp existing) key tb), [Packets_Updated, Upserted True]))
           | None \<Rightarrow> Inr (store tb, [Packets_Inserted, Upserted True]))))"

definition handle_check_expired ::
  "store_options \<Rightarrow> dns_lib \<Rightarrow> timestamp \<Rightarrow> timestamp \<Rightarrow> bytes \<Rightarrow> tables \<Rightarrow> verify_error + tables \<times> store_event list" where
  "handle_check_expired opts D now time key tb =
     and_then (get_packet D key tb) (\<lambda>found.
       case found of
         Some packet \<Rightarrow>
           (if packet_timestamp packet < expired_before opts now
            then Inr (packet_remove key (time_remove time key tb), [Packets_Expired])
            else Inr (time_remove time key tb, []))
       | None \<Rightarrow> Inr (time_remove time key tb, []))"

text \<open>A snapshot sees the committed tables, not the open transaction; handling it changes nothing.\<close>

definition store_handle_message ::
  "ed25519 \<Rightarrow> store_options \<Rightarrow> dns_lib \<Rightarrow> timestamp \<Rightarrow> message \<Rightarrow> tables \<Rightarrow>
   (verify_error + tables \<times> store_event list) option" where
  "store_handle_message C opts D now msg tb =
     (case msg of
        Get key \<Rightarrow> Some (and_then (get_packet D key tb) (\<lambda>r. Inr (tb, [Got r])))
      | Upsert p \<Rightarrow> handle_upsert C D now p tb
      | Snapshot \<Rightarrow> Some (Inr (tb, []))
      | CheckExpired time key \<Rightarrow> Some (handle_check_expired opts D now time key tb))"

text \<open>One pass of the eviction task over a snapshot: the entries before the bound, in order.\<close>

definition evict_messages :: "store_options \<Rightarrow> timestamp \<Rightarrow> tables \<Rightarrow> message list" where
  "evict_messages opts now snapshot =
     map (\<lambda>(time, key). CheckExpired (u64_of_be time) key)
       (filter (\<lambda>(time, key). time < u64_to_be (expired_before opts now)) (update_time snapshot))"

section \<open>The actor and the eviction task\<close>

text \<open>
  The eviction task waits for its snapshot, has it, sends its messages one by one, or sleeps. The clock is
  the last timestamp taken by either of them. \<open>pushed_back\<close> is the slot of the peekable receiver.
\<close>

datatype evict_state =
  Evict_Waiting
| Evict_Snapshot tables
| Evict_Sending "message list"
| Evict_Sleeping

record store_state =
  committed :: tables
  transaction :: "(nat \<times> tables) option"
  pushed_back :: "message option"
  queue :: "message list"
  clock :: timestamp
  evict :: evict_state
  log :: "store_event list"
  running :: bool

definition STORE_QUEUE :: nat where "STORE_QUEUE = 1024"

definition store_open :: store_state where
  "store_open = \<lparr>committed = tables_empty, transaction = None, pushed_back = None, queue = [Snapshot], clock = 0,
     evict = Evict_Waiting, log = [], running = True\<rparr>"

definition store_send :: "message \<Rightarrow> store_state \<Rightarrow> store_state" where
  "store_send m s = s\<lparr>queue := queue s @ [m]\<rparr>"

text \<open>\<open>PeekableReceiver::recv\<close>\<close>

definition store_recv :: "store_state \<Rightarrow> (message \<times> store_state) option" where
  "store_recv s =
     (case pushed_back s of
        Some m \<Rightarrow> Some (m, s\<lparr>pushed_back := None\<rparr>)
      | None \<Rightarrow> (case queue s of [] \<Rightarrow> None | m # q \<Rightarrow> Some (m, s\<lparr>queue := q\<rparr>)))"

text \<open>
  A message handled inside the transaction: its tables, the remaining iterations of the batch, the
  replies; an error or a panic ends the actor without a commit.
\<close>

definition handle_in_batch ::
  "ed25519 \<Rightarrow> store_options \<Rightarrow> dns_lib \<Rightarrow> timestamp \<Rightarrow> message \<Rightarrow> nat \<Rightarrow> tables \<Rightarrow> store_state \<Rightarrow> store_state" where
  "handle_in_batch C opts D now m left tb s =
     (case store_handle_message C opts D now m tb of
        Some (Inr (tb', events)) \<Rightarrow>
          s\<lparr>transaction := Some (left - 1, tb'), clock := now, log := log s @ events\<rparr>
      | _ \<Rightarrow> s\<lparr>transaction := None, running := False, clock := now\<rparr>)"

inductive store_step :: "ed25519 \<Rightarrow> store_options \<Rightarrow> dns_lib \<Rightarrow> store_state \<Rightarrow> store_state \<Rightarrow> bool"
  for C opts D where
  st_upsert: "length (queue s) < STORE_QUEUE \<Longrightarrow> packet_from_bytes C D p = Some (Inr p) \<Longrightarrow>
     store_step C opts D s (store_send (Upsert p) s)"
| st_get: "length (queue s) < STORE_QUEUE \<Longrightarrow> store_step C opts D s (store_send (Get key) s)"
| st_snapshot: "running s \<Longrightarrow> transaction s = None \<Longrightarrow> store_recv s = Some (Snapshot, s') \<Longrightarrow>
     store_step C opts D s (s'\<lparr>evict := Evict_Snapshot (committed s)\<rparr>)"
| st_begin: "running s \<Longrightarrow> transaction s = None \<Longrightarrow> store_recv s = Some (m, s') \<Longrightarrow> m \<noteq> Snapshot \<Longrightarrow>
     store_step C opts D s (s'\<lparr>pushed_back := Some m, transaction := Some (max_batch_size opts, committed s)\<rparr>)"
| st_handle: "running s \<Longrightarrow> transaction s = Some (left, tb) \<Longrightarrow> 0 < left \<Longrightarrow> store_recv s = Some (m, s') \<Longrightarrow>
     m \<noteq> Snapshot \<Longrightarrow> clock s < now \<Longrightarrow> store_step C opts D s (handle_in_batch C opts D now m left tb s')"
| st_batch_snapshot: "running s \<Longrightarrow> transaction s = Some (left, tb) \<Longrightarrow> 0 < left \<Longrightarrow>
     store_recv s = Some (Snapshot, s') \<Longrightarrow>
     store_step C opts D s (s'\<lparr>transaction := Some (left - 1, tb), evict := Evict_Snapshot (committed s)\<rparr>)"
| st_commit: "running s \<Longrightarrow> transaction s = Some (left, tb) \<Longrightarrow>
     store_step C opts D s (s\<lparr>committed := tb, transaction := None\<rparr>)"
| st_cancelled: "running s \<Longrightarrow> transaction s = Some (left, tb) \<Longrightarrow>
     store_step C opts D s (s\<lparr>committed := tb, transaction := None, running := False\<rparr>)"
| st_database_error: "running s \<Longrightarrow> store_step C opts D s (s\<lparr>transaction := None, running := False\<rparr>)"
| st_evict_scan: "evict s = Evict_Snapshot tb \<Longrightarrow> clock s < now \<Longrightarrow>
     store_step C opts D s (s\<lparr>clock := now, evict := Evict_Sending (evict_messages opts now tb)\<rparr>)"
| st_evict_send: "evict s = Evict_Sending (m # ms) \<Longrightarrow> length (queue s) < STORE_QUEUE \<Longrightarrow>
     store_step C opts D s ((store_send m s)\<lparr>evict := Evict_Sending ms\<rparr>)"
| st_evict_sleep: "evict s = Evict_Sending [] \<Longrightarrow> store_step C opts D s (s\<lparr>evict := Evict_Sleeping\<rparr>)"
| st_evict_again: "evict s = Evict_Sleeping \<Longrightarrow> length (queue s) < STORE_QUEUE \<Longrightarrow>
     store_step C opts D s ((store_send Snapshot s)\<lparr>evict := Evict_Waiting\<rparr>)"

section \<open>The stored packets\<close>

text \<open>The specification: a map from keys to packets.\<close>

definition stored :: "dns_lib \<Rightarrow> tables \<Rightarrow> bytes \<Rightarrow> signed_packet option" where
  "stored D tb k = (case get_packet D k tb of Inr r \<Rightarrow> r | Inl _ \<Rightarrow> None)"

definition spec_handle :: "store_options \<Rightarrow> timestamp \<Rightarrow> message \<Rightarrow> (bytes \<Rightarrow> signed_packet option) \<Rightarrow> bytes \<Rightarrow> signed_packet option" where
  "spec_handle opts now m M =
     (case m of
        Upsert p \<Rightarrow>
          (case M (take 32 p) of
             Some q \<Rightarrow> (if more_recent_than q p then M else M(take 32 p \<mapsto> p))
           | None \<Rightarrow> M(take 32 p \<mapsto> p))
      | CheckExpired time key \<Rightarrow>
          (case M key of
             Some q \<Rightarrow> (if packet_timestamp q < expired_before opts now then M(key := None) else M)
           | None \<Rightarrow> M)
      | _ \<Rightarrow> M)"

definition spec_reply :: "message \<Rightarrow> (bytes \<Rightarrow> signed_packet option) \<Rightarrow> store_event list \<Rightarrow> bool" where
  "spec_reply m M events \<longleftrightarrow>
     (case m of
        Upsert p \<Rightarrow> Upserted (\<not> (\<exists>q. M (take 32 p) = Some q \<and> more_recent_than q p)) \<in> set events
      | Get key \<Rightarrow> events = [Got (M key)]
      | _ \<Rightarrow> True)"

definition packet_ok :: "ed25519 \<Rightarrow> dns_lib \<Rightarrow> signed_packet \<Rightarrow> bool" where
  "packet_ok C D p \<longleftrightarrow> packet_from_bytes C D p = Some (Inr p)"

definition row_ok :: "ed25519 \<Rightarrow> dns_lib \<Rightarrow> tables \<Rightarrow> bytes \<Rightarrow> bytes \<Rightarrow> bool" where
  "row_ok C D tb k v \<longleftrightarrow> (\<exists>t p. v = serialize t p \<and> packet_ok C D p \<and> take 32 p = k \<and>
     (u64_to_be (packet_timestamp p), k) \<in> set (update_time tb))"

definition tables_ok :: "ed25519 \<Rightarrow> dns_lib \<Rightarrow> tables \<Rightarrow> bool" where
  "tables_ok C D tb \<longleftrightarrow> distinct (al_keys (signed_packets tb)) \<and>
     (\<forall>k v. map_of (signed_packets tb) k = Some v \<longrightarrow> row_ok C D tb k v)"

definition message_ok :: "ed25519 \<Rightarrow> store_options \<Rightarrow> dns_lib \<Rightarrow> timestamp \<Rightarrow> message \<Rightarrow> bool" where
  "message_ok C opts D now m \<longleftrightarrow>
     (case m of Upsert p \<Rightarrow> packet_ok C D p | CheckExpired time key \<Rightarrow> time < expired_before opts now | _ \<Rightarrow> True)"

lemma u64_to_be_eq [simp]: "u64_to_be a = u64_to_be b \<longleftrightarrow> a = b"
  by (metis u64_of_to_be)

lemma packet_okD:
  assumes "ed25519_ok C" "packet_ok C D p"
  shows "packet_public_key C p = Some (take 32 p)" "from_bytes_unchecked D p = Inr p" "length (take 32 p) = 32"
proof -
  note v = packet_from_bytes_InrD [OF assms(1) assms(2) [unfolded packet_ok_def]]
  show "packet_public_key C p = Some (take 32 p)" by (rule v)
  show "from_bytes_unchecked D p = Inr p" using v by (auto simp: from_bytes_unchecked_def encoded_packet_def)
  show "length (take 32 p) = 32" using v(2) by (simp add: HEADER_SIZE_def)
qed

lemma deserialize_serialize: "from_bytes_unchecked D p = Inr p \<Longrightarrow> deserialize D (serialize t p) = Inr p"
  by (simp add: deserialize_def serialize_def)

lemma get_packet_ok:
  assumes "ed25519_ok C" "tables_ok C D tb"
  shows "get_packet D k tb = Inr (stored D tb k)"
    "stored D tb k = Some p \<longleftrightarrow> (\<exists>t. map_of (signed_packets tb) k = Some (serialize t p))"
    "stored D tb k = Some p \<Longrightarrow> packet_ok C D p \<and> take 32 p = k \<and> (u64_to_be (packet_timestamp p), k) \<in> set (update_time tb)"
proof -
  have row: "\<exists>t q. v = serialize t q \<and> deserialize D v = Inr q \<and> packet_ok C D q \<and> take 32 q = k \<and>
      (u64_to_be (packet_timestamp q), k) \<in> set (update_time tb)"
    if "map_of (signed_packets tb) k = Some v" for v
    using assms(2) that deserialize_serialize packet_okD [OF assms(1)]
    unfolding tables_ok_def row_ok_def by metis
  then show "get_packet D k tb = Inr (stored D tb k)"
    by (cases "map_of (signed_packets tb) k") (fastforce simp: get_packet_def stored_def)+
  have "serialize t p = serialize t' p' \<Longrightarrow> p = p'" for t t' p p'
    by (simp add: serialize_def)
  then show "stored D tb k = Some p \<longleftrightarrow> (\<exists>t. map_of (signed_packets tb) k = Some (serialize t p))"
    using row by (cases "map_of (signed_packets tb) k") (fastforce simp: get_packet_def stored_def)+
  show "stored D tb k = Some p \<Longrightarrow> packet_ok C D p \<and> take 32 p = k \<and> (u64_to_be (packet_timestamp p), k) \<in> set (update_time tb)"
    using row by (cases "map_of (signed_packets tb) k") (fastforce simp: get_packet_def stored_def)+
qed

lemma stored_drop:
  assumes "ed25519_ok C" "tables_ok C D tb"
  shows "stored D tb = (\<lambda>k. map_option (drop 8) (map_of (signed_packets tb) k))"
proof
  fix k
  show "stored D tb k = map_option (drop 8) (map_of (signed_packets tb) k)"
  proof (cases "map_of (signed_packets tb) k")
    case None
    then show ?thesis by (simp add: stored_def get_packet_def)
  next
    case (Some v)
    then obtain t p where v: "v = serialize t p" using assms(2) unfolding tables_ok_def row_ok_def by blast
    then have "stored D tb k = Some p" using get_packet_ok(2) [OF assms, of k p] Some by blast
    then show ?thesis using Some v by (simp add: serialize_def)
  qed
qed

section \<open>Handlers keep the tables in order\<close>

text \<open>All rows but the one of a key that is about to be written or removed.\<close>

definition tables_ok_except :: "bytes \<Rightarrow> ed25519 \<Rightarrow> dns_lib \<Rightarrow> tables \<Rightarrow> bool" where
  "tables_ok_except k0 C D tb \<longleftrightarrow> distinct (al_keys (signed_packets tb)) \<and>
     (\<forall>k v. k \<noteq> k0 \<longrightarrow> map_of (signed_packets tb) k = Some v \<longrightarrow> row_ok C D tb k v)"

lemma tables_ok_exceptI [simp]: "tables_ok C D tb \<Longrightarrow> tables_ok_except k C D tb"
  by (simp add: tables_ok_def tables_ok_except_def)

lemma tables_ok_except_remove: "tables_ok_except k C D tb \<Longrightarrow> tables_ok_except k C D (time_remove t k tb)"
  by (auto simp: tables_ok_except_def row_ok_def time_remove_def)

lemma tables_ok_write:
  assumes "tables_ok_except (take 32 p) C D tb" "packet_ok C D p"
  shows "tables_ok C D (time_insert (packet_timestamp p) (take 32 p) (packet_insert (take 32 p) (serialize now p) tb))"
proof -
  let ?tb = "time_insert (packet_timestamp p) (take 32 p) (packet_insert (take 32 p) (serialize now p) tb)"
  have up: "set (update_time ?tb) = insert (u64_to_be (packet_timestamp p), take 32 p) (set (update_time tb))"
    by (simp add: time_insert_def packet_insert_def set_insort_insert)
  have "row_ok C D ?tb k v" if "map_of (signed_packets ?tb) k = Some v" for k v
  proof (cases "k = take 32 p")
    case True
    then have "v = serialize now p" using that by (simp add: time_insert_def packet_insert_def)
    then show ?thesis unfolding row_ok_def up using True assms(2) by blast
  next
    case False
    then have "row_ok C D tb k v" using that assms(1) by (simp add: time_insert_def packet_insert_def tables_ok_except_def)
    then show ?thesis unfolding row_ok_def up by blast
  qed
  then show ?thesis using assms(1) by (simp add: tables_ok_def tables_ok_except_def time_insert_def packet_insert_def)
qed

lemma tables_ok_drop: "tables_ok_except k C D tb \<Longrightarrow> tables_ok C D (packet_remove k tb)"
  by (auto simp: tables_ok_def tables_ok_except_def row_ok_def packet_remove_def split: if_splits)

lemma tables_ok_time_remove:
  assumes "ed25519_ok C" "tables_ok C D tb" "\<And>q. stored D tb k = Some q \<Longrightarrow> packet_timestamp q \<noteq> t"
  shows "tables_ok C D (time_remove t k tb)"
proof -
  have "row_ok C D (time_remove t k tb) l v" if l: "map_of (signed_packets tb) l = Some v" for l v
  proof -
    obtain u q where q: "v = serialize u q" "packet_ok C D q" "take 32 q = l" "(u64_to_be (packet_timestamp q), l) \<in> set (update_time tb)"
      using assms(2) l unfolding tables_ok_def row_ok_def by blast
    moreover have "l = k \<Longrightarrow> packet_timestamp q \<noteq> t"
      using assms(3) get_packet_ok(2) [OF assms(1,2), of k q] l q(1) by blast
    ultimately show ?thesis unfolding row_ok_def by (auto simp: time_remove_def)
  qed
  then show ?thesis using assms(2) by (simp add: tables_ok_def time_remove_def)
qed

lemma signed_packets_ops [simp]:
  "signed_packets (time_insert t k tb) = signed_packets tb"
  "signed_packets (time_remove t k tb) = signed_packets tb"
  "signed_packets (packet_insert k v tb) = al_update k v (signed_packets tb)"
  "signed_packets (packet_remove k tb) = al_remove k (signed_packets tb)"
  by (simp_all add: time_insert_def time_remove_def packet_insert_def packet_remove_def)

lemma handle_upsert_result:
  assumes C: "ed25519_ok C" and tb: "tables_ok C D tb" and p: "packet_ok C D p"
  shows "\<exists>tb' events. handle_upsert C D now p tb = Some (Inr (tb', events)) \<and> tables_ok C D tb' \<and>
    stored D tb' = spec_handle opts now (Upsert p) (stored D tb) \<and> spec_reply (Upsert p) (stored D tb) events"
proof -
  let ?k = "take 32 p"
  let ?store = "\<lambda>t. time_insert (packet_timestamp p) ?k (packet_insert ?k (serialize now p) t)"
  have key: "packet_public_key C p = Some ?k" using C p by (rule packet_okD)
  have get: "get_packet D ?k tb = Inr (stored D tb ?k)" using C tb by (rule get_packet_ok)
  have written: "stored D tb' = (stored D tb)(?k \<mapsto> p)"
    if "tables_ok C D tb'" "signed_packets tb' = al_update ?k (serialize now p) (signed_packets tb)" for tb'
    unfolding stored_drop [OF C that(1)] stored_drop [OF C tb] by (rule ext) (simp add: that(2) serialize_def)
  show ?thesis
  proof (cases "stored D tb ?k")
    case None
    have "tables_ok C D (?store tb)" using tb p by (intro tables_ok_write) simp_all
    then show ?thesis using None written by (simp add: handle_upsert_def key get Let_def spec_handle_def spec_reply_def)
  next
    case (Some q)
    show ?thesis
    proof (cases "more_recent_than q p")
      case True
      then show ?thesis using Some tb by (simp add: handle_upsert_def key get Let_def spec_handle_def spec_reply_def)
    next
      case False
      have "tables_ok C D (?store (time_remove (packet_timestamp q) ?k tb))"
        using tb p by (intro tables_ok_write tables_ok_except_remove) simp_all
      then show ?thesis
        using Some False written by (simp add: handle_upsert_def key get Let_def spec_handle_def spec_reply_def)
    qed
  qed
qed

lemma handle_check_expired_result:
  assumes C: "ed25519_ok C" and tb: "tables_ok C D tb" and t: "time < expired_before opts now"
  shows "\<exists>tb' events. handle_check_expired opts D now time key tb = Inr (tb', events) \<and> tables_ok C D tb' \<and>
    stored D tb' = spec_handle opts now (CheckExpired time key) (stored D tb)"
proof -
  have get: "get_packet D key tb = Inr (stored D tb key)" using C tb by (rule get_packet_ok)
  have same: "stored D (time_remove time key tb) = stored D tb" if "tables_ok C D (time_remove time key tb)"
    unfolding stored_drop [OF C that] stored_drop [OF C tb] by simp
  show ?thesis
  proof (cases "stored D tb key")
    case None
    then have "tables_ok C D (time_remove time key tb)" using C tb by (intro tables_ok_time_remove) simp_all
    then show ?thesis using None same by (simp add: handle_check_expired_def get spec_handle_def)
  next
    case (Some q)
    show ?thesis
    proof (cases "packet_timestamp q < expired_before opts now")
      case True
      have ok: "tables_ok C D (packet_remove key (time_remove time key tb))"
        using tb by (intro tables_ok_drop tables_ok_except_remove) simp
      have "stored D (packet_remove key (time_remove time key tb)) = (stored D tb)(key := None)"
        unfolding stored_drop [OF C ok] stored_drop [OF C tb] by (rule ext) simp
      then show ?thesis using Some True ok by (simp add: handle_check_expired_def get spec_handle_def)
    next
      case False
      then have "tables_ok C D (time_remove time key tb)"
        using C tb t Some by (intro tables_ok_time_remove) auto
      then show ?thesis using Some False same by (simp add: handle_check_expired_def get spec_handle_def)
    qed
  qed
qed

lemma store_handle_message_result:
  assumes "ed25519_ok C" "tables_ok C D tb" "message_ok C opts D now m"
  shows "\<exists>tb' events. store_handle_message C opts D now m tb = Some (Inr (tb', events)) \<and> tables_ok C D tb' \<and>
    stored D tb' = spec_handle opts now m (stored D tb) \<and> spec_reply m (stored D tb) events"
proof (cases m)
  case (Upsert p)
  then show ?thesis using handle_upsert_result [OF assms(1,2), of p] assms(3) by (simp add: store_handle_message_def message_ok_def)
next
  case (CheckExpired time key)
  then show ?thesis
    using handle_check_expired_result [OF assms(1,2), of time opts now key] assms(3)
    by (auto simp: store_handle_message_def message_ok_def spec_reply_def)
qed (use assms(2) get_packet_ok(1) [OF assms(1,2)] in \<open>simp_all add: store_handle_message_def spec_handle_def spec_reply_def\<close>)

section \<open>Order of the encoded times\<close>

lemma be_bytes_less:
  "m < 256 ^ k \<Longrightarrow> n < 256 ^ k \<Longrightarrow> be_bytes k m < be_bytes k n \<longleftrightarrow> m < n"
proof (induction k arbitrary: m n)
  case (Suc k)
  have q: "m div 256 ^ k < 256" "n div 256 ^ k < 256" using Suc.prems by (simp_all add: less_mult_imp_div_less)
  have tail: "be_bytes k m < be_bytes k n \<longleftrightarrow> m mod 256 ^ k < n mod 256 ^ k"
    using Suc.IH [of "m mod 256 ^ k" "n mod 256 ^ k"] by (simp add: be_bytes_mod)
  have head: "(of_nat (m div 256 ^ k) :: byte) < of_nat (n div 256 ^ k) \<longleftrightarrow> m div 256 ^ k < n div 256 ^ k"
    "(of_nat (m div 256 ^ k) :: byte) = of_nat (n div 256 ^ k) \<longleftrightarrow> m div 256 ^ k = n div 256 ^ k"
    using q by (simp_all add: word_less_nat_alt word_unat_eq_iff unat_of_nat)
  have "m < n \<longleftrightarrow> m div 256 ^ k < n div 256 ^ k \<or> m div 256 ^ k = n div 256 ^ k \<and> m mod 256 ^ k < n mod 256 ^ k"
  proof (cases "m div 256 ^ k = n div 256 ^ k")
    case True
    have "m = n div 256 ^ k * 256 ^ k + m mod 256 ^ k" "n = n div 256 ^ k * 256 ^ k + n mod 256 ^ k"
      using True div_mult_mod_eq [of m "256 ^ k"] div_mult_mod_eq [of n "256 ^ k"] by simp_all
    then have "m < n \<longleftrightarrow> m mod 256 ^ k < n mod 256 ^ k" by linarith
    then show ?thesis using True by simp
  next
    case False
    then have "m < n \<longleftrightarrow> m div 256 ^ k < n div 256 ^ k"
      using div_le_mono [of m n "256 ^ k"] div_le_mono [of n m "256 ^ k"] by linarith
    then show ?thesis using False by simp
  qed
  then show ?case by (simp add: tail head)
qed simp

lemma u64_to_be_less: "u64_to_be a < u64_to_be b \<longleftrightarrow> a < b"
proof -
  have "unat a < 256 ^ 8" "unat b < 256 ^ 8" using unsigned_less [of a] unsigned_less [of b] by simp_all
  then show ?thesis by (simp add: u64_to_be_def be_bytes_less word_less_nat_alt)
qed

lemma expired_before_mono: "now \<le> now' \<Longrightarrow> expired_before opts now \<le> expired_before opts now'"
  by (auto simp: expired_before_def saturating_sub_def word_le_nat_alt unat_sub)

section \<open>The invariant of the store\<close>

definition times_ok :: "tables \<Rightarrow> bool" where
  "times_ok tb \<longleftrightarrow> (\<forall>e \<in> set (update_time tb). \<exists>t. fst e = u64_to_be t)"

definition evict_pending :: "evict_state \<Rightarrow> message list" where
  "evict_pending e = (case e of Evict_Sending ms \<Rightarrow> ms | _ \<Rightarrow> [])"

definition pending :: "store_state \<Rightarrow> message list" where
  "pending s = (case pushed_back s of Some m \<Rightarrow> [m] | None \<Rightarrow> []) @ queue s @ evict_pending (evict s)"

definition open_tables :: "store_state \<Rightarrow> tables list" where
  "open_tables s = committed s # (case transaction s of Some (left, tb) \<Rightarrow> [tb] | None \<Rightarrow> [])"

definition store_inv :: "ed25519 \<Rightarrow> store_options \<Rightarrow> dns_lib \<Rightarrow> store_state \<Rightarrow> bool" where
  "store_inv C opts D s \<longleftrightarrow>
     (\<forall>tb \<in> set (open_tables s). tables_ok C D tb \<and> times_ok tb) \<and>
     (\<forall>tb. evict s = Evict_Snapshot tb \<longrightarrow> times_ok tb) \<and>
     (\<forall>m \<in> set (pending s). message_ok C opts D (clock s) m)"

lemma message_ok_mono: "message_ok C opts D now m \<Longrightarrow> now \<le> now' \<Longrightarrow> message_ok C opts D now' m"
  using expired_before_mono [of now now' opts] by (auto simp: message_ok_def split: message.splits)

lemma times_ok_ops:
  "times_ok tb \<Longrightarrow> times_ok (time_insert t k tb)" "times_ok tb \<Longrightarrow> times_ok (time_remove t k tb)"
  "times_ok (packet_insert k v tb) = times_ok tb" "times_ok (packet_remove k tb) = times_ok tb"
  by (auto simp: times_ok_def time_insert_def time_remove_def packet_insert_def packet_remove_def set_insort_insert)

lemma store_handle_message_times:
  assumes "store_handle_message C opts D now m tb = Some (Inr (tb', events))" "times_ok tb"
  shows "times_ok tb'"
  using assms
  by (auto simp: store_handle_message_def handle_upsert_def handle_check_expired_def Let_def times_ok_ops
      split: message.splits option.splits if_splits)

lemma evict_messages_ok:
  assumes "times_ok tb" "m \<in> set (evict_messages opts now tb)"
  shows "message_ok C opts D now m"
proof -
  obtain t k where m: "(u64_to_be t, k) \<in> set (update_time tb)" "u64_to_be t < u64_to_be (expired_before opts now)"
    "m = CheckExpired t k"
    using assms unfolding evict_messages_def times_ok_def by fastforce
  then show ?thesis by (simp add: message_ok_def u64_to_be_less)
qed

lemma store_recv_cases:
  assumes "store_recv s = Some (m, s')"
  shows "set (pending s) = insert m (set (pending s'))" "committed s' = committed s" "transaction s' = transaction s"
    "evict s' = evict s" "clock s' = clock s" "log s' = log s" "running s' = running s"
  using assms by (auto simp: store_recv_def pending_def split: option.splits list.splits)

lemma open_tables_simps [simp]:
  "set (open_tables (s\<lparr>transaction := Some (n, tb)\<rparr>)) = {committed s, tb}"
  "set (open_tables (s\<lparr>transaction := None\<rparr>)) = {committed s}"
  by (auto simp: open_tables_def)

lemma store_inv_open: "store_inv C opts D store_open"
  by (simp add: store_inv_def store_open_def open_tables_def pending_def evict_pending_def tables_empty_def
      tables_ok_def times_ok_def message_ok_def)

lemma handle_in_batch_inv:
  assumes C: "ed25519_ok C" and inv: "store_inv C opts D s" and tr: "transaction s = Some (left, tb)"
    and m: "store_recv s = Some (m, s')" and now: "clock s < now"
  shows "store_inv C opts D (handle_in_batch C opts D now m left tb s')"
proof -
  note r = store_recv_cases [OF m]
  have tb: "tables_ok C D tb" "times_ok tb" and com: "tables_ok C D (committed s)" "times_ok (committed s)"
    using inv tr by (auto simp: store_inv_def open_tables_def)
  have ok: "\<forall>x \<in> set (pending s'). message_ok C opts D now x" "message_ok C opts D now m"
    using inv r(1) now message_ok_mono [of C opts D "clock s"] by (auto simp: store_inv_def less_imp_le)
  obtain tb' events where h: "store_handle_message C opts D now m tb = Some (Inr (tb', events))" "tables_ok C D tb'"
    using store_handle_message_result [OF C tb(1) ok(2)] by blast
  have "times_ok tb'" using store_handle_message_times [OF h(1) tb(2)] .
  then show ?thesis
    using h com ok(1) inv r
    by (auto simp: handle_in_batch_def store_inv_def open_tables_def pending_def)
qed

lemma store_step_inv:
  assumes C: "ed25519_ok C" and step: "store_step C opts D s t" and inv: "store_inv C opts D s"
  shows "store_inv C opts D t"
  using step
proof cases
  case (st_upsert p)
  then show ?thesis
    using inv by (auto simp: store_inv_def store_send_def pending_def open_tables_def message_ok_def packet_ok_def)
next
  case (st_get key)
  then show ?thesis
    using inv by (auto simp: store_inv_def store_send_def pending_def open_tables_def message_ok_def)
next
  case (st_snapshot s')
  note r = store_recv_cases [OF st_snapshot(4)]
  show ?thesis
    using inv r st_snapshot(1) by (auto simp: store_inv_def pending_def open_tables_def evict_pending_def)
next
  case (st_begin m s')
  note r = store_recv_cases [OF st_begin(4)]
  have "pushed_back s' = None" using st_begin(4) by (auto simp: store_recv_def split: option.splits list.splits)
  then show ?thesis using inv r st_begin(1) by (auto simp: store_inv_def pending_def open_tables_def)
next
  case (st_handle left tb m s' now)
  then show ?thesis using handle_in_batch_inv [OF C inv] by blast
next
  case (st_batch_snapshot left tb s')
  note r = store_recv_cases [OF st_batch_snapshot(5)]
  show ?thesis
    using inv r st_batch_snapshot by (auto simp: store_inv_def pending_def open_tables_def evict_pending_def)
next
  case (st_evict_scan tb now)
  then have "\<forall>m \<in> set (evict_messages opts now tb). message_ok C opts D now m"
    using inv evict_messages_ok by (auto simp: store_inv_def)
  moreover have "\<forall>m \<in> set (pending s). message_ok C opts D now m"
    using inv st_evict_scan(3) message_ok_mono [of C opts D "clock s"] by (auto simp: store_inv_def less_imp_le)
  ultimately show ?thesis
    using inv st_evict_scan(1) by (auto simp: store_inv_def pending_def open_tables_def evict_pending_def)
next
  case (st_evict_again)
  then show ?thesis
    using inv by (auto simp: store_inv_def store_send_def pending_def open_tables_def evict_pending_def message_ok_def)
qed (use inv in \<open>auto simp: store_inv_def store_send_def pending_def open_tables_def evict_pending_def\<close>)

lemma store_reachable_inv:
  "ed25519_ok C \<Longrightarrow> (store_step C opts D)\<^sup>*\<^sup>* store_open s \<Longrightarrow> store_inv C opts D s"
  by (rotate_tac, induction rule: rtranclp_induct) (auto intro: store_inv_open store_step_inv)

end
