(* ===== verification/Zone_Store.thy ===== *)
theory Zone_Store
  imports Packet_Store
begin

text \<open>
  The zones the DNS server answers from (\<open>iroh-dns-server/src/store.rs\<close>): the cached form of a packet
  (\<open>iroh-dns-server/src/util.rs\<close>), the two caches in front of the packet store, publishing a packet
  and resolving a name. The packet store is the map it refines. The operations are split where they
  wait for the store, the cache lock or the DHT, so that they interleave. The DNS library \<open>hickory\<close>,
  the cache containers and the DHT are parameters. Lemmas: operations that run one after the other
  keep the caches coherent with the store, and interleaved ones do not.
\<close>

section \<open>Zones\<close>

datatype record_type = RT_SOA | RT_NS | RT_Other nat

record hk_record =
  hk_name :: "string list"
  hk_type :: record_type
  hk_data :: bytes

type_synonym rr_key = "string list \<times> record_type"
type_synonym record_set = "hk_record list"

record hickory =
  hk_message :: "bytes \<Rightarrow> hk_record list option"
  hk_label :: "string \<Rightarrow> string option"
  hk_name_ok :: "string list \<Rightarrow> bool"
  rset_insert :: "hk_record \<Rightarrow> record_set \<Rightarrow> record_set"

record cached_zone =
  cz_timestamp :: timestamp
  cz_records :: "(rr_key \<times> record_set) list"

text \<open>
  The records of a packet under the zone of its key, without that label; \<open>None\<close> is an error of the
  DNS library. SOA and NS records and foreign names are left out.
\<close>

fun zone_records ::
  "hickory \<Rightarrow> string \<Rightarrow> hk_record list \<Rightarrow> (rr_key \<times> record_set) list \<Rightarrow> (rr_key \<times> record_set) list option" where
  "zone_records K common_zone [] output = Some output"
| "zone_records K common_zone (r # rs) output =
     (if hk_type r = RT_SOA \<or> hk_type r = RT_NS then zone_records K common_zone rs output
      else if length (hk_name r) < 1 then zone_records K common_zone rs output
      else
        (case hk_label K (last (hk_name r)) of
           None \<Rightarrow> None
         | Some zone \<Rightarrow>
            (if zone \<noteq> common_zone then zone_records K common_zone rs output
             else if \<not> hk_name_ok K (butlast (hk_name r)) then None
             else
               (let record = r\<lparr>hk_name := butlast (hk_name r)\<rparr>; key = (hk_name record, hk_type record) in
                zone_records K common_zone rs
                  (case map_of output key of
                     None \<Rightarrow> al_update key [record] output
                   | Some records \<Rightarrow> al_update key (rset_insert K record records) output)))))"

text \<open>The outer \<open>None\<close> is the panic of \<open>public_key\<close> on a packet without a valid key.\<close>

definition zone_from_signed_packet ::
  "ed25519 \<Rightarrow> text_encodings \<Rightarrow> hickory \<Rightarrow> signed_packet \<Rightarrow> (unit + cached_zone) option" where
  "zone_from_signed_packet C T K p =
     map_option (\<lambda>k.
       and_then (ok_or () (hk_label K (public_key_to_z32 T k))) (\<lambda>common_zone.
       and_then (ok_or () (hk_message K (encoded_packet p))) (\<lambda>answers.
       and_then (ok_or () (zone_records K common_zone answers [])) (\<lambda>records.
         Inr \<lparr>cz_timestamp = packet_timestamp p, cz_records = records\<rparr>))))
       (packet_public_key C p)"

definition zone_is_newer_than :: "cached_zone \<Rightarrow> signed_packet \<Rightarrow> bool" where
  "zone_is_newer_than z p \<longleftrightarrow> cz_timestamp z > packet_timestamp p"

definition zone_lookup :: "cached_zone \<Rightarrow> rr_key \<Rightarrow> record_set option" where
  "zone_lookup z q = map_of (cz_records z) q"

section \<open>Caches\<close>

record 'c cache_lib =
  ca_new :: 'c
  ca_get :: "'c \<Rightarrow> bytes \<Rightarrow> cached_zone option \<times> 'c"
  ca_peek :: "'c \<Rightarrow> bytes \<Rightarrow> cached_zone option"
  ca_put :: "'c \<Rightarrow> bytes \<Rightarrow> cached_zone \<Rightarrow> 'c"
  ca_remove :: "'c \<Rightarrow> bytes \<Rightarrow> 'c"

text \<open>
  Documented behaviour of \<open>lru::LruCache\<close> and \<open>ttl_cache::TtlCache\<close>: a new cache is empty, a lookup
  returns what is held and changes only the order of use, an insertion is held and may drop other
  entries, a removal removes exactly one entry.
\<close>

definition cache_lib_ok :: "'c cache_lib \<Rightarrow> bool" where
  "cache_lib_ok L \<longleftrightarrow>
     (\<forall>k. ca_peek L (ca_new L) k = None) \<and>
     (\<forall>c k. fst (ca_get L c k) = ca_peek L c k) \<and>
     (\<forall>c k l. ca_peek L (snd (ca_get L c k)) l = ca_peek L c l) \<and>
     (\<forall>c k z. ca_peek L (ca_put L c k z) k = Some z) \<and>
     (\<forall>c k z l. l \<noteq> k \<longrightarrow> ca_peek L (ca_put L c k z) l \<in> {None, ca_peek L c l}) \<and>
     (\<forall>c k l. ca_peek L (ca_remove L c k) l = (if l = k then None else ca_peek L c l))"

record 'c zone_cache =
  zc_cache :: 'c
  zc_dht_cache :: 'c

definition cache_resolve :: "'c cache_lib \<Rightarrow> bytes \<Rightarrow> rr_key \<Rightarrow> 'c zone_cache \<Rightarrow> record_set option \<times> 'c zone_cache" where
  "cache_resolve L pubkey q z =
     (case ca_get L (zc_cache z) pubkey of
        (Some zone, c) \<Rightarrow> (zone_lookup zone q, z\<lparr>zc_cache := c\<rparr>)
      | (None, c) \<Rightarrow>
         (case ca_get L (zc_dht_cache z) pubkey of
            (Some zone, d) \<Rightarrow> (zone_lookup zone q, z\<lparr>zc_cache := c, zc_dht_cache := d\<rparr>)
          | (None, d) \<Rightarrow> (None, z\<lparr>zc_cache := c, zc_dht_cache := d\<rparr>)))"

record 'c zone_env =
  ze_ed :: ed25519
  ze_text :: text_encodings
  ze_hickory :: hickory
  ze_cache :: "'c cache_lib"
  ze_dns :: dns_lib

abbreviation zone_of :: "'c zone_env \<Rightarrow> signed_packet \<Rightarrow> (unit + cached_zone) option" where
  "zone_of E p \<equiv> zone_from_signed_packet (ze_ed E) (ze_text E) (ze_hickory E) p"

definition cache_insert :: "'c zone_env \<Rightarrow> signed_packet \<Rightarrow> 'c zone_cache \<Rightarrow> (unit + 'c zone_cache) option" where
  "cache_insert E p z =
     (case packet_public_key (ze_ed E) p of
        None \<Rightarrow> None
      | Some pubkey \<Rightarrow>
         (case ca_peek (ze_cache E) (zc_cache z) pubkey of
            Some old \<Rightarrow>
              (if zone_is_newer_than old p then Some (Inr z)
               else map_option (\<lambda>r. and_then r (\<lambda>zone. Inr (z\<lparr>zc_cache := ca_put (ze_cache E) (zc_cache z) pubkey zone\<rparr>)))
                 (zone_of E p))
          | None \<Rightarrow>
              map_option (\<lambda>r. and_then r (\<lambda>zone. Inr (z\<lparr>zc_cache := ca_put (ze_cache E) (zc_cache z) pubkey zone\<rparr>)))
                (zone_of E p)))"

definition cache_insert_and_resolve ::
  "'c zone_env \<Rightarrow> signed_packet \<Rightarrow> rr_key \<Rightarrow> 'c zone_cache \<Rightarrow> ((unit + record_set option) \<times> 'c zone_cache) option" where
  "cache_insert_and_resolve E p q z =
     (case packet_public_key (ze_ed E) p of
        None \<Rightarrow> None
      | Some pubkey \<Rightarrow>
         (case cache_insert E p z of
            None \<Rightarrow> None
          | Some (Inl e) \<Rightarrow> Some (Inl e, z)
          | Some (Inr z1) \<Rightarrow> (case cache_resolve (ze_cache E) pubkey q z1 of (r, z2) \<Rightarrow> Some (Inr r, z2))))"

definition cache_insert_and_resolve_dht ::
  "'c zone_env \<Rightarrow> signed_packet \<Rightarrow> rr_key \<Rightarrow> 'c zone_cache \<Rightarrow> ((unit + record_set option) \<times> 'c zone_cache) option" where
  "cache_insert_and_resolve_dht E p q z =
     (case packet_public_key (ze_ed E) p of
        None \<Rightarrow> None
      | Some pubkey \<Rightarrow>
         (case zone_of E p of
            None \<Rightarrow> None
          | Some (Inl e) \<Rightarrow> Some (Inl e, z)
          | Some (Inr zone) \<Rightarrow>
              Some (Inr (zone_lookup zone q), z\<lparr>zc_dht_cache := ca_put (ze_cache E) (zc_dht_cache z) pubkey zone\<rparr>)))"

definition cache_remove :: "'c cache_lib \<Rightarrow> bytes \<Rightarrow> 'c zone_cache \<Rightarrow> 'c zone_cache" where
  "cache_remove L pubkey z =
     z\<lparr>zc_cache := ca_remove L (zc_cache z) pubkey, zc_dht_cache := ca_remove L (zc_dht_cache z) pubkey\<rparr>"

section \<open>The zone store\<close>

record mutable_item =
  mi_key :: bytes
  mi_signature :: bytes
  mi_seq :: u64
  mi_value :: bytes

definition mutable_item_to_signed_packet :: "dns_lib \<Rightarrow> mutable_item \<Rightarrow> verify_error + signed_packet" where
  "mutable_item_to_signed_packet D item =
     from_parts_unchecked D (mi_key item) (mi_signature item) (mi_seq item) (mi_value item)"

record 'c zone_state =
  zs_store :: "bytes \<Rightarrow> signed_packet option"
  zs_cache :: "'c zone_cache"
  zs_updates :: nat
  zs_noops :: nat

text \<open>
  An operation in progress, at the point where it waits. \<open>Resolved\<close> and \<open>Inserted\<close> are its results;
  \<open>Panicked\<close> is a panic of \<open>public_key\<close>. The DHT, where one is configured, is what it finds for the key.
\<close>

datatype zone_op =
  Resolve_Cache bytes rr_key
| Resolve_Store bytes rr_key
| Resolve_Found signed_packet rr_key
| Resolve_Dht bytes rr_key
| Resolve_Dht_Found signed_packet rr_key
| Insert_Store signed_packet
| Insert_Cache bytes
| Resolved "unit + record_set option"
| Inserted bool
| Panicked

definition found_result ::
  "((unit + record_set option) \<times> 'c zone_cache) option \<Rightarrow> 'c zone_state \<Rightarrow> zone_op \<times> 'c zone_state" where
  "found_result r s = (case r of None \<Rightarrow> (Panicked, s) | Some (x, z) \<Rightarrow> (Resolved x, s\<lparr>zs_cache := z\<rparr>))"

definition zone_advance ::
  "'c zone_env \<Rightarrow> (bytes \<Rightarrow> mutable_item option) option \<Rightarrow> zone_op \<Rightarrow> 'c zone_state \<Rightarrow> zone_op \<times> 'c zone_state" where
  "zone_advance E dht op s =
     (case op of
        Resolve_Cache pubkey q \<Rightarrow>
          (case cache_resolve (ze_cache E) pubkey q (zs_cache s) of
             (Some rset, z) \<Rightarrow> (Resolved (Inr (Some rset)), s\<lparr>zs_cache := z\<rparr>)
           | (None, z) \<Rightarrow> (Resolve_Store pubkey q, s\<lparr>zs_cache := z\<rparr>))
      | Resolve_Store pubkey q \<Rightarrow>
          (case zs_store s pubkey of
             Some packet \<Rightarrow> (Resolve_Found packet q, s)
           | None \<Rightarrow> (case dht of Some _ \<Rightarrow> (Resolve_Dht pubkey q, s) | None \<Rightarrow> (Resolved (Inr None), s)))
      | Resolve_Found packet q \<Rightarrow> found_result (cache_insert_and_resolve E packet q (zs_cache s)) s
      | Resolve_Dht pubkey q \<Rightarrow>
          (case Option.bind dht (\<lambda>get. get pubkey) of
             None \<Rightarrow> (Resolved (Inr None), s)
           | Some item \<Rightarrow>
              (case mutable_item_to_signed_packet (ze_dns E) item of
                 Inl _ \<Rightarrow> (Resolved (Inr None), s)
               | Inr packet \<Rightarrow> (Resolve_Dht_Found packet q, s)))
      | Resolve_Dht_Found packet q \<Rightarrow> found_result (cache_insert_and_resolve_dht E packet q (zs_cache s)) s
      | Insert_Store p \<Rightarrow>
          (case packet_public_key (ze_ed E) p of
             None \<Rightarrow> (Panicked, s)
           | Some pubkey \<Rightarrow>
              (case zs_store s pubkey of
                 Some q \<Rightarrow>
                   (if more_recent_than q p then (Inserted False, s\<lparr>zs_noops := zs_noops s + 1\<rparr>)
                    else (Insert_Cache pubkey, s\<lparr>zs_store := (zs_store s)(pubkey \<mapsto> p), zs_updates := zs_updates s + 1\<rparr>))
               | None \<Rightarrow>
                   (Insert_Cache pubkey, s\<lparr>zs_store := (zs_store s)(pubkey \<mapsto> p), zs_updates := zs_updates s + 1\<rparr>)))
      | Insert_Cache pubkey \<Rightarrow> (Inserted True, s\<lparr>zs_cache := cache_remove (ze_cache E) pubkey (zs_cache s)\<rparr>)
      | _ \<Rightarrow> (op, s))"

fun op_done :: "zone_op \<Rightarrow> bool" where
  "op_done (Resolved _) = True"
| "op_done (Inserted _) = True"
| "op_done Panicked = True"
| "op_done _ = False"

text \<open>A call that runs without interruption; every operation is done after at most five parts.\<close>

fun zone_run :: "nat \<Rightarrow> 'c zone_env \<Rightarrow> (bytes \<Rightarrow> mutable_item option) option \<Rightarrow> zone_op \<Rightarrow> 'c zone_state \<Rightarrow> zone_op \<times> 'c zone_state" where
  "zone_run 0 E dht op s = (op, s)"
| "zone_run (Suc n) E dht op s =
     (if op_done op then (op, s) else case zone_advance E dht op s of (op', s') \<Rightarrow> zone_run n E dht op' s')"

definition zone_resolve ::
  "'c zone_env \<Rightarrow> (bytes \<Rightarrow> mutable_item option) option \<Rightarrow> bytes \<Rightarrow> rr_key \<Rightarrow> 'c zone_state \<Rightarrow> zone_op \<times> 'c zone_state" where
  "zone_resolve E dht pubkey q s = zone_run 5 E dht (Resolve_Cache pubkey q) s"

definition zone_insert :: "'c zone_env \<Rightarrow> signed_packet \<Rightarrow> 'c zone_state \<Rightarrow> zone_op \<times> 'c zone_state" where
  "zone_insert E p s = zone_run 5 E None (Insert_Store p) s"

definition zone_store_new :: "'c zone_env \<Rightarrow> 'c zone_state" where
  "zone_store_new E = \<lparr>zs_store = (\<lambda>_. None), zs_cache = \<lparr>zc_cache = ca_new (ze_cache E), zc_dht_cache = ca_new (ze_cache E)\<rparr>,
     zs_updates = 0, zs_noops = 0\<rparr>"

text \<open>
  The server at work: calls in progress side by side, each advancing by one part at a time; between
  them packets expire in the store and entries expire in the DHT cache.
\<close>

record 'c zone_system =
  sys_state :: "'c zone_state"
  sys_ops :: "zone_op list"

inductive zone_step ::
  "'c zone_env \<Rightarrow> (bytes \<Rightarrow> mutable_item option) option \<Rightarrow> 'c zone_system \<Rightarrow> 'c zone_system \<Rightarrow> bool"
  for E dht where
  zn_resolve: "zone_step E dht y (y\<lparr>sys_ops := sys_ops y @ [Resolve_Cache pubkey q]\<rparr>)"
| zn_insert: "packet_from_bytes (ze_ed E) (ze_dns E) p = Some (Inr p) \<Longrightarrow>
     zone_step E dht y (y\<lparr>sys_ops := sys_ops y @ [Insert_Store p]\<rparr>)"
| zn_advance: "i < length (sys_ops y) \<Longrightarrow> \<not> op_done (sys_ops y ! i) \<Longrightarrow>
     zone_advance E dht (sys_ops y ! i) (sys_state y) = (op, s) \<Longrightarrow>
     zone_step E dht y \<lparr>sys_state = s, sys_ops = (sys_ops y)[i := op]\<rparr>"
| zn_expire: "zone_step E dht y (y\<lparr>sys_state := (sys_state y)\<lparr>zs_store := (zs_store (sys_state y))(k := None)\<rparr>\<rparr>)"
| zn_dht_expire: "zone_step E dht y (y\<lparr>sys_state := (sys_state y)\<lparr>zs_cache := (zs_cache (sys_state y))
       \<lparr>zc_dht_cache := ca_remove (ze_cache E) (zc_dht_cache (zs_cache (sys_state y))) k\<rparr>\<rparr>\<rparr>)"

section \<open>Calls one after the other\<close>

datatype zone_call =
  Call_Resolve bytes rr_key
| Call_Insert signed_packet
| Call_Expire bytes
| Call_Dht_Expire bytes

definition zone_call_effect ::
  "'c zone_env \<Rightarrow> (bytes \<Rightarrow> mutable_item option) option \<Rightarrow> zone_call \<Rightarrow> 'c zone_state \<Rightarrow> 'c zone_state" where
  "zone_call_effect E dht call s =
     (case call of
        Call_Resolve pubkey q \<Rightarrow> snd (zone_resolve E dht pubkey q s)
      | Call_Insert p \<Rightarrow> snd (zone_insert E p s)
      | Call_Expire k \<Rightarrow> s\<lparr>zs_store := (zs_store s)(k := None)\<rparr>
      | Call_Dht_Expire k \<Rightarrow> s\<lparr>zs_cache := (zs_cache s)\<lparr>zc_dht_cache := ca_remove (ze_cache E) (zc_dht_cache (zs_cache s)) k\<rparr>\<rparr>)"

definition call_ok :: "'c zone_env \<Rightarrow> zone_call \<Rightarrow> bool" where
  "call_ok E call \<longleftrightarrow> (case call of Call_Insert p \<Rightarrow> packet_ok (ze_ed E) (ze_dns E) p | _ \<Rightarrow> True)"

text \<open>A DHT answers with an item of the key that was asked for.\<close>

definition dht_ok :: "(bytes \<Rightarrow> mutable_item option) option \<Rightarrow> bool" where
  "dht_ok dht \<longleftrightarrow> (\<forall>get k item. dht = Some get \<longrightarrow> get k = Some item \<longrightarrow> mi_key item = k \<and> length (mi_key item) = 32 \<and>
     length (mi_signature item) = 64)"

definition zone_env_ok :: "'c zone_env \<Rightarrow> bool" where
  "zone_env_ok E \<longleftrightarrow> ed25519_ok (ze_ed E) \<and> cache_lib_ok (ze_cache E)"

definition coherent :: "'c zone_env \<Rightarrow> 'c zone_state \<Rightarrow> bool" where
  "coherent E s \<longleftrightarrow>
     (\<forall>k p. zs_store s k = Some p \<longrightarrow> packet_ok (ze_ed E) (ze_dns E) p \<and> take 32 p = k) \<and>
     (\<forall>k z p. ca_peek (ze_cache E) (zc_cache (zs_cache s)) k = Some z \<longrightarrow> zs_store s k = Some p \<longrightarrow> zone_of E p = Some (Inr z)) \<and>
     (\<forall>k z. ca_peek (ze_cache E) (zc_dht_cache (zs_cache s)) k = Some z \<longrightarrow> zs_store s k = None)"

lemma cache_libD:
  assumes "cache_lib_ok L"
  shows "ca_peek L (ca_new L) k = None" "fst (ca_get L c k) = ca_peek L c k"
    "ca_peek L (snd (ca_get L c k)) l = ca_peek L c l" "ca_peek L (ca_put L c k z) k = Some z"
    "ca_peek L (ca_put L c k z) l = Some y \<Longrightarrow> l \<noteq> k \<Longrightarrow> ca_peek L c l = Some y"
    "ca_peek L (ca_remove L c k) l = (if l = k then None else ca_peek L c l)"
proof -
  show "ca_peek L c l = Some y" if "ca_peek L (ca_put L c k z) l = Some y" "l \<noteq> k"
  proof -
    have "ca_peek L (ca_put L c k z) l \<in> {None, ca_peek L c l}" using assms that(2) unfolding cache_lib_ok_def by blast
    then show ?thesis using that(1) by auto
  qed
qed (use assms in \<open>simp_all add: cache_lib_ok_def\<close>)

lemma cache_resolve_result:
  assumes "cache_lib_ok L"
  shows "fst (cache_resolve L k q z) =
      (case ca_peek L (zc_cache z) k of
         Some zone \<Rightarrow> zone_lookup zone q
       | None \<Rightarrow> (case ca_peek L (zc_dht_cache z) k of Some zone \<Rightarrow> zone_lookup zone q | None \<Rightarrow> None))"
    "ca_peek L (zc_cache (snd (cache_resolve L k q z))) l = ca_peek L (zc_cache z) l"
    "ca_peek L (zc_dht_cache (snd (cache_resolve L k q z))) l = ca_peek L (zc_dht_cache z) l"
  using cache_libD(2,3) [OF assms, of "zc_cache z" k] cache_libD(2,3) [OF assms, of "zc_dht_cache z" k]
  by (auto simp: cache_resolve_def split: prod.splits option.splits)

text \<open>States with the same store and the same visible cache contents.\<close>

definition same_view :: "'c zone_env \<Rightarrow> 'c zone_state \<Rightarrow> 'c zone_state \<Rightarrow> bool" where
  "same_view E s t \<longleftrightarrow> zs_store t = zs_store s \<and>
     (\<forall>k. ca_peek (ze_cache E) (zc_cache (zs_cache t)) k = ca_peek (ze_cache E) (zc_cache (zs_cache s)) k \<and>
          ca_peek (ze_cache E) (zc_dht_cache (zs_cache t)) k = ca_peek (ze_cache E) (zc_dht_cache (zs_cache s)) k)"

lemma coherent_view: "coherent E s \<Longrightarrow> same_view E s t \<Longrightarrow> coherent E t"
  by (simp add: coherent_def same_view_def)

lemma same_view_cache:
  assumes "cache_lib_ok (ze_cache E)"
  shows "same_view E s (s\<lparr>zs_cache := snd (cache_resolve (ze_cache E) k q (zs_cache s))\<rparr>)"
  using cache_resolve_result(2,3) [OF assms] by (simp add: same_view_def)

lemma cache_insert_result:
  assumes E: "zone_env_ok E" and s: "coherent E s" and p: "zs_store s k = Some p"
  shows "packet_public_key (ze_ed E) p = Some k"
    "zone_of E p = Some (Inl e) \<Longrightarrow> cache_insert E p (zs_cache s) = Some (Inl ()) \<and> ca_peek (ze_cache E) (zc_cache (zs_cache s)) k = None"
    "zone_of E p = Some (Inr z) \<Longrightarrow> \<exists>c. cache_insert E p (zs_cache s) = Some (Inr ((zs_cache s)\<lparr>zc_cache := c\<rparr>)) \<and>
       ca_peek (ze_cache E) c k = Some z \<and>
       (\<forall>l y. l \<noteq> k \<longrightarrow> ca_peek (ze_cache E) c l = Some y \<longrightarrow> ca_peek (ze_cache E) (zc_cache (zs_cache s)) l = Some y)"
proof -
  have L: "cache_lib_ok (ze_cache E)" and C: "ed25519_ok (ze_ed E)" using E by (simp_all add: zone_env_ok_def)
  have pk: "packet_ok (ze_ed E) (ze_dns E) p" "take 32 p = k"
    and cz: "ca_peek (ze_cache E) (zc_cache (zs_cache s)) k = Some y \<Longrightarrow> zone_of E p = Some (Inr y)" for y
    using s p unfolding coherent_def by blast+
  show key: "packet_public_key (ze_ed E) p = Some k" using packet_okD(1) [OF C pk(1)] pk(2) by simp
  show "cache_insert E p (zs_cache s) = Some (Inl ()) \<and> ca_peek (ze_cache E) (zc_cache (zs_cache s)) k = None"
    if "zone_of E p = Some (Inl e)"
    using that cz by (cases "ca_peek (ze_cache E) (zc_cache (zs_cache s)) k") (auto simp: cache_insert_def key)
  show "\<exists>c. cache_insert E p (zs_cache s) = Some (Inr ((zs_cache s)\<lparr>zc_cache := c\<rparr>)) \<and> ca_peek (ze_cache E) c k = Some z \<and>
      (\<forall>l y. l \<noteq> k \<longrightarrow> ca_peek (ze_cache E) c l = Some y \<longrightarrow> ca_peek (ze_cache E) (zc_cache (zs_cache s)) l = Some y)"
    if z: "zone_of E p = Some (Inr z)"
  proof (cases "\<exists>old. ca_peek (ze_cache E) (zc_cache (zs_cache s)) k = Some old \<and> zone_is_newer_than old p")
    case True
    then have "ca_peek (ze_cache E) (zc_cache (zs_cache s)) k = Some z" using cz z by auto
    then show ?thesis using True by (intro exI [of _ "zc_cache (zs_cache s)"]) (simp add: cache_insert_def key)
  next
    case False
    then have "cache_insert E p (zs_cache s) = Some (Inr ((zs_cache s)\<lparr>zc_cache := ca_put (ze_cache E) (zc_cache (zs_cache s)) k z\<rparr>))"
      using z by (auto simp: cache_insert_def key split: option.splits)
    then show ?thesis using cache_libD(4,5) [OF L] by blast
  qed
qed

definition resolve_answer :: "'c zone_env \<Rightarrow> signed_packet \<Rightarrow> rr_key \<Rightarrow> unit + record_set option" where
  "resolve_answer E p q = (case zone_of E p of Some (Inr z) \<Rightarrow> Inr (zone_lookup z q) | _ \<Rightarrow> Inl ())"

lemma advance_found:
  assumes E: "zone_env_ok E" and s: "coherent E s" and p: "zs_store s k = Some p"
  shows "\<exists>t. zone_advance E dht (Resolve_Found p q) s = (Resolved (resolve_answer E p q), t) \<and> coherent E t \<and> zs_store t = zs_store s"
proof -
  have L: "cache_lib_ok (ze_cache E)" using E by (simp add: zone_env_ok_def)
  note ins = cache_insert_result [OF E s p]
  have "zone_of E p \<noteq> None" using ins(1) by (simp add: zone_from_signed_packet_def)
  then consider (err) e where "zone_of E p = Some (Inl e)" | (ok) z where "zone_of E p = Some (Inr z)"
    by (cases "zone_of E p"; cases "the (zone_of E p)") auto
  then show ?thesis
  proof cases
    case err
    have "zone_advance E dht (Resolve_Found p q) s = (Resolved (resolve_answer E p q), s\<lparr>zs_cache := zs_cache s\<rparr>)"
      using ins(2) [OF err] err ins(1)
      by (simp add: zone_advance_def cache_insert_and_resolve_def found_result_def resolve_answer_def)
    then show ?thesis using s by auto
  next
    case ok
    then obtain c where c: "cache_insert E p (zs_cache s) = Some (Inr ((zs_cache s)\<lparr>zc_cache := c\<rparr>))"
      "ca_peek (ze_cache E) c k = Some z"
      "\<And>l y. l \<noteq> k \<Longrightarrow> ca_peek (ze_cache E) c l = Some y \<Longrightarrow> ca_peek (ze_cache E) (zc_cache (zs_cache s)) l = Some y"
      using ins(3) by blast
    define s1 where "s1 = s\<lparr>zs_cache := (zs_cache s)\<lparr>zc_cache := c\<rparr>\<rparr>"
    have "zone_of E p' = Some (Inr y)" if "ca_peek (ze_cache E) c l = Some y" "zs_store s l = Some p'" for l y p'
    proof (cases "l = k")
      case True
      then show ?thesis using that c(2) ok p by simp
    next
      case False
      then show ?thesis using that c(3) s unfolding coherent_def by blast
    qed
    then have "coherent E s1" using s unfolding coherent_def s1_def by simp
    then have "coherent E (s1\<lparr>zs_cache := snd (cache_resolve (ze_cache E) k q (zs_cache s1))\<rparr>)"
      by (rule coherent_view) (rule same_view_cache [OF L])
    moreover have "fst (cache_resolve (ze_cache E) k q (zs_cache s1)) = zone_lookup z q"
      using cache_resolve_result(1) [OF L, of k q "zs_cache s1"] c(2) by (simp add: s1_def)
    moreover have "zone_advance E dht (Resolve_Found p q) s =
        (Resolved (Inr (fst (cache_resolve (ze_cache E) k q (zs_cache s1)))),
         s1\<lparr>zs_cache := snd (cache_resolve (ze_cache E) k q (zs_cache s1))\<rparr>)"
      using c(1) ins(1)
      by (simp add: zone_advance_def cache_insert_and_resolve_def found_result_def s1_def case_prod_beta)
    ultimately show ?thesis using ok by (simp add: resolve_answer_def s1_def)
  qed
qed

lemma advance_dht_found:
  assumes E: "zone_env_ok E" and s: "coherent E s"
    and p: "\<And>k. packet_public_key (ze_ed E) p = Some k \<Longrightarrow> zs_store s k = None"
    and adv: "zone_advance E dht (Resolve_Dht_Found p q) s = (op, t)"
  shows "op_done op" "coherent E t" "zs_store t = zs_store s"
proof -
  have L: "cache_lib_ok (ze_cache E)" using E by (simp add: zone_env_ok_def)
  have put: "coherent E (s\<lparr>zs_cache := (zs_cache s)\<lparr>zc_dht_cache := ca_put (ze_cache E) (zc_dht_cache (zs_cache s)) k z\<rparr>\<rparr>)"
    if "zs_store s k = None" for k z
  proof -
    have "zs_store s l = None" if "ca_peek (ze_cache E) (ca_put (ze_cache E) (zc_dht_cache (zs_cache s)) k z) l = Some y" for l y
      using that s cache_libD(5) [OF L, of "zc_dht_cache (zs_cache s)" k z l y] \<open>zs_store s k = None\<close>
      unfolding coherent_def by (cases "l = k") auto
    then show ?thesis using s unfolding coherent_def by auto
  qed
  show "op_done op" "coherent E t" "zs_store t = zs_store s"
    using adv s p put
    by (auto simp: zone_advance_def found_result_def cache_insert_and_resolve_dht_def split: option.splits sum.splits)
qed

lemma zone_run_done [simp]: "op_done op \<Longrightarrow> zone_run n E dht op s = (op, s)"
  by (cases n) simp_all

lemma zone_run_5:
  "zone_run 5 E dht op s = (if op_done op then (op, s) else case zone_advance E dht op s of (op1, s1) \<Rightarrow> zone_run 4 E dht op1 s1)"
  "zone_run 4 E dht op s = (if op_done op then (op, s) else case zone_advance E dht op s of (op1, s1) \<Rightarrow> zone_run 3 E dht op1 s1)"
  "zone_run 3 E dht op s = (if op_done op then (op, s) else case zone_advance E dht op s of (op1, s1) \<Rightarrow> zone_run 2 E dht op1 s1)"
  "zone_run 2 E dht op s = (if op_done op then (op, s) else case zone_advance E dht op s of (op1, s1) \<Rightarrow> zone_run 1 E dht op1 s1)"
  using zone_run.simps(2) [of 4 E dht op s] zone_run.simps(2) [of 3 E dht op s] zone_run.simps(2) [of 2 E dht op s]
    zone_run.simps(2) [of 1 E dht op s]
  by (simp_all only: Suc_numeral Suc_1 semiring_norm)

lemma zone_insert_result:
  assumes E: "zone_env_ok E" and s: "coherent E s" and p: "packet_ok (ze_ed E) (ze_dns E) p"
  shows "fst (zone_insert E p s) = Inserted (\<not> (\<exists>q. zs_store s (take 32 p) = Some q \<and> more_recent_than q p))"
    "coherent E (snd (zone_insert E p s))"
    "zs_store (snd (zone_insert E p s)) = spec_handle opts now (Upsert p) (zs_store s)"
proof -
  have L: "cache_lib_ok (ze_cache E)" and C: "ed25519_ok (ze_ed E)" using E by (simp_all add: zone_env_ok_def)
  define k where "k = take 32 p"
  have key: "packet_public_key (ze_ed E) p = Some k" using packet_okD(1) [OF C p] by (simp add: k_def)
  define t where "t = s\<lparr>zs_store := (zs_store s)(k \<mapsto> p), zs_updates := zs_updates s + 1,
      zs_cache := cache_remove (ze_cache E) k (zs_cache s)\<rparr>"
  have t: "coherent E t"
    using s p cache_libD(6) [OF L] by (auto simp: coherent_def t_def cache_remove_def k_def split: if_splits)
  have res: "zone_insert E p s =
      (if \<exists>q. zs_store s k = Some q \<and> more_recent_than q p then (Inserted False, s\<lparr>zs_noops := zs_noops s + 1\<rparr>) else (Inserted True, t))"
    by (cases "zs_store s k") (auto simp: zone_insert_def zone_run_5 zone_advance_def key t_def)
  show "fst (zone_insert E p s) = Inserted (\<not> (\<exists>q. zs_store s (take 32 p) = Some q \<and> more_recent_than q p))"
    unfolding res k_def [symmetric] by simp
  show "coherent E (snd (zone_insert E p s))"
    using t s unfolding res by (simp add: coherent_def)
  show "zs_store (snd (zone_insert E p s)) = spec_handle opts now (Upsert p) (zs_store s)"
    unfolding res spec_handle_def by (auto simp: t_def k_def split: option.splits)
qed

lemma resolve_dht_result:
  assumes E: "zone_env_ok E" and dht: "dht_ok dht" and s: "coherent E s" and none: "zs_store s k = None"
  shows "op_done (fst (zone_run 3 E dht (Resolve_Dht k q) s)) \<and> coherent E (snd (zone_run 3 E dht (Resolve_Dht k q) s)) \<and>
    zs_store (snd (zone_run 3 E dht (Resolve_Dht k q) s)) = zs_store s"
proof (cases "\<exists>item p. Option.bind dht (\<lambda>get. get k) = Some item \<and> mutable_item_to_signed_packet (ze_dns E) item = Inr p")
  case False
  then have "zone_advance E dht (Resolve_Dht k q) s = (Resolved (Inr None), s)"
    by (auto simp: zone_advance_def split: option.splits sum.splits)
  then show ?thesis using s by (simp add: zone_run_5)
next
  case True
  then obtain item p where p: "Option.bind dht (\<lambda>get. get k) = Some item" "mutable_item_to_signed_packet (ze_dns E) item = Inr p"
    by blast
  then have "zone_advance E dht (Resolve_Dht k q) s = (Resolve_Dht_Found p q, s)" by (simp add: zone_advance_def)
  moreover obtain op t where t: "zone_advance E dht (Resolve_Dht_Found p q) s = (op, t)" by fastforce
  moreover have "zs_store s l = None" if l: "packet_public_key (ze_ed E) p = Some l" for l
  proof -
    have item: "mi_key item = k" "length (mi_key item) = 32"
      using p(1) dht unfolding dht_ok_def by (auto simp: bind_eq_Some_conv)
    then have "take 32 p = k"
      using p(2) by (auto simp: mutable_item_to_signed_packet_def from_parts_unchecked_def from_bytes_unchecked_def split: if_splits)
    then have "l = k"
      using l public_key_try_from_InrD [of "ze_ed E" k l] E by (auto simp: packet_public_key_def zone_env_ok_def split: sum.splits)
    then show ?thesis using none by simp
  qed
  ultimately show ?thesis using advance_dht_found [OF E s _ t] by (simp add: zone_run_5)
qed

lemma zone_resolve_result:
  assumes E: "zone_env_ok E" and dht: "dht_ok dht" and s: "coherent E s"
  shows "op_done (fst (zone_resolve E dht k q s))" "coherent E (snd (zone_resolve E dht k q s))"
    "zs_store (snd (zone_resolve E dht k q s)) = zs_store s"
    "zs_store s k = Some p \<Longrightarrow> fst (zone_resolve E dht k q s) = Resolved (resolve_answer E p q)"
proof -
  have L: "cache_lib_ok (ze_cache E)" using E by (simp add: zone_env_ok_def)
  define s1 where "s1 = s\<lparr>zs_cache := snd (cache_resolve (ze_cache E) k q (zs_cache s))\<rparr>"
  have s1: "coherent E s1" "zs_store s1 = zs_store s"
    using coherent_view [OF s same_view_cache [OF L]] by (simp_all add: s1_def)
  let ?P = "\<lambda>r. op_done (fst r) \<and> coherent E (snd r) \<and> zs_store (snd r) = zs_store s \<and>
      (\<forall>p. zs_store s k = Some p \<longrightarrow> fst r = Resolved (resolve_answer E p q))"
  have "?P (zone_run 5 E dht (Resolve_Cache k q) s)"
  proof (cases "fst (cache_resolve (ze_cache E) k q (zs_cache s))")
    case (Some rs)
    have "resolve_answer E p q = Inr (Some rs)" if "zs_store s k = Some p" for p
      using Some that s cache_resolve_result(1) [OF L, of k q "zs_cache s"]
      unfolding coherent_def resolve_answer_def by (fastforce split: option.splits)
    moreover have "zone_run 5 E dht (Resolve_Cache k q) s = (Resolved (Inr (Some rs)), s1)"
      using Some by (simp add: zone_run_5 zone_advance_def s1_def case_prod_beta)
    ultimately show ?thesis using s1 by simp
  next
    case None
    have a1: "zone_run 5 E dht (Resolve_Cache k q) s = zone_run 4 E dht (Resolve_Store k q) s1"
      using None by (subst zone_run_5) (simp add: zone_advance_def s1_def case_prod_beta)
    show ?thesis
    proof (cases "zs_store s k")
      case (Some p)
      then obtain t where t: "zone_advance E dht (Resolve_Found p q) s1 = (Resolved (resolve_answer E p q), t)"
        "coherent E t" "zs_store t = zs_store s1"
        using advance_found [OF E s1(1), of k p dht q] s1(2) by auto
      have "zone_advance E dht (Resolve_Store k q) s1 = (Resolve_Found p q, s1)"
        using Some s1(2) by (simp add: zone_advance_def)
      then show ?thesis unfolding a1 using t s1 Some by (simp add: zone_run_5)
    next
      case none: None
      have a2: "zone_advance E dht (Resolve_Store k q) s1 =
          (if dht = None then (Resolved (Inr None), s1) else (Resolve_Dht k q, s1))"
        using none s1(2) by (auto simp: zone_advance_def split: option.splits)
      show ?thesis
        unfolding a1 using a2 s1 none resolve_dht_result [OF E dht s1(1), of k q] by (simp add: zone_run_5(2))
    qed
  qed
  then show "op_done (fst (zone_resolve E dht k q s))" "coherent E (snd (zone_resolve E dht k q s))"
    "zs_store (snd (zone_resolve E dht k q s)) = zs_store s"
    "zs_store s k = Some p \<Longrightarrow> fst (zone_resolve E dht k q s) = Resolved (resolve_answer E p q)"
    by (simp_all add: zone_resolve_def)
qed

lemma coherent_new: "zone_env_ok E \<Longrightarrow> coherent E (zone_store_new E)"
  using cache_libD(1) [of "ze_cache E"] by (simp add: coherent_def zone_store_new_def zone_env_ok_def)

lemma zone_call_coherent:
  assumes "zone_env_ok E" "dht_ok dht" "call_ok E call" "coherent E s"
  shows "coherent E (zone_call_effect E dht call s)"
proof (cases call)
  case (Call_Resolve k q)
  then show ?thesis using zone_resolve_result(2) [OF assms(1,2,4)] by (simp add: zone_call_effect_def)
next
  case (Call_Insert p)
  then show ?thesis using zone_insert_result(2) [OF assms(1,4)] assms(3) by (simp add: zone_call_effect_def call_ok_def)
next
  case (Call_Expire k)
  then show ?thesis using assms(4) by (simp add: zone_call_effect_def coherent_def)
next
  case (Call_Dht_Expire k)
  then show ?thesis
    using assms(1,4) cache_libD(6) [of "ze_cache E"]
    by (auto simp: zone_call_effect_def coherent_def zone_env_ok_def split: if_splits)
qed

lemma zone_calls_coherent:
  assumes "zone_env_ok E" "dht_ok dht" "\<forall>call \<in> set calls. call_ok E call"
  shows "coherent E (fold (zone_call_effect E dht) calls (zone_store_new E))"
proof -
  have "coherent E s \<Longrightarrow> coherent E (fold (zone_call_effect E dht) calls s)" for s
    using assms(3) by (induction calls arbitrary: s) (auto intro: zone_call_coherent [OF assms(1,2)])
  then show ?thesis using coherent_new [OF assms(1)] by blast
qed

section \<open>Interleaved calls\<close>

definition zone_system_new :: "'c zone_env \<Rightarrow> 'c zone_system" where
  "zone_system_new E = \<lparr>sys_state = zone_store_new E, sys_ops = []\<rparr>"

lemma zn_advance_at:
  assumes "ops = pre @ op # post" "\<not> op_done op" "zone_advance E dht op s = (op', s')"
  shows "zone_step E dht \<lparr>sys_state = s, sys_ops = ops\<rparr> \<lparr>sys_state = s', sys_ops = pre @ op' # post\<rparr>"
proof -
  have "zone_step E dht \<lparr>sys_state = s, sys_ops = ops\<rparr> \<lparr>sys_state = s', sys_ops = (sys_ops \<lparr>sys_state = s, sys_ops = ops\<rparr>)[length pre := op']\<rparr>"
    by (rule zn_advance) (use assms in simp_all)
  then show ?thesis using assms(1) by simp
qed

definition published :: "'c zone_env \<Rightarrow> bytes \<Rightarrow> signed_packet \<Rightarrow> 'c zone_state \<Rightarrow> 'c zone_state" where
  "published E k p s = s\<lparr>zs_store := (zs_store s)(k \<mapsto> p), zs_updates := zs_updates s + 1,
     zs_cache := cache_remove (ze_cache E) k (zs_cache s)\<rparr>"

lemma insert_runs:
  assumes "packet_public_key (ze_ed E) p = Some k" "\<And>q. zs_store s k = Some q \<Longrightarrow> \<not> more_recent_than q p"
  shows "(zone_step E dht)\<^sup>*\<^sup>* \<lparr>sys_state = s, sys_ops = pre @ Insert_Store p # post\<rparr>
    \<lparr>sys_state = published E k p s, sys_ops = pre @ Inserted True # post\<rparr>"
proof -
  have "zone_step E dht \<lparr>sys_state = s, sys_ops = pre @ Insert_Store p # post\<rparr>
      \<lparr>sys_state = s\<lparr>zs_store := (zs_store s)(k \<mapsto> p), zs_updates := zs_updates s + 1\<rparr>, sys_ops = pre @ Insert_Cache k # post\<rparr>"
    by (rule zn_advance_at [OF refl]) (use assms in \<open>auto simp: zone_advance_def split: option.splits\<close>)
  moreover have "zone_step E dht
      \<lparr>sys_state = s\<lparr>zs_store := (zs_store s)(k \<mapsto> p), zs_updates := zs_updates s + 1\<rparr>, sys_ops = pre @ Insert_Cache k # post\<rparr>
      \<lparr>sys_state = published E k p s, sys_ops = pre @ Inserted True # post\<rparr>"
    by (rule zn_advance_at [OF refl]) (auto simp: zone_advance_def published_def)
  ultimately show ?thesis by simp
qed

text \<open>
  A resolution that has read the store before a publication and reaches the cache after it leaves
  the superseded zone in the cache.
\<close>

lemma resolve_found_runs:
  assumes L: "cache_lib_ok (ze_cache E)" and pk: "packet_public_key (ze_ed E) p = Some k" and z: "zone_of E p = Some (Inr z)"
    and empty: "ca_peek (ze_cache E) (zc_cache (zs_cache s)) k = None"
  shows "\<exists>r t. zone_step E dht \<lparr>sys_state = s, sys_ops = pre @ Resolve_Found p q # post\<rparr>
      \<lparr>sys_state = t, sys_ops = pre @ Resolved r # post\<rparr> \<and>
    zs_store t = zs_store s \<and> ca_peek (ze_cache E) (zc_cache (zs_cache t)) k = Some z"
proof -
  define c where "c = (zs_cache s)\<lparr>zc_cache := ca_put (ze_cache E) (zc_cache (zs_cache s)) k z\<rparr>"
  define t where "t = s\<lparr>zs_cache := snd (cache_resolve (ze_cache E) k q c)\<rparr>"
  have "cache_insert E p (zs_cache s) = Some (Inr c)" using empty by (simp add: cache_insert_def pk z c_def)
  then have "zone_advance E dht (Resolve_Found p q) s = (Resolved (Inr (fst (cache_resolve (ze_cache E) k q c))), t)"
    by (simp add: zone_advance_def cache_insert_and_resolve_def found_result_def pk t_def case_prod_beta)
  then have "zone_step E dht \<lparr>sys_state = s, sys_ops = pre @ Resolve_Found p q # post\<rparr>
      \<lparr>sys_state = t, sys_ops = pre @ Resolved (Inr (fst (cache_resolve (ze_cache E) k q c))) # post\<rparr>"
    by (intro zn_advance_at [OF refl]) simp_all
  moreover have "ca_peek (ze_cache E) (zc_cache (zs_cache t)) k = Some z" "zs_store t = zs_store s"
    by (simp_all add: t_def cache_resolve_result [OF L] c_def cache_libD [OF L])
  ultimately show ?thesis by blast
qed

lemma zone_cache_stale:
  assumes E: "zone_env_ok E" and ok: "packet_ok (ze_ed E) (ze_dns E) p1" "packet_ok (ze_ed E) (ze_dns E) p2"
    and key: "take 32 p1 = k" "take 32 p2 = k" and newer: "more_recent_than p2 p1" and z1: "zone_of E p1 = Some (Inr z1)"
  shows "\<exists>y. (zone_step E dht)\<^sup>*\<^sup>* (zone_system_new E) y \<and> list_all op_done (sys_ops y) \<and>
    zs_store (sys_state y) k = Some p2 \<and> ca_peek (ze_cache E) (zc_cache (zs_cache (sys_state y))) k = Some z1"
proof -
  have L: "cache_lib_ok (ze_cache E)" and C: "ed25519_ok (ze_ed E)" using E by (simp_all add: zone_env_ok_def)
  have pk: "packet_public_key (ze_ed E) p1 = Some k" "packet_public_key (ze_ed E) p2 = Some k"
    using packet_okD(1) [OF C] ok key by auto
  define q :: rr_key where "q = ([], RT_Other 0)"
  let ?R = "zone_step E dht"
  define s0 where "s0 = zone_store_new E"
  define s1 where "s1 = published E k p1 s0"
  define s2 where "s2 = s1\<lparr>zs_cache := snd (cache_resolve (ze_cache E) k q (zs_cache s1))\<rparr>"
  define s3 where "s3 = published E k p2 s2"
  have empty: "fst (cache_resolve (ze_cache E) k q (zs_cache s1)) = None"
    by (simp add: cache_resolve_result [OF L] s1_def published_def cache_remove_def cache_libD [OF L])
  have r0: "?R\<^sup>*\<^sup>* (zone_system_new E) \<lparr>sys_state = s0, sys_ops = [Insert_Store p1, Resolve_Cache k q, Insert_Store p2]\<rparr>"
    using zn_insert [OF ok(1) [unfolded packet_ok_def], of dht "\<lparr>sys_state = s0, sys_ops = []\<rparr>"]
      zn_resolve [of E dht "\<lparr>sys_state = s0, sys_ops = [Insert_Store p1]\<rparr>" k q]
      zn_insert [OF ok(2) [unfolded packet_ok_def], of dht "\<lparr>sys_state = s0, sys_ops = [Insert_Store p1, Resolve_Cache k q]\<rparr>"]
    by (simp add: zone_system_new_def s0_def)
  have r1: "?R\<^sup>*\<^sup>* \<lparr>sys_state = s0, sys_ops = [Insert_Store p1, Resolve_Cache k q, Insert_Store p2]\<rparr>
      \<lparr>sys_state = s1, sys_ops = [Inserted True, Resolve_Cache k q, Insert_Store p2]\<rparr>"
    using insert_runs [OF pk(1), of s0 dht "[]" "[Resolve_Cache k q, Insert_Store p2]"]
    by (simp add: s1_def s0_def zone_store_new_def)
  have r2: "?R \<lparr>sys_state = s1, sys_ops = [Inserted True, Resolve_Cache k q, Insert_Store p2]\<rparr>
      \<lparr>sys_state = s2, sys_ops = [Inserted True] @ Resolve_Store k q # [Insert_Store p2]\<rparr>"
    by (rule zn_advance_at) (use empty in \<open>auto simp: zone_advance_def s2_def case_prod_beta\<close>)
  have r3: "?R \<lparr>sys_state = s2, sys_ops = [Inserted True] @ Resolve_Store k q # [Insert_Store p2]\<rparr>
      \<lparr>sys_state = s2, sys_ops = [Inserted True] @ Resolve_Found p1 q # [Insert_Store p2]\<rparr>"
    by (rule zn_advance_at [OF refl]) (simp_all add: zone_advance_def s2_def s1_def published_def)
  have r4: "?R\<^sup>*\<^sup>* \<lparr>sys_state = s2, sys_ops = [Inserted True] @ Resolve_Found p1 q # [Insert_Store p2]\<rparr>
      \<lparr>sys_state = s3, sys_ops = [Inserted True] @ Resolve_Found p1 q # [Inserted True]\<rparr>"
    using insert_runs [OF pk(2), of s2 dht "[Inserted True, Resolve_Found p1 q]" "[]"] more_recent_order(3) [OF newer]
    by (simp add: s3_def s2_def s1_def published_def)
  have "ca_peek (ze_cache E) (zc_cache (zs_cache s3)) k = None" by (simp add: s3_def published_def cache_remove_def cache_libD [OF L])
  then obtain r t where r5: "?R \<lparr>sys_state = s3, sys_ops = [Inserted True] @ Resolve_Found p1 q # [Inserted True]\<rparr>
      \<lparr>sys_state = t, sys_ops = [Inserted True] @ Resolved r # [Inserted True]\<rparr>"
    and t: "zs_store t = zs_store s3" "ca_peek (ze_cache E) (zc_cache (zs_cache t)) k = Some z1"
    using resolve_found_runs [OF L pk(1) z1] by metis
  have "?R\<^sup>*\<^sup>* (zone_system_new E) \<lparr>sys_state = t, sys_ops = [Inserted True] @ Resolved r # [Inserted True]\<rparr>"
    using r0 r1 r2 r3 r4 r5 by (meson rtranclp.rtrancl_into_rtrancl rtranclp_trans)
  then show ?thesis using t by (fastforce simp: s3_def published_def)
qed

end
