(* ===== verification/Dns_Instances.thy ===== *)
theory Dns_Instances
  imports Endpoint_Info Zone_Store Instances "HOL-Library.Code_Target_Nat"
begin

text \<open>
  Concrete instances of the libraries the DNS components are parameterised by: a codec for DNS records
  with length prefixes, association lists as caches, records taken from that codec, and example
  endpoints and packets. They show that the assumptions about the libraries can hold together.
\<close>

section \<open>A codec for DNS records\<close>

fun encode_record :: "dns_record \<Rightarrow> bytes option" where
  "encode_record rr =
     (if length (rr_name rr) < 256 then
        (case rr_rdata rr of
           RD_TXT t \<Rightarrow>
             (if length t < 256
              then Some (of_nat (length (rr_name rr)) # string_bytes (rr_name rr) @ u32_to_be (rr_ttl rr) @ 1 # of_nat (length t) # t)
              else None)
         | RD_Other \<Rightarrow> Some (of_nat (length (rr_name rr)) # string_bytes (rr_name rr) @ u32_to_be (rr_ttl rr) @ [0]))
      else None)"

fun encode_records :: "dns_record list \<Rightarrow> bytes option" where
  "encode_records [] = Some []"
| "encode_records (r # rs) =
     Option.bind (encode_record r) (\<lambda>b. Option.bind (encode_records rs) (\<lambda>bs. Some (b @ bs)))"

fun decode_records :: "nat \<Rightarrow> bytes \<Rightarrow> dns_record list option" where
  "decode_records 0 b = (if b = [] then Some [] else None)"
| "decode_records (Suc n) b =
     (case b of
        [] \<Rightarrow> Some []
      | l # r \<Rightarrow>
         (let name = bytes_string (take (unat l) r); t = drop (unat l) r; ttl = u32_of_be (take 4 t) in
          case drop 4 t of
            [] \<Rightarrow> None
          | k # u \<Rightarrow>
             (if k = 0 then map_option (Cons \<lparr>rr_name = name, rr_ttl = ttl, rr_rdata = RD_Other\<rparr>) (decode_records n u)
              else
                (case u of
                   [] \<Rightarrow> None
                 | m # v \<Rightarrow> map_option (Cons \<lparr>rr_name = name, rr_ttl = ttl, rr_rdata = RD_TXT (take (unat m) v)\<rparr>)
                     (decode_records n (drop (unat m) v))))))"

definition plain_dns :: dns_lib where
  "plain_dns =
     \<lparr>dns_build = encode_records, dns_parse = (\<lambda>b. decode_records (length b) b),
      txt_add_string = (\<lambda>s. if length s < 256 then Some (string_bytes s) else None),
      txt_to_string = (\<lambda>t. Some (bytes_string t)), name_new_ok = (\<lambda>s. s \<noteq> []),
      name_without = (\<lambda>n zone. if suffix (CHR ''.'' # zone) n then Some (take (length n - length zone - 1) n) else None)\<rparr>"

lemma unat_of_nat_small: "n < 256 \<Longrightarrow> unat (of_nat n :: byte) = n"
  by (simp add: unat_of_nat)

lemma decode_encode_record:
  assumes "encode_record r = Some b"
  shows "decode_records (Suc n) (b @ c) = map_option (Cons r) (decode_records n c)" "b \<noteq> []"
  using assms
  by (cases r; auto simp: Let_def unat_of_nat_small split: if_splits dns_rdata.splits)+

lemma decode_encode_records:
  "encode_records rs = Some b \<Longrightarrow> length rs \<le> n \<Longrightarrow> decode_records n b = Some rs"
proof (induction rs arbitrary: b n)
  case Nil
  then show ?case by (cases n) simp_all
next
  case (Cons r rs)
  then obtain x xs m where "encode_record r = Some x" "encode_records rs = Some xs" "b = x @ xs" "n = Suc m"
    by (cases n) (auto simp: bind_eq_Some_conv simp del: encode_record.simps)
  then show ?case using Cons decode_encode_record(1) [of r x m xs] by (simp del: decode_records.simps encode_record.simps)
qed

lemma length_encode_records: "encode_records rs = Some b \<Longrightarrow> length rs \<le> length b"
proof (induction rs arbitrary: b)
  case (Cons r rs)
  then obtain x xs where "encode_record r = Some x" "encode_records rs = Some xs" "b = x @ xs"
    by (auto simp: bind_eq_Some_conv simp del: encode_record.simps)
  then show ?case using Cons.IH [of xs] decode_encode_record(2) [of r x] by (cases x) auto
qed simp

lemma plain_dns_ok: "dns_lib_ok plain_dns"
  using decode_encode_records length_encode_records by (auto simp: dns_lib_ok_def plain_dns_def)

section \<open>Caches and zones\<close>

definition list_cache :: "(bytes \<times> cached_zone) list cache_lib" where
  "list_cache =
     \<lparr>ca_new = [], ca_get = (\<lambda>c k. (map_of c k, c)), ca_peek = map_of, ca_put = (\<lambda>c k z. al_update k z c),
      ca_remove = (\<lambda>c k. al_remove k c)\<rparr>"

lemma list_cache_ok: "cache_lib_ok list_cache"
  by (auto simp: cache_lib_ok_def list_cache_def)

definition plain_hickory :: hickory where
  "plain_hickory =
     \<lparr>hk_message = (\<lambda>b. map_option (map (\<lambda>rr. \<lparr>hk_name = split_char (CHR ''.'') (rr_name rr), hk_type = RT_Other 16,
          hk_data = (case rr_rdata rr of RD_TXT t \<Rightarrow> t | RD_Other \<Rightarrow> [])\<rparr>)) (dns_parse plain_dns b)),
      hk_label = Some, hk_name_ok = (\<lambda>_. True), rset_insert = (\<lambda>r rs. rs @ [r])\<rparr>"

definition plain_zone_env :: "(bytes \<times> cached_zone) list zone_env" where
  "plain_zone_env = \<lparr>ze_ed = checksum_ed25519, ze_text = hex_encodings, ze_hickory = plain_hickory,
     ze_cache = list_cache, ze_dns = plain_dns\<rparr>"

lemma plain_zone_env_ok: "zone_env_ok plain_zone_env"
  by (simp add: zone_env_ok_def plain_zone_env_def list_cache_ok checksum_ed25519_ok)

section \<open>Example endpoints\<close>

definition example_sk :: secret_key where "example_sk = replicate 32 7"

text \<open>An endpoint with a direct, a custom and a relay address, in that order.\<close>

definition example_info :: endpoint_info where
  "example_info = \<lparr>ei_endpoint_id = secret_key_public checksum_ed25519 example_sk,
     ei_data = \<lparr>ed_addrs = [TA_Ip (SocketV4 [192, 168, 0, 1] 4433), TA_Custom (custom_from_parts 42 [1, 2]),
                            TA_Relay ''https://r.io/''],
                ed_user_data = Some ''a=b''\<rparr>\<rparr>"

definition example_packet :: "timestamp \<Rightarrow> string \<Rightarrow> signed_packet" where
  "example_packet now v = projr (from_txt_strings checksum_ed25519 hex_encodings plain_dns now example_sk IROH_TXT_NAME [v] 30)"

lemma length_example_sk [simp]: "length example_sk = 32"
  by (simp add: example_sk_def)

lemma example_public [simp]: "secret_key_public checksum_ed25519 example_sk = example_sk"
  by (simp add: secret_key_public_def checksum_ed25519_def)

lemma example_zone:
  "name_new_ok plain_dns (public_key_to_z32 hex_encodings example_sk)"
  "CHR ''.'' \<notin> set (public_key_to_z32 hex_encodings example_sk)"
proof -
  have z: "public_key_to_z32 hex_encodings example_sk = hexlower_encode example_sk"
    by (simp add: public_key_to_z32_def hex_encodings_def)
  have "hexlower_encode example_sk \<noteq> []" using length_hexlower_encode [of example_sk] by auto
  then show "name_new_ok plain_dns (public_key_to_z32 hex_encodings example_sk)" unfolding z by (simp add: plain_dns_def)
  have "CHR ''.'' \<notin> set ''0123456789abcdef''" by simp
  then show "CHR ''.'' \<notin> set (public_key_to_z32 hex_encodings example_sk)"
    unfolding z using hexlower_digits [OF hex_digit_mem, of example_sk] by blast
qed

lemma plain_answers:
  assumes "length n < 256" "\<forall>v \<in> set vs. length v < 256"
  shows "\<exists>rs b. txt_answers plain_dns n ttl vs = Inr rs \<and> encode_records rs = Some b \<and>
    length b = sum_list (map (\<lambda>v. 7 + length n + length v) vs)"
  using assms(2)
proof (induction vs)
  case (Cons v vs)
  then obtain rs b where "txt_answers plain_dns n ttl vs = Inr rs" "encode_records rs = Some b"
    "length b = sum_list (map (\<lambda>v. 7 + length n + length v) vs)" by auto
  then show ?case using Cons.prems assms(1) by (simp add: plain_dns_def)
qed simp

lemma length_normalize_name: "length (normalize_name origin IROH_TXT_NAME) \<le> 6 + length origin"
  by (simp add: normalize_name_def IROH_TXT_NAME_def Let_def suffix_def)

lemma plain_packet:
  assumes "length sk = 32" "\<forall>v \<in> set vs. length v < 256" "sum_list (map (\<lambda>v. 77 + length v) vs) \<le> 1000"
  shows "\<exists>p. from_txt_strings checksum_ed25519 hex_encodings plain_dns now sk IROH_TXT_NAME vs ttl = Inr p"
proof -
  define n where "n = normalize_name (public_key_to_z32 hex_encodings (secret_key_public checksum_ed25519 sk)) IROH_TXT_NAME"
  have n: "length n \<le> 70"
    using length_normalize_name [of "public_key_to_z32 hex_encodings (secret_key_public checksum_ed25519 sk)"] assms(1)
    by (simp add: n_def public_key_to_z32_def hex_encodings_def length_hexlower_encode secret_key_public_def checksum_ed25519_def)
  then obtain rs b where rs: "txt_answers plain_dns n ttl vs = Inr rs" "encode_records rs = Some b"
    "length b = sum_list (map (\<lambda>v. 7 + length n + length v) vs)"
    using plain_answers [of n vs ttl] assms(2) by auto
  have "sum_list (map (\<lambda>v. 7 + length n + length v) vs) \<le> sum_list (map (\<lambda>v. 77 + length v) vs)"
    using n by (intro sum_list_mono) simp
  then have "length b \<le> MAX_DNS_PACKET_SIZE" using rs(3) assms(3) by (simp add: MAX_DNS_PACKET_SIZE_def)
  moreover have "dns_build plain_dns rs = Some b" using rs(2) by (simp add: plain_dns_def)
  ultimately show ?thesis
    using rs(1) by (simp add: from_txt_strings_def encode_txt_strings_def n_def Let_def)
qed

lemma example_packets:
  "from_txt_strings checksum_ed25519 hex_encodings plain_dns 5 example_sk IROH_TXT_NAME [''relay=a''] 30 = Inr (example_packet 5 ''relay=a'')"
  "from_txt_strings checksum_ed25519 hex_encodings plain_dns 6 example_sk IROH_TXT_NAME [''relay=b''] 30 = Inr (example_packet 6 ''relay=b'')"
  using plain_packet [of example_sk "[''relay=a'']" 5 30] plain_packet [of example_sk "[''relay=b'']" 6 30]
  by (auto simp: example_packet_def)

lemma example_info_strings:
  "endpoint_info_to_attrs hex_encodings example_info = Some a \<Longrightarrow>
   (\<forall>v \<in> set (attrs_to_txt_strings a). length v < 256) \<and> sum_list (map (\<lambda>v. 77 + length v) (attrs_to_txt_strings a)) \<le> 1000"
proof -
  have "map_option (\<lambda>a. map length (attrs_to_txt_strings a)) (endpoint_info_to_attrs hex_encodings example_info) = Some [19, 21, 12, 13]"
    by code_simp
  moreover assume "endpoint_info_to_attrs hex_encodings example_info = Some a"
  ultimately have l: "map length (attrs_to_txt_strings a) = [19, 21, 12, 13]" by simp
  then have "list_all (\<lambda>n. n < 256) (map length (attrs_to_txt_strings a))" by simp
  then have "\<forall>v \<in> set (attrs_to_txt_strings a). length v < 256" by (simp add: list_all_iff)
  moreover have "sum_list (map (\<lambda>v. 77 + length v) (attrs_to_txt_strings a)) = sum_list (map (\<lambda>n. 77 + n) (map length (attrs_to_txt_strings a)))"
    by (simp add: comp_def)
  ultimately show ?thesis unfolding l by simp
qed

end
