(* ===== verification/Dns_Properties.thy ===== *)
theory Dns_Properties
  imports Dns_Instances
begin

text \<open>
  The properties of the DNS components: signed packets and their timestamps, publishing and resolving
  an endpoint info, the packet store of the DNS server and the zones it answers from.
\<close>

section \<open>Signed packets\<close>



text \<open>C27: Timestamps returned by concurrent callers increase strictly in the order they are returned, as
  long as the counter has not reached its maximum. The compare-and-exchange loop ends: while no new
  caller enters and exchanges fail only on a changed counter, n callers take at most n * n + n
  iterations, and as long as a caller is left an iteration is possible.\<close>

theorem timestamp_loop:
  assumes "ts_step\<^sup>*\<^sup>* ts_init s"
  shows "(- 1 \<notin> set (butlast (ts_returned s)) \<longrightarrow> sorted_wrt (<) (ts_returned s)) \<and>
    (\<forall>n t. (ts_loop ^^ n) s t \<longrightarrow>
       n \<le> length (ts_callers s) * length (ts_callers s) + length (ts_callers s) \<and>
       (ts_callers t \<noteq> [] \<longrightarrow> (\<exists>u. ts_loop t u)))"
proof (intro conjI allI impI)
  have inv: "ts_inv s" using assms by (rule ts_reachable_inv)
  then show "sorted_wrt (<) (ts_returned s)" if "- 1 \<notin> set (butlast (ts_returned s))"
    using that by (simp add: ts_inv_def)
  fix n t
  assume "(ts_loop ^^ n) s t"
  then have "n \<le> ts_measure s" using ts_loop_bound [OF _ inv] by fastforce
  then show "n \<le> length (ts_callers s) * length (ts_callers s) + length (ts_callers s)"
    using ts_stale_le [of s] by (simp add: ts_measure_def)
  show "\<exists>u. ts_loop t u" if "ts_callers t \<noteq> []" using that by (rule ts_loop_progress)
qed

definition two_callers :: ts_state where
  "two_callers = \<lparr>ts_last = 0, ts_callers = [(0, 10, 0), (1, 10, 0)], ts_returned = []\<rparr>"

definition one_left :: ts_state where
  "one_left = \<lparr>ts_last = 10, ts_callers = [(1, 10, 0)], ts_returned = [10]\<rparr>"

lemma two_callers_reachable: "ts_step\<^sup>*\<^sup>* ts_init two_callers" and one_left_step: "ts_loop two_callers one_left"
proof -
  have "ts_step ts_init \<lparr>ts_last = 0, ts_callers = [(0, 10, 0)], ts_returned = []\<rparr>"
    using ts_load [of 0 ts_init 10] by (simp add: ts_init_def)
  moreover have "ts_step \<lparr>ts_last = 0, ts_callers = [(0, 10, 0)], ts_returned = []\<rparr> two_callers"
    using ts_load [of 1 "\<lparr>ts_last = 0, ts_callers = [(0, 10, 0)], ts_returned = []\<rparr>" 10] by (simp add: two_callers_def)
  ultimately show "ts_step\<^sup>*\<^sup>* ts_init two_callers" by simp
  have "max (10 :: u64) 1 = 10" by (simp add: max_def word_le_nat_alt)
  then show "ts_loop two_callers one_left"
    using ts_exchange [of two_callers 0 10 0] by (simp add: two_callers_def one_left_def next_timestamp_def al_remove_def)
qed

theorem timestamp_loop_witness:
  "(ts_loop ^^ 1) two_callers one_left \<and> (\<exists>u. ts_loop one_left u)"
proof -
  have step: "(ts_loop ^^ 1) two_callers one_left" using one_left_step by (simp add: eq_OO)
  moreover have "ts_callers one_left \<noteq> []" by (simp add: one_left_def)
  ultimately show ?thesis using timestamp_loop [OF two_callers_reachable] by blast
qed

section \<open>Publishing and resolving\<close>

text \<open>C26: An endpoint info published in a signed packet is found again by whoever resolves the packet, or
  looks its TXT records up under the endpoint's name: the same addresses, relay addresses first, under
  the signer's key. The user data comes back only up to its first equals sign. The addresses have to
  be writable as text, and relay URLs must not contain an equals sign.\<close>

theorem endpoint_info_published:
  assumes C: "ed25519_ok C" and T: "text_encodings_ok T" and D: "dns_lib_ok D" and sk: "length sk = 32"
    and zone: "name_new_ok D (public_key_to_z32 T (secret_key_public C sk))"
      "CHR ''.'' \<notin> set (public_key_to_z32 T (secret_key_public C sk))"
    and addrs: "\<forall>a \<in> set (ed_addrs (ei_data info)). addr_text_ok url_parse a" and inv: "data_inv (ei_data info)"
  shows "(\<forall>now ttl p. info_to_pkarr_signed_packet C T D now sk ttl info = Some (Inr p) \<longrightarrow>
      packet_from_bytes C D p = Some (Inr p) \<and>
      info_from_pkarr_signed_packet url_parse C T D p = Some (Inr (info_published (secret_key_public C sk) info))) \<and>
    (\<exists>strings. info_to_txt_strings T info = Some strings \<and>
      (\<forall>origin. info_from_txt_lookup url_parse C T
         (IROH_TXT_NAME @ ''.'' @ public_key_to_z32 T (secret_key_public C sk) @ ''.'' @ origin) strings =
         Inr (info_published (secret_key_public C sk) info)))"
proof (intro conjI allI impI)
  fix now ttl p
  assume "info_to_pkarr_signed_packet C T D now sk ttl info = Some (Inr p)"
  note r = info_packet_roundtrip [OF C T D sk zone(1) addrs inv this]
  show "packet_from_bytes C D p = Some (Inr p)"
    "info_from_pkarr_signed_packet url_parse C T D p = Some (Inr (info_published (secret_key_public C sk) info))"
    by (rule r)+
next
  have key: "key_valid C (secret_key_public C sk)" using C sk by (rule secret_key_public_valid)
  obtain a b where "endpoint_info_to_attrs T info = Some a"
    "attrs_from_strings (secret_key_public C sk) (attrs_to_txt_strings a) = Inr b"
    "endpoint_info_from_attrs url_parse T b = info_published (secret_key_public C sk) info"
    using info_attrs_roundtrip [OF T addrs inv] by blast
  then show "\<exists>strings. info_to_txt_strings T info = Some strings \<and>
      (\<forall>origin. info_from_txt_lookup url_parse C T
         (IROH_TXT_NAME @ ''.'' @ public_key_to_z32 T (secret_key_public C sk) @ ''.'' @ origin) strings =
         Inr (info_published (secret_key_public C sk) info))"
    using endpoint_id_txt_name [OF T key zone(2)]
    by (simp add: info_to_txt_strings_def info_from_txt_lookup_def attrs_from_txt_lookup_def)
qed

theorem endpoint_info_published_witness:
  "\<exists>p. info_from_pkarr_signed_packet Some checksum_ed25519 hex_encodings plain_dns p = Some (Inr
     \<lparr>ei_endpoint_id = example_sk,
      ei_data = \<lparr>ed_addrs = [TA_Relay ''https://r.io/'', TA_Ip (SocketV4 [192, 168, 0, 1] 4433), TA_Custom (custom_from_parts 42 [1, 2])],
                 ed_user_data = Some ''a''\<rparr>\<rparr>)"
proof -
  have zone: "name_new_ok plain_dns (public_key_to_z32 hex_encodings (secret_key_public checksum_ed25519 example_sk))"
    "CHR ''.'' \<notin> set (public_key_to_z32 hex_encodings (secret_key_public checksum_ed25519 example_sk))"
    using example_zone by simp_all
  have ok: "\<forall>a \<in> set (ed_addrs (ei_data example_info)). addr_text_ok Some a" "data_inv (ei_data example_info)"
    by (simp_all add: example_info_def data_inv_def USER_DATA_MAX_LENGTH_def)
  obtain a where a: "endpoint_info_to_attrs hex_encodings example_info = Some a"
    using info_attrs_roundtrip [OF hex_encodings_ok ok, of example_sk] by blast
  obtain p where p: "info_to_pkarr_signed_packet checksum_ed25519 hex_encodings plain_dns 5 example_sk 30 example_info = Some (Inr p)"
    using plain_packet [OF length_example_sk, of "attrs_to_txt_strings a" 5 30] example_info_strings [OF a]
    by (auto simp: info_to_pkarr_signed_packet_def attrs_to_pkarr_signed_packet_def a)
  have "info_from_pkarr_signed_packet Some checksum_ed25519 hex_encodings plain_dns p =
      Some (Inr (info_published (secret_key_public checksum_ed25519 example_sk) example_info))"
    using endpoint_info_published [OF checksum_ed25519_ok hex_encodings_ok plain_dns_ok length_example_sk zone ok] p by blast
  then show ?thesis by (auto simp: info_published_def example_info_def cut_value_def)
qed

section \<open>The packet store\<close>

text \<open>C22: In every reachable state of the packet store, committed or inside a write transaction, every row
  decodes, is an authentic packet under its own key and is indexed under its timestamp. Handling the
  next message never fails and never panics, and it changes the map from keys to packets exactly as
  specified: a packet is stored unless the stored one is more recent, an expired packet is removed,
  and the replies say which.\<close>

theorem packet_store_refines:
  assumes "ed25519_ok C" "(store_step C opts D)\<^sup>*\<^sup>* store_open s"
  shows "(\<forall>tb \<in> set (open_tables s). \<forall>k. get_packet D k tb = Inr (stored D tb k) \<and>
      (\<forall>p. stored D tb k = Some p \<longrightarrow> packet_from_bytes C D p = Some (Inr p) \<and> take 32 p = k \<and>
         (u64_to_be (packet_timestamp p), k) \<in> set (update_time tb))) \<and>
    (\<forall>left tb m s' now. transaction s = Some (left, tb) \<longrightarrow> store_recv s = Some (m, s') \<longrightarrow> clock s < now \<longrightarrow>
      (\<exists>tb' events. store_handle_message C opts D now m tb = Some (Inr (tb', events)) \<and>
         stored D tb' = spec_handle opts now m (stored D tb) \<and> spec_reply m (stored D tb) events))"
proof (intro conjI ballI allI impI)
  have inv: "store_inv C opts D s" using assms by (rule store_reachable_inv)
  fix tb k
  assume "tb \<in> set (open_tables s)"
  then have tb: "tables_ok C D tb" using inv by (simp add: store_inv_def)
  show "get_packet D k tb = Inr (stored D tb k)" using assms(1) tb by (rule get_packet_ok)
  fix p
  assume "stored D tb k = Some p"
  from get_packet_ok(3) [OF assms(1) tb this]
  show "packet_from_bytes C D p = Some (Inr p)" "take 32 p = k" "(u64_to_be (packet_timestamp p), k) \<in> set (update_time tb)"
    by (simp_all add: packet_ok_def)
next
  fix left tb m s' now
  assume h: "transaction s = Some (left, tb)" "store_recv s = Some (m, s')" "clock s < now"
  have inv: "store_inv C opts D s" using assms by (rule store_reachable_inv)
  then have "tables_ok C D tb" using h(1) by (simp add: store_inv_def open_tables_def)
  moreover have "message_ok C opts D now m"
    using inv store_recv_cases(1) [OF h(2)] h(3) message_ok_mono [of C opts D "clock s" m now]
    by (simp add: store_inv_def)
  ultimately show "\<exists>tb' events. store_handle_message C opts D now m tb = Some (Inr (tb', events)) \<and>
      stored D tb' = spec_handle opts now m (stored D tb) \<and> spec_reply m (stored D tb) events"
    using store_handle_message_result [OF assms(1)] by blast
qed

definition example_store_options :: store_options where
  "example_store_options = \<lparr>max_batch_size = 8, eviction_us = 100\<rparr>"

definition example_store :: store_state where
  "example_store = \<lparr>committed = tables_empty, transaction = Some (8, tables_empty),
     pushed_back = Some (Upsert (example_packet 5 ''relay=a'')), queue = [], clock = 0,
     evict = Evict_Snapshot tables_empty, log = [], running = True\<rparr>"

lemma example_packets_ok:
  "packet_from_bytes checksum_ed25519 plain_dns (example_packet 5 ''relay=a'') = Some (Inr (example_packet 5 ''relay=a''))"
  "packet_from_bytes checksum_ed25519 plain_dns (example_packet 6 ''relay=b'') = Some (Inr (example_packet 6 ''relay=b''))"
  "packet_timestamp (example_packet 5 ''relay=a'') = 5" "packet_timestamp (example_packet 6 ''relay=b'') = 6"
  "take 32 (example_packet 5 ''relay=a'') = example_sk" "take 32 (example_packet 6 ''relay=b'') = example_sk"
proof -
  note a = from_txt_strings_verifies [OF checksum_ed25519_ok plain_dns_ok length_example_sk example_packets(1)]
  note b = from_txt_strings_verifies [OF checksum_ed25519_ok plain_dns_ok length_example_sk example_packets(2)]
  show "packet_from_bytes checksum_ed25519 plain_dns (example_packet 5 ''relay=a'') = Some (Inr (example_packet 5 ''relay=a''))"
    "packet_timestamp (example_packet 5 ''relay=a'') = 5" by (rule a)+
  show "packet_from_bytes checksum_ed25519 plain_dns (example_packet 6 ''relay=b'') = Some (Inr (example_packet 6 ''relay=b''))"
    "packet_timestamp (example_packet 6 ''relay=b'') = 6" by (rule b)+
  show "take 32 (example_packet 5 ''relay=a'') = example_sk" "take 32 (example_packet 6 ''relay=b'') = example_sk"
    using packet_from_bytes_InrD(5) [OF checksum_ed25519_ok a(1)] a(2) packet_from_bytes_InrD(5) [OF checksum_ed25519_ok b(1)] b(2)
    by simp_all
qed

lemma example_store_reachable: "(store_step checksum_ed25519 example_store_options plain_dns)\<^sup>*\<^sup>* store_open example_store"
proof -
  let ?p = "example_packet 5 ''relay=a''"
  let ?R = "store_step checksum_ed25519 example_store_options plain_dns"
  let ?s1 = "store_send (Upsert ?p) store_open"
  let ?s2 = "(?s1\<lparr>queue := [Upsert ?p]\<rparr>)\<lparr>evict := Evict_Snapshot (committed ?s1)\<rparr>"
  have a: "?R store_open ?s1"
    by (rule st_upsert) (simp_all add: store_open_def STORE_QUEUE_def example_packets_ok)
  have b: "?R ?s1 ?s2"
    by (rule st_snapshot) (simp_all add: store_open_def store_send_def store_recv_def)
  have "?R ?s2 ((?s2\<lparr>queue := []\<rparr>)\<lparr>pushed_back := Some (Upsert ?p), transaction := Some (max_batch_size example_store_options, committed ?s2)\<rparr>)"
    by (rule st_begin) (simp_all add: store_open_def store_send_def store_recv_def)
  then have "?R ?s2 example_store" by (simp add: example_store_def store_open_def store_send_def example_store_options_def)
  then show ?thesis using a b by (meson converse_rtranclp_into_rtranclp rtranclp.rtrancl_refl)
qed

theorem packet_store_refines_witness:
  "\<exists>tb' events. store_handle_message checksum_ed25519 example_store_options plain_dns 7 (Upsert (example_packet 5 ''relay=a'')) tables_empty = Some (Inr (tb', events)) \<and>
     stored plain_dns tb' example_sk = Some (example_packet 5 ''relay=a'') \<and> Upserted True \<in> set events"
proof -
  let ?p = "example_packet 5 ''relay=a''"
  have empty: "stored plain_dns tables_empty = (\<lambda>_. None)" by (rule ext) (simp add: stored_def get_packet_def tables_empty_def)
  have "transaction example_store = Some (8, tables_empty)"
    "store_recv example_store = Some (Upsert ?p, example_store\<lparr>pushed_back := None\<rparr>)" "clock example_store < 7"
    by (simp_all add: example_store_def store_recv_def)
  then obtain tb' events where "store_handle_message checksum_ed25519 example_store_options plain_dns 7 (Upsert ?p) tables_empty = Some (Inr (tb', events))"
    "stored plain_dns tb' = spec_handle example_store_options 7 (Upsert ?p) (stored plain_dns tables_empty)"
    "spec_reply (Upsert ?p) (stored plain_dns tables_empty) events"
    using packet_store_refines [OF checksum_ed25519_ok example_store_reachable] by blast
  then show ?thesis by (simp add: empty spec_handle_def spec_reply_def example_packets_ok)
qed




section \<open>Zones\<close>

text \<open>C24: Calls that run one after the other keep the caches coherent with the store, whatever packets are
  published, resolved or expired in between: resolving a name of a stored key answers from the stored
  packet, and publishing reports an update unless the stored packet is more recent.\<close>

theorem zone_store_answers:
  assumes "zone_env_ok E" "dht_ok dht" "\<forall>call \<in> set calls. call_ok E call"
    "s = fold (zone_call_effect E dht) calls (zone_store_new E)"
  shows "(\<forall>k q p. zs_store s k = Some p \<longrightarrow> fst (zone_resolve E dht k q s) = Resolved (resolve_answer E p q)) \<and>
    (\<forall>p. packet_from_bytes (ze_ed E) (ze_dns E) p = Some (Inr p) \<longrightarrow>
       fst (zone_insert E p s) = Inserted (\<not> (\<exists>q. zs_store s (take 32 p) = Some q \<and> more_recent_than q p)) \<and>
       (\<forall>opts now. zs_store (snd (zone_insert E p s)) = spec_handle opts now (Upsert p) (zs_store s)))"
proof -
  have "coherent E s" unfolding assms(4) using assms(1-3) by (rule zone_calls_coherent)
  then show ?thesis
    using zone_resolve_result(4) [OF assms(1,2)] zone_insert_result(1,3) [OF assms(1)] by (simp add: packet_ok_def)
qed

lemma plain_zone_env_sel [simp]: "ze_ed plain_zone_env = checksum_ed25519" "ze_dns plain_zone_env = plain_dns"
  by (simp_all add: plain_zone_env_def)

theorem zone_store_answers_witness:
  "fst (zone_resolve plain_zone_env None example_sk ([''_iroh''], RT_Other 16)
     (zone_call_effect plain_zone_env None (Call_Insert (example_packet 5 ''relay=a'')) (zone_store_new plain_zone_env))) =
   Resolved (resolve_answer plain_zone_env (example_packet 5 ''relay=a'') ([''_iroh''], RT_Other 16))"
proof -
  let ?calls = "[Call_Insert (example_packet 5 ''relay=a'')]"
  let ?s = "fold (zone_call_effect plain_zone_env None) ?calls (zone_store_new plain_zone_env)"
  have ok: "\<forall>call \<in> set ?calls. call_ok plain_zone_env call" "dht_ok None"
    by (simp_all add: call_ok_def packet_ok_def example_packets_ok dht_ok_def)
  have "zs_store ?s example_sk = Some (example_packet 5 ''relay=a'')"
    using zone_insert_result(3) [OF plain_zone_env_ok coherent_new [OF plain_zone_env_ok], of "example_packet 5 ''relay=a''" example_store_options 0]
    by (simp add: zone_call_effect_def packet_ok_def example_packets_ok spec_handle_def zone_store_new_def)
  then show ?thesis using zone_store_answers [OF plain_zone_env_ok ok(2) ok(1) refl] by simp
qed

text \<open>C25: Interleaved calls can leave a superseded zone in the cache: when a resolution reads the store
  before a newer packet is published and reaches the cache after the publication has cleared it, every
  call is finished, the store holds the newer packet, and resolving still answers from the older one.\<close>

theorem zone_cache_race:
  assumes E: "zone_env_ok E"
    and valid: "packet_from_bytes (ze_ed E) (ze_dns E) p1 = Some (Inr p1)" "packet_from_bytes (ze_ed E) (ze_dns E) p2 = Some (Inr p2)"
    and key: "take 32 p1 = k" "take 32 p2 = k" and newer: "more_recent_than p2 p1" and zone: "zone_of E p1 = Some (Inr z1)"
  shows "\<exists>y. (zone_step E dht)\<^sup>*\<^sup>* (zone_system_new E) y \<and> list_all op_done (sys_ops y) \<and>
    zs_store (sys_state y) k = Some p2 \<and>
    (\<forall>q rset. zone_lookup z1 q = Some rset \<longrightarrow> fst (zone_resolve E dht k q (sys_state y)) = Resolved (Inr (Some rset)))"
proof -
  have L: "cache_lib_ok (ze_cache E)" using E by (simp add: zone_env_ok_def)
  obtain y where y: "(zone_step E dht)\<^sup>*\<^sup>* (zone_system_new E) y" "list_all op_done (sys_ops y)"
    "zs_store (sys_state y) k = Some p2" "ca_peek (ze_cache E) (zc_cache (zs_cache (sys_state y))) k = Some z1"
    using zone_cache_stale [OF E _ _ key newer zone, of dht] valid by (auto simp: packet_ok_def)
  have "fst (zone_resolve E dht k q (sys_state y)) = Resolved (Inr (Some rset))" if "zone_lookup z1 q = Some rset" for q rset
    using cache_resolve_result(1) [OF L, of k q "zs_cache (sys_state y)"] y(4) that
    by (simp add: zone_resolve_def zone_run_5 zone_advance_def case_prod_beta)
  then show ?thesis using y(1-3) by blast
qed

lemma plain_zone_records: "zone_records plain_hickory z rs out \<noteq> None"
proof -
  have "hk_name_ok plain_hickory n" "hk_label plain_hickory = Some" for n by (simp_all add: plain_hickory_def)
  then show ?thesis by (induction rs arbitrary: out) (simp_all add: Let_def)
qed

lemma example_zone_of: "\<exists>z. zone_of plain_zone_env (example_packet 5 ''relay=a'') = Some (Inr z)"
proof -
  let ?p = "example_packet 5 ''relay=a''"
  note v = packet_from_bytes_InrD [OF checksum_ed25519_ok example_packets_ok(1)]
  obtain rs where "hk_message plain_hickory (encoded_packet ?p) = Some rs"
    using v(7) by (auto simp: plain_hickory_def)
  moreover obtain recs where "zone_records plain_hickory (public_key_to_z32 hex_encodings (take 32 ?p)) rs [] = Some recs"
    using plain_zone_records by blast
  moreover have "hk_label plain_hickory = Some" by (simp add: plain_hickory_def)
  ultimately show ?thesis using v(5) by (simp add: zone_from_signed_packet_def plain_zone_env_def)
qed

theorem zone_cache_race_witness:
  "\<exists>y z. zone_of plain_zone_env (example_packet 5 ''relay=a'') = Some (Inr z) \<and>
     (zone_step plain_zone_env None)\<^sup>*\<^sup>* (zone_system_new plain_zone_env) y \<and> zs_store (sys_state y) example_sk = Some (example_packet 6 ''relay=b'') \<and>
     (\<forall>q rset. zone_lookup z q = Some rset \<longrightarrow> fst (zone_resolve plain_zone_env None example_sk q (sys_state y)) = Resolved (Inr (Some rset)))"
proof -
  obtain z where z: "zone_of plain_zone_env (example_packet 5 ''relay=a'') = Some (Inr z)" using example_zone_of by blast
  have newer: "more_recent_than (example_packet 6 ''relay=b'') (example_packet 5 ''relay=a'')"
    by (simp add: more_recent_iff example_packets_ok word_less_nat_alt)
  have ok: "packet_from_bytes (ze_ed plain_zone_env) (ze_dns plain_zone_env) p = Some (Inr p)"
    if "p = example_packet 5 ''relay=a'' \<or> p = example_packet 6 ''relay=b''" for p
    using that example_packets_ok(1,2) by auto
  show ?thesis
    using zone_cache_race [OF plain_zone_env_ok ok ok example_packets_ok(5,6) newer z, of None] z by blast
qed

end
