(* ===== verification/Relay_Map.thy ===== *)
theory Relay_Map
  imports Endpoint_Addr "HOL-Library.Char_ord" "HOL-Library.Product_Lexorder" "HOL-Library.Option_ord"
begin

text \<open>
  Maps kept in key order, and the map of relays an endpoint knows (\<open>iroh-relay/src/relay_map.rs\<close>) as
  one of them. The shared \<open>RwLock\<close> around the map is not modelled: every operation holds it for its
  whole duration. Lemmas: the operations keep the order of the keys and act on the map as a function.
\<close>

section \<open>Ordered maps\<close>

fun bt_update :: "'k::linorder \<Rightarrow> 'v \<Rightarrow> ('k \<times> 'v) list \<Rightarrow> ('k \<times> 'v) list" where
  "bt_update k v [] = [(k, v)]"
| "bt_update k v ((k', v') # m) =
     (if k < k' then (k, v) # (k', v') # m
      else if k = k' then (k, v) # m
      else (k', v') # bt_update k v m)"

definition bt_ok :: "('k::linorder \<times> 'v) list \<Rightarrow> bool" where
  "bt_ok m \<longleftrightarrow> sorted_wrt (<) (map fst m)"

abbreviation bt_remove :: "'k \<Rightarrow> ('k \<times> 'v) list \<Rightarrow> ('k \<times> 'v) list" where
  "bt_remove \<equiv> al_remove"

lemma map_of_bt_update [simp]: "map_of (bt_update k v m) = (map_of m)(k \<mapsto> v)"
  by (induction m) (auto simp: fun_eq_iff)

lemma keys_bt_update [simp]: "fst ` set (bt_update k v m) = insert k (fst ` set m)"
proof (induction m)
  case (Cons p m)
  then show ?case by (cases p) (simp add: insert_commute)
qed simp

lemma bt_ok_Nil [simp]: "bt_ok []"
  by (simp add: bt_ok_def)

lemma bt_ok_update [simp]: "bt_ok m \<Longrightarrow> bt_ok (bt_update k v m)"
proof (induction m)
  case (Cons p m)
  obtain k' v' where p: "p = (k', v')" by (cases p)
  have "bt_ok (bt_update k v m)" "\<forall>x \<in> fst ` set m. k' < x" using Cons by (simp_all add: bt_ok_def p)
  moreover have "\<forall>x \<in> fst ` set (bt_update k v m). k' < x" if "k' < k" using calculation(2) that by simp
  ultimately show ?case using Cons.prems by (auto simp: bt_ok_def p)
qed (simp add: bt_ok_def)

lemma bt_ok_remove [simp]: "bt_ok m \<Longrightarrow> bt_ok (bt_remove k m)"
  by (induction m) (auto simp: bt_ok_def al_remove_def)

lemma bt_ok_distinct: "bt_ok m \<Longrightarrow> distinct (map fst m)"
  by (simp add: bt_ok_def strict_sorted_iff)

lemma bt_ok_fold: "bt_ok m \<Longrightarrow> bt_ok (fold (\<lambda>(k, v). bt_update k v) ps m)"
  by (induction ps arbitrary: m) auto

lemma map_of_bt_fold: "map_of (fold (\<lambda>(k, v). bt_update k v) ps m) = map_of m ++ map_of (rev ps)"
  by (induction ps arbitrary: m) (auto simp: map_add_def fun_eq_iff split: option.splits)

lemma bt_ok_map: "bt_ok m \<Longrightarrow> bt_ok (map (\<lambda>(k, v). (k, f k v)) m)"
  by (simp add: bt_ok_def comp_def case_prod_beta)

lemma map_of_rev: "distinct (map fst m) \<Longrightarrow> map_of (rev m) = map_of m"
  by (simp add: map_of_inject_set rev_map [symmetric])

section \<open>Relays\<close>

definition DEFAULT_RELAY_QUIC_PORT :: u16 where "DEFAULT_RELAY_QUIC_PORT = 7842"

record relay_config =
  rc_url :: relay_url
  rc_quic :: "u16 option"
  rc_auth_token :: "string option"

definition relay_config_new :: "relay_url \<Rightarrow> u16 option \<Rightarrow> relay_config" where
  "relay_config_new url quic = \<lparr>rc_url = url, rc_quic = quic, rc_auth_token = None\<rparr>"

definition relay_config_of_url :: "relay_url \<Rightarrow> relay_config" where
  "relay_config_of_url url = \<lparr>rc_url = url, rc_quic = Some DEFAULT_RELAY_QUIC_PORT, rc_auth_token = None\<rparr>"

definition config_with_auth_token :: "string \<Rightarrow> relay_config \<Rightarrow> relay_config" where
  "config_with_auth_token token c = c\<lparr>rc_auth_token := Some token\<rparr>"

type_synonym relay_map = "(relay_url \<times> relay_config) list"

definition relay_map_empty :: relay_map where "relay_map_empty = []"

text \<open>\<open>collect\<close> into a \<open>Result\<close>: the first URL that does not parse is the error.\<close>

fun parse_relay_urls :: "(string \<Rightarrow> string option) \<Rightarrow> string list \<Rightarrow> unit + relay_url list" where
  "parse_relay_urls url_parse [] = Inr []"
| "parse_relay_urls url_parse (s # ss) =
     and_then (relay_url_from_str url_parse s) (\<lambda>u.
     and_then (parse_relay_urls url_parse ss) (\<lambda>us. Inr (u # us)))"

definition relay_map_of_configs :: "relay_config list \<Rightarrow> relay_map" where
  "relay_map_of_configs cs = fold (\<lambda>c. bt_update (rc_url c) c) cs []"

definition relay_map_of_urls :: "relay_url list \<Rightarrow> relay_map" where
  "relay_map_of_urls us = fold (\<lambda>u. bt_update u (relay_config_of_url u)) us []"

definition relay_map_try_from_iter :: "(string \<Rightarrow> string option) \<Rightarrow> string list \<Rightarrow> unit + relay_map" where
  "relay_map_try_from_iter url_parse ss =
     and_then (parse_relay_urls url_parse ss) (\<lambda>us. Inr (relay_map_of_urls us))"

definition relay_map_urls :: "relay_map \<Rightarrow> relay_url list" where
  "relay_map_urls m = map fst m"

definition relay_map_relays :: "relay_map \<Rightarrow> relay_config list" where
  "relay_map_relays m = map snd m"

definition relay_map_contains :: "relay_map \<Rightarrow> relay_url \<Rightarrow> bool" where
  "relay_map_contains m u \<longleftrightarrow> map_of m u \<noteq> None"

definition relay_map_get :: "relay_map \<Rightarrow> relay_url \<Rightarrow> relay_config option" where
  "relay_map_get m u = map_of m u"

definition relay_map_len :: "relay_map \<Rightarrow> nat" where
  "relay_map_len m = length m"

definition relay_map_insert :: "relay_url \<Rightarrow> relay_config \<Rightarrow> relay_map \<Rightarrow> relay_config option \<times> relay_map" where
  "relay_map_insert u c m = (map_of m u, bt_update u c m)"

definition relay_map_remove :: "relay_url \<Rightarrow> relay_map \<Rightarrow> relay_config option \<times> relay_map" where
  "relay_map_remove u m = (map_of m u, bt_remove u m)"

definition relay_map_extend :: "relay_map \<Rightarrow> relay_map \<Rightarrow> relay_map" where
  "relay_map_extend other m = fold (\<lambda>(u, c). bt_update u c) other m"

definition relay_map_with_auth_token :: "string \<Rightarrow> relay_map \<Rightarrow> relay_map" where
  "relay_map_with_auth_token token m = map (\<lambda>(u, c). (u, config_with_auth_token token c)) m"

lemma fold_bt_update_map: "fold (\<lambda>x. bt_update (f x) (g x)) xs m = fold (\<lambda>(k, v). bt_update k v) (map (\<lambda>x. (f x, g x)) xs) m"
  by (simp add: fold_map comp_def)

text \<open>Every operation keeps the map ordered with one configuration per URL.\<close>

lemma relay_map_ops_ok:
  "bt_ok relay_map_empty" "bt_ok (relay_map_of_configs cs)" "bt_ok (relay_map_of_urls us)"
  "bt_ok m \<Longrightarrow> bt_ok (snd (relay_map_insert u c m))" "bt_ok m \<Longrightarrow> bt_ok (snd (relay_map_remove u m))"
  "bt_ok m \<Longrightarrow> bt_ok (relay_map_extend other m)" "bt_ok m \<Longrightarrow> bt_ok (relay_map_with_auth_token token m)"
  by (simp_all add: relay_map_empty_def relay_map_of_configs_def relay_map_of_urls_def relay_map_insert_def
      relay_map_remove_def relay_map_extend_def relay_map_with_auth_token_def fold_bt_update_map bt_ok_fold bt_ok_map)

text \<open>What the operations do to the map: the last configuration of a URL stays.\<close>

lemma relay_map_of_configs_get:
  "relay_map_get (relay_map_of_configs cs) u = map_of (rev (map (\<lambda>c. (rc_url c, c)) cs)) u"
  by (simp add: relay_map_get_def relay_map_of_configs_def fold_bt_update_map map_of_bt_fold)

lemma relay_map_get_ops:
  "relay_map_get (snd (relay_map_insert u c m)) v = (if v = u then Some c else relay_map_get m v)"
  "relay_map_get (snd (relay_map_remove u m)) v = (if v = u then None else relay_map_get m v)"
  "relay_map_get (relay_map_with_auth_token token m) v = map_option (config_with_auth_token token) (relay_map_get m v)"
  by (simp_all add: relay_map_get_def relay_map_insert_def relay_map_remove_def relay_map_with_auth_token_def map_of_map)

lemma relay_map_extend_get:
  "bt_ok other \<Longrightarrow> relay_map_get (relay_map_extend other m) v =
     (case relay_map_get other v of Some c \<Rightarrow> Some c | None \<Rightarrow> relay_map_get m v)"
  unfolding relay_map_get_def relay_map_extend_def
  by (simp add: map_of_bt_fold map_add_def map_of_rev bt_ok_distinct)

end
