(* ===== verification/Net_Report.thy ===== *)
theory Net_Report
  imports Relay_Map
begin

text \<open>
  Network reports (\<open>iroh/src/net_report\<close>): what probes say about the network (\<open>report.rs\<close>), which probes
  are run (\<open>probes.rs\<close>, \<open>options.rs\<close>, \<open>reportgen.rs\<close>), and the client that collects a report, keeps the
  recent ones and picks the preferred relay (\<open>net_report.rs\<close>). The network itself is an argument: the
  outcomes of probes in the order they finish, and what the QUIC address discovery (QAD) connections
  observe. Lemmas: a report is a function of the probe results, the measured latencies are minima,
  and what the preferred relay is.
\<close>

section \<open>Latencies\<close>

datatype probe = Https | QadIpv4 | QadIpv6

record relay_latencies =
  lat_ipv4 :: "(relay_url \<times> duration) list"
  lat_ipv6 :: "(relay_url \<times> duration) list"
  lat_https :: "(relay_url \<times> duration) list"

definition latencies_default :: relay_latencies where
  "latencies_default = \<lparr>lat_ipv4 = [], lat_ipv6 = [], lat_https = []\<rparr>"

fun latencies_of :: "probe \<Rightarrow> relay_latencies \<Rightarrow> (relay_url \<times> duration) list" where
  "latencies_of Https l = lat_https l"
| "latencies_of QadIpv4 l = lat_ipv4 l"
| "latencies_of QadIpv6 l = lat_ipv6 l"

definition lower :: "relay_url \<Rightarrow> duration \<Rightarrow> (relay_url \<times> duration) list \<Rightarrow> (relay_url \<times> duration) list" where
  "lower url latency list =
     (case map_of list url of
        None \<Rightarrow> bt_update url latency list
      | Some old \<Rightarrow> (if latency < old then bt_update url latency list else list))"

fun update_relay :: "relay_url \<Rightarrow> duration \<Rightarrow> probe \<Rightarrow> relay_latencies \<Rightarrow> relay_latencies" where
  "update_relay url latency Https l = l\<lparr>lat_https := lower url latency (lat_https l)\<rparr>"
| "update_relay url latency QadIpv4 l = l\<lparr>lat_ipv4 := lower url latency (lat_ipv4 l)\<rparr>"
| "update_relay url latency QadIpv6 l = l\<lparr>lat_ipv6 := lower url latency (lat_ipv6 l)\<rparr>"

definition merge_list :: "probe \<Rightarrow> (relay_url \<times> duration) list \<Rightarrow> relay_latencies \<Rightarrow> relay_latencies" where
  "merge_list p list l = fold (\<lambda>(url, latency). update_relay url latency p) list l"

definition latencies_merge :: "relay_latencies \<Rightarrow> relay_latencies \<Rightarrow> relay_latencies" where
  "latencies_merge other l =
     merge_list QadIpv6 (lat_ipv6 other) (merge_list QadIpv4 (lat_ipv4 other) (merge_list Https (lat_https other) l))"

definition latencies_iter :: "relay_latencies \<Rightarrow> (probe \<times> relay_url \<times> duration) list" where
  "latencies_iter l =
     map (\<lambda>(url, d). (Https, url, d)) (lat_https l) @ map (\<lambda>(url, d). (QadIpv4, url, d)) (lat_ipv4 l) @
     map (\<lambda>(url, d). (QadIpv6, url, d)) (lat_ipv6 l)"

definition latencies_is_empty :: "relay_latencies \<Rightarrow> bool" where
  "latencies_is_empty l \<longleftrightarrow> lat_https l = [] \<and> lat_ipv4 l = [] \<and> lat_ipv6 l = []"

definition list_min :: "duration list \<Rightarrow> duration option" where
  "list_min ds = (case ds of [] \<Rightarrow> None | d # rest \<Rightarrow> Some (fold min rest d))"

definition latencies_get :: "relay_latencies \<Rightarrow> relay_url \<Rightarrow> duration option" where
  "latencies_get l url =
     list_min (List.map_filter (\<lambda>list. map_of list url) [lat_https l, lat_ipv4 l, lat_ipv6 l])"

section \<open>Reports\<close>

record qad_report =
  qr_relay :: relay_url
  qr_latency :: duration
  qr_addr :: socket_addr

datatype probe_report = R_Https relay_url duration | R_Qad4 qad_report | R_Qad6 qad_report

record report =
  udp_v4 :: bool
  udp_v6 :: bool
  mapping_varies_by_dest_ipv4 :: "bool option"
  mapping_varies_by_dest_ipv6 :: "bool option"
  preferred_relay :: "relay_url option"
  relay_latency :: relay_latencies
  global_v4 :: "socket_addr option"
  global_v6 :: "socket_addr option"
  captive_portal :: "bool option"

definition report_default :: report where
  "report_default = \<lparr>udp_v4 = False, udp_v6 = False, mapping_varies_by_dest_ipv4 = None,
     mapping_varies_by_dest_ipv6 = None, preferred_relay = None, relay_latency = latencies_default,
     global_v4 = None, global_v6 = None, captive_portal = None\<rparr>"

definition has_udp :: "report \<Rightarrow> bool" where
  "has_udp r \<longleftrightarrow> udp_v4 r \<or> udp_v6 r"

definition mapping_varies_by_dest :: "report \<Rightarrow> bool option" where
  "mapping_varies_by_dest r =
     (case (mapping_varies_by_dest_ipv4 r, mapping_varies_by_dest_ipv6 r) of
        (Some v4, Some v6) \<Rightarrow> Some (v4 \<or> v6)
      | (None, Some v6) \<Rightarrow> Some v6
      | (Some v4, None) \<Rightarrow> Some v4
      | (None, None) \<Rightarrow> None)"

text \<open>The address a QAD probe found against the one known: the known address and whether it varies.\<close>

definition observe ::
  "socket_addr \<Rightarrow> socket_addr option \<times> bool option \<Rightarrow> socket_addr option \<times> bool option" where
  "observe ipp seen =
     (case seen of
        (Some global, varies) \<Rightarrow>
          (if global = ipp then (Some global, if varies = None then Some False else varies)
           else (Some global, Some True))
      | (None, varies) \<Rightarrow> (Some ipp, varies))"

definition record_latency :: "relay_url \<Rightarrow> duration \<Rightarrow> probe \<Rightarrow> report \<Rightarrow> report" where
  "record_latency url latency p r = r\<lparr>relay_latency := update_relay url latency p (relay_latency r)\<rparr>"

definition report_update :: "probe_report \<Rightarrow> report \<Rightarrow> report" where
  "report_update pr r =
     (case pr of
        R_Https relay latency \<Rightarrow> record_latency relay latency Https r
      | R_Qad4 q \<Rightarrow>
         (let r1 = record_latency (qr_relay q) (qr_latency q) QadIpv4 r in
          case qr_addr q of
            SocketV6 _ _ _ _ \<Rightarrow> r1
          | SocketV4 _ _ \<Rightarrow>
             (case observe (qr_addr q) (global_v4 r, mapping_varies_by_dest_ipv4 r) of
                (global, varies) \<Rightarrow> r1\<lparr>udp_v4 := True, global_v4 := global, mapping_varies_by_dest_ipv4 := varies\<rparr>))
      | R_Qad6 q \<Rightarrow>
         (let r1 = record_latency (qr_relay q) (qr_latency q) QadIpv6 r in
          case qr_addr q of
            SocketV4 _ _ \<Rightarrow> r1
          | SocketV6 _ _ _ _ \<Rightarrow>
             (case observe (qr_addr q) (global_v6 r, mapping_varies_by_dest_ipv6 r) of
                (global, varies) \<Rightarrow> r1\<lparr>udp_v6 := True, global_v6 := global, mapping_varies_by_dest_ipv6 := varies\<rparr>)))"

section \<open>Probe plans\<close>

definition DEFAULT_INITIAL_RETRANSMIT :: duration where "DEFAULT_INITIAL_RETRANSMIT = from_millis 100"
definition HTTPS_OFFSET :: duration where "HTTPS_OFFSET = from_millis 200"

record probe_set =
  ps_proto :: probe
  ps_probes :: "(duration \<times> relay_config) list"

fun probe_rank :: "probe \<Rightarrow> nat" where
  "probe_rank Https = 0"
| "probe_rank QadIpv4 = 1"
| "probe_rank QadIpv6 = 2"

text \<open>A plan is an ordered set of probe sets, by the derived order of their fields.\<close>

definition config_key :: "relay_config \<Rightarrow> string \<times> u16 option \<times> string option" where
  "config_key c = (rc_url c, rc_quic c, rc_auth_token c)"

definition probe_set_key :: "probe_set \<Rightarrow> nat \<times> (duration \<times> string \<times> u16 option \<times> string option) list" where
  "probe_set_key s = (probe_rank (ps_proto s), map (\<lambda>(d, c). (d, config_key c)) (ps_probes s))"

type_synonym probe_plan = "probe_set list"

definition plan_insert :: "probe_set \<Rightarrow> probe_plan \<Rightarrow> probe_plan" where
  "plan_insert s plan = (if s \<in> set plan then plan else insort_key probe_set_key s plan)"

definition add_if_enabled :: "probe list \<Rightarrow> probe_set \<Rightarrow> probe_plan \<Rightarrow> probe_plan" where
  "add_if_enabled protocols s plan =
     (if ps_probes s \<noteq> [] \<and> ps_proto s \<in> set protocols then plan_insert s plan else plan)"

definition https_probe_set :: "relay_config \<Rightarrow> probe_set" where
  "https_probe_set relay =
     \<lparr>ps_proto = Https, ps_probes = map (\<lambda>attempt. (HTTPS_OFFSET + DEFAULT_INITIAL_RETRANSMIT * attempt, relay)) [0, 1, 2]\<rparr>"

definition plan_initial :: "relay_map \<Rightarrow> probe list \<Rightarrow> probe_plan" where
  "plan_initial relays protocols =
     fold (\<lambda>relay. add_if_enabled protocols (https_probe_set relay)) (relay_map_relays relays) []"

definition plan_with_last_report :: "relay_map \<Rightarrow> report \<Rightarrow> probe list \<Rightarrow> probe_plan" where
  "plan_with_last_report relays last_report protocols =
     (if latencies_is_empty (relay_latency last_report) then plan_initial relays protocols else [])"

text \<open>\<open>Options::as_protocols\<close>: QUIC configuration by address family, and HTTPS probes.\<close>

definition as_protocols :: "(bool \<times> bool) option \<Rightarrow> bool \<Rightarrow> probe list" where
  "as_protocols quic https_probes =
     (if https_probes then [Https] else []) @
     (case quic of None \<Rightarrow> [] | Some (v4, v6) \<Rightarrow> (if v4 then [QadIpv4] else []) @ (if v6 then [QadIpv6] else []))"

section \<open>Generating a report\<close>

datatype probes_error = ProbeFailure | ProbeTimeout | ProbeCancelled

datatype probe_finished = Regular "probes_error + probe_report" | CaptivePortal "bool option"

text \<open>How the task of a probe ends, and what joining a task gives.\<close>

datatype task_outcome = Run_Ok duration | Run_Failed | Run_Timeout | Run_Cancelled | Task_Panicked | Task_Aborted

datatype task_join = Joined probe_finished | Join_Panic | Join_Error

type_synonym probe_task = "probe \<times> duration \<times> relay_config"

definition plan_tasks :: "probe_plan \<Rightarrow> probe_task list" where
  "plan_tasks plan = concat (map (\<lambda>s. map (\<lambda>(delay, relay). (ps_proto s, delay, relay)) (ps_probes s)) plan)"

text \<open>Running a QAD probe here is a panic: those probes are run by the client itself.\<close>

definition probe_join :: "probe_task \<Rightarrow> task_outcome \<Rightarrow> task_join" where
  "probe_join task outcome =
     (case task of (proto, delay, relay) \<Rightarrow>
       (case outcome of
          Run_Ok latency \<Rightarrow>
            (if proto = Https then Joined (Regular (Inr (R_Https (rc_url relay) latency))) else Join_Panic)
        | Run_Failed \<Rightarrow> (if proto = Https then Joined (Regular (Inl ProbeFailure)) else Join_Panic)
        | Run_Timeout \<Rightarrow> Joined (Regular (Inl ProbeTimeout))
        | Run_Cancelled \<Rightarrow> Joined (Regular (Inl ProbeCancelled))
        | Task_Panicked \<Rightarrow> Join_Panic
        | Task_Aborted \<Rightarrow> Join_Error))"

fun is_udp :: "probe_report \<Rightarrow> bool" where
  "is_udp (R_Qad4 _) = True"
| "is_udp (R_Qad6 _) = True"
| "is_udp (R_Https _ _) = False"

record gen_state =
  gs_num_probes :: nat
  gs_have_udp :: bool
  gs_captive_cancelled :: bool
  gs_sent :: "probe_finished list"

definition gen_finished :: "probe_finished \<Rightarrow> gen_state \<Rightarrow> gen_state" where
  "gen_finished rep s =
     (let s1 =
        (case rep of
           CaptivePortal _ \<Rightarrow> s
         | Regular result \<Rightarrow>
            (let udp = gs_have_udp s \<or> (case result of Inr r \<Rightarrow> is_udp r | Inl _ \<Rightarrow> False); n = gs_num_probes s - 1 in
             s\<lparr>gs_have_udp := udp, gs_num_probes := n,
               gs_captive_cancelled := gs_captive_cancelled s \<or> (n = 0 \<and> udp)\<rparr>)) in
      s1\<lparr>gs_sent := gs_sent s1 @ [rep]\<rparr>)"

fun gen_loop :: "task_join list \<Rightarrow> gen_state \<Rightarrow> gen_state" where
  "gen_loop [] s = s"
| "gen_loop (Joined rep # js) s = gen_loop js (gen_finished rep s)"
| "gen_loop (Join_Panic # js) s = s"
| "gen_loop (Join_Error # js) s = gen_loop js s"

text \<open>
  The captive portal check: the relay asked is the preferred one where it is known, or the one with
  the index drawn. The host name of a URL and the HTTP client are parameters; a response is its status
  and the text of its response header.
\<close>

definition captive_relay :: "relay_map \<Rightarrow> relay_url option \<Rightarrow> nat \<Rightarrow> relay_url option" where
  "captive_relay dm preferred i =
     (case Option.bind preferred (\<lambda>url. map_option (\<lambda>_. url) (relay_map_get dm url)) of
        Some url \<Rightarrow> Some url
      | None \<Rightarrow> (if relay_map_urls dm = [] then None else Some (relay_map_urls dm ! i)))"

definition check_captive_portal ::
  "(relay_url \<Rightarrow> string) \<Rightarrow> (string \<Rightarrow> string \<Rightarrow> unit + nat \<times> string option) \<Rightarrow> relay_map \<Rightarrow> relay_url option \<Rightarrow> nat \<Rightarrow> unit + bool" where
  "check_captive_portal host_str http_get dm preferred i =
     (case captive_relay dm preferred i of
        None \<Rightarrow> Inr False
      | Some url \<Rightarrow>
         (let host_name = host_str url; challenge = ''ts_'' @ host_name in
          and_then (http_get (''http://'' @ host_name @ ''/generate_204'') challenge) (\<lambda>(status, response).
            Inr (status \<noteq> 204 \<or> response \<noteq> Some (''response '' @ challenge)))))"

text \<open>The tasks that finish before the actor ends, in order.\<close>

datatype completion =
  Probe_Done nat task_outcome
| Captive_Done "(unit + bool) option"
| Captive_Panicked

definition completion_join :: "probe_task list \<Rightarrow> bool \<Rightarrow> completion \<Rightarrow> task_join option" where
  "completion_join tasks captive_spawned c =
     (case c of
        Probe_Done i outcome \<Rightarrow> (if i < length tasks then Some (probe_join (tasks ! i) outcome) else None)
      | Captive_Done res \<Rightarrow>
          (if captive_spawned
           then Some (Joined (CaptivePortal (case res of Some (Inr found) \<Rightarrow> Some found | _ \<Rightarrow> None))) else None)
      | Captive_Panicked \<Rightarrow> (if captive_spawned then Some Join_Panic else None))"

definition reportgen_plan :: "report option \<Rightarrow> relay_map \<Rightarrow> probe list \<Rightarrow> probe_plan" where
  "reportgen_plan last_report relays protocols =
     (case last_report of
        Some r \<Rightarrow> plan_with_last_report relays r protocols
      | None \<Rightarrow> plan_initial relays protocols)"

definition reportgen_run ::
  "report option \<Rightarrow> relay_map \<Rightarrow> probe list \<Rightarrow> bool \<Rightarrow> completion list \<Rightarrow> gen_state" where
  "reportgen_run last_report relays protocols captive_portal_check completions =
     (let tasks = plan_tasks (reportgen_plan last_report relays protocols);
          captive_spawned = (captive_portal_check \<and> last_report = None) in
      gen_loop (List.map_filter (completion_join tasks captive_spawned) completions)
        \<lparr>gs_num_probes = length tasks, gs_have_udp = False, gs_captive_cancelled = False, gs_sent = []\<rparr>)"

section \<open>Address discovery connections\<close>

text \<open>
  Of a QAD connection the client reads whether it is closed, the last observed address and the round
  trip time; connections are named by numbers.
\<close>

record qad_view =
  conn_closed :: "nat \<Rightarrow> bool"
  conn_observed :: "nat \<Rightarrow> qad_report option"
  conn_rtt :: "nat \<Rightarrow> duration option"

record qad_conns =
  qc_v4 :: "(relay_url \<times> nat) option"
  qc_v6 :: "(relay_url \<times> nat) option"

definition qad_clear :: "qad_conns \<Rightarrow> qad_conns \<times> nat list" where
  "qad_clear c =
     (\<lparr>qc_v4 = None, qc_v6 = None\<rparr>,
      (case qc_v4 c of Some (_, k) \<Rightarrow> [k] | None \<Rightarrow> []) @ (case qc_v6 c of Some (_, k) \<Rightarrow> [k] | None \<Rightarrow> []))"

definition drop_closed :: "qad_view \<Rightarrow> (relay_url \<times> nat) option \<Rightarrow> (relay_url \<times> nat) option" where
  "drop_closed V slot = (case slot of Some (url, k) \<Rightarrow> (if conn_closed V k then None else slot) | None \<Rightarrow> None)"

definition qad_current :: "qad_view \<Rightarrow> (relay_url \<times> nat) option \<Rightarrow> qad_report option" where
  "qad_current V slot =
     (case slot of
        None \<Rightarrow> None
      | Some (_, k) \<Rightarrow>
         map_option (\<lambda>r. case conn_rtt V k of Some latency \<Rightarrow> r\<lparr>qr_latency := latency\<rparr> | None \<Rightarrow> r) (conn_observed V k))"

datatype qad_join = QJ_Ok qad_report nat | QJ_Failed | QJ_Panicked

datatype qad_event = Join_V4 qad_join | Join_V6 qad_join | Qad_Shutdown

record qad_state =
  ql_reports :: "probe_report list"
  ql_v4_buf :: nat
  ql_v6_buf :: nat
  ql_ipv4_pending :: bool
  ql_ipv6_pending :: bool
  ql_conns :: qad_conns
  ql_closed :: "nat list"

datatype qad_result = Qad_Done qad_state | Qad_Waiting qad_state | Qad_Panicked

definition qad_join_v4 :: "qad_join \<Rightarrow> qad_state \<Rightarrow> qad_state option" where
  "qad_join_v4 j q =
     (let q1 = q\<lparr>ql_v4_buf := ql_v4_buf q - 1, ql_ipv4_pending := False\<rparr> in
      case j of
        QJ_Ok r k \<Rightarrow>
          (let q2 = q1\<lparr>ql_reports := ql_reports q1 @ [R_Qad4 r]\<rparr> in
           Some (if qc_v4 (ql_conns q2) = None then q2\<lparr>ql_conns := (ql_conns q2)\<lparr>qc_v4 := Some (qr_relay r, k)\<rparr>\<rparr>
                 else q2\<lparr>ql_closed := ql_closed q2 @ [k]\<rparr>))
      | QJ_Failed \<Rightarrow> Some q1
      | QJ_Panicked \<Rightarrow> None)"

definition qad_join_v6 :: "qad_join \<Rightarrow> qad_state \<Rightarrow> qad_state option" where
  "qad_join_v6 j q =
     (let q1 = q\<lparr>ql_v6_buf := ql_v6_buf q - 1, ql_ipv6_pending := False\<rparr> in
      case j of
        QJ_Ok r k \<Rightarrow>
          (let q2 = q1\<lparr>ql_reports := ql_reports q1 @ [R_Qad6 r]\<rparr> in
           Some (if qc_v6 (ql_conns q2) = None then q2\<lparr>ql_conns := (ql_conns q2)\<lparr>qc_v6 := Some (qr_relay r, k)\<rparr>\<rparr>
                 else q2\<lparr>ql_closed := ql_closed q2 @ [k]\<rparr>))
      | QJ_Failed \<Rightarrow> Some q1
      | QJ_Panicked \<Rightarrow> None)"

text \<open>Joining the probes in the order they finish; an event of an empty set does not occur.\<close>

fun qad_loop :: "nat \<Rightarrow> qad_event list \<Rightarrow> qad_state \<Rightarrow> qad_result" where
  "qad_loop enough_relays evs q =
     (if ql_v4_buf q = 0 \<and> ql_v6_buf q = 0 then Qad_Done q
      else if length (ql_reports q) \<ge> enough_relays \<and> \<not> ql_ipv4_pending q \<and> \<not> ql_ipv6_pending q then Qad_Done q
      else
        (case evs of
           [] \<Rightarrow> Qad_Waiting q
         | Qad_Shutdown # _ \<Rightarrow> Qad_Done q
         | Join_V4 j # rest \<Rightarrow>
             (if ql_v4_buf q = 0 then qad_loop enough_relays rest q
              else case qad_join_v4 j q of None \<Rightarrow> Qad_Panicked | Some q' \<Rightarrow> qad_loop enough_relays rest q')
         | Join_V6 j # rest \<Rightarrow>
             (if ql_v6_buf q = 0 then qad_loop enough_relays rest q
              else case qad_join_v6 j q of None \<Rightarrow> Qad_Panicked | Some q' \<Rightarrow> qad_loop enough_relays rest q')))"

declare qad_loop.simps [simp del]

definition MAX_RELAYS :: nat where "MAX_RELAYS = 5"

definition spawn_qad_probes ::
  "qad_view \<Rightarrow> bool \<Rightarrow> bool \<Rightarrow> bool \<Rightarrow> nat \<Rightarrow> bool \<Rightarrow> relay_map \<Rightarrow> qad_event list \<Rightarrow> qad_conns \<Rightarrow> qad_result" where
  "spawn_qad_probes V quic_client have_v4 have_v6 enough_relays do_full relays evs conns =
     (let q0 = \<lparr>ql_reports = [], ql_v4_buf = 0, ql_v6_buf = 0, ql_ipv4_pending = False, ql_ipv6_pending = False,
                ql_conns = conns, ql_closed = []\<rparr> in
      if \<not> quic_client then Qad_Done q0
      else
        (let (conns1, closed) = (if do_full then qad_clear conns else (conns, []));
             conns2 = \<lparr>qc_v4 = drop_closed V (qc_v4 conns1), qc_v6 = drop_closed V (qc_v6 conns1)\<rparr>;
             v4_report = qad_current V (qc_v4 conns2);
             v6_report = qad_current V (qc_v6 conns2);
             needs_v4 = (v4_report = None);
             needs_v6 = ((v6_report \<noteq> None) \<noteq> have_v6);
             reports = map R_Qad4 (case v4_report of Some r \<Rightarrow> [r] | None \<Rightarrow> []) @
                       map R_Qad6 (case v6_report of Some r \<Rightarrow> [r] | None \<Rightarrow> []);
             q1 = q0\<lparr>ql_reports := reports, ql_conns := conns2, ql_closed := closed\<rparr> in
         if \<not> needs_v4 \<and> \<not> needs_v6 then Qad_Done q1
         else
           (let n = min MAX_RELAYS (length (relay_map_relays relays));
                v4_buf = (if have_v4 \<and> needs_v4 then n else 0);
                v6_buf = (if have_v6 \<and> needs_v6 then n else 0) in
            qad_loop enough_relays evs
              (q1\<lparr>ql_v4_buf := v4_buf, ql_v6_buf := v6_buf, ql_ipv4_pending := v4_buf \<noteq> 0, ql_ipv6_pending := v6_buf \<noteq> 0\<rparr>))))"

section \<open>The client\<close>

definition FULL_REPORT_INTERVAL :: duration where "FULL_REPORT_INTERVAL = from_secs (5 * 60)"
definition MAX_AGE :: duration where "MAX_AGE = from_secs (5 * 60)"
definition ENOUGH_ENDPOINTS :: nat where "ENOUGH_ENDPOINTS = 3"

record reports =
  next_full :: bool
  prev_reports :: "(nat \<times> report) list"
  last_report :: "report option"
  last_full :: nat

definition reports_default :: "nat \<Rightarrow> reports" where
  "reports_default now = \<lparr>next_full = True, prev_reports = [], last_report = None, last_full = now\<rparr>"

record net_client =
  nc_relay_map :: relay_map
  nc_probes :: "probe list"
  nc_quic_client :: bool
  nc_captive_portal_check :: bool
  nc_qad_conns :: qad_conns
  nc_reports :: reports
  nc_reports_full :: nat
  nc_reports_total :: nat

text \<open>\<open>Client::new\<close>\<close>

definition net_client_new :: "nat \<Rightarrow> relay_map \<Rightarrow> (bool \<times> bool) option \<Rightarrow> bool \<Rightarrow> bool \<Rightarrow> net_client" where
  "net_client_new now relays quic https_probes captive_check =
     \<lparr>nc_relay_map = relays, nc_probes = as_protocols quic https_probes, nc_quic_client = (quic \<noteq> None),
      nc_captive_portal_check = captive_check, nc_qad_conns = \<lparr>qc_v4 = None, qc_v6 = None\<rparr>,
      nc_reports = reports_default now, nc_reports_full = 0, nc_reports_total = 0\<rparr>"

definition wants_full :: "nat \<Rightarrow> bool \<Rightarrow> reports \<Rightarrow> bool" where
  "wants_full now is_major rs \<longleftrightarrow>
     is_major \<or> next_full rs \<or> now - last_full rs > FULL_REPORT_INTERVAL \<or>
     (case last_report rs of Some l \<Rightarrow> \<not> has_udp l \<and> captive_portal l = Some True | None \<Rightarrow> False)"

definition report_begin :: "nat \<Rightarrow> bool \<Rightarrow> net_client \<Rightarrow> bool \<times> net_client" where
  "report_begin now is_major cl =
     (let do_full = wants_full now is_major (nc_reports cl);
          cl1 = (if do_full
                 then cl\<lparr>nc_reports := (nc_reports cl)\<lparr>last_report := None, next_full := False, last_full := now\<rparr>,
                         nc_reports_full := nc_reports_full cl + 1\<rparr>
                 else cl) in
      (do_full, cl1\<lparr>nc_reports_total := nc_reports_total cl1 + 1\<rparr>))"

definition count_probe :: "probe \<Rightarrow> report \<Rightarrow> nat" where
  "count_probe p r = length (filter (\<lambda>(typ, _, _). typ = p) (latencies_iter (relay_latency r)))"

definition have_enough_reports :: "bool \<Rightarrow> bool \<Rightarrow> bool \<Rightarrow> nat \<Rightarrow> report \<Rightarrow> bool" where
  "have_enough_reports have_v4 have_v6 do_full num_relays r =
     (let num_ipv4 = count_probe QadIpv4 r; num_ipv6 = count_probe QadIpv6 r; num_https = count_probe Https r in
      (if do_full then
         (case (have_v4, have_v6) of
            (True, True) \<Rightarrow> num_ipv4 \<ge> 2 \<and> num_ipv6 \<ge> 1 \<or> num_ipv6 \<ge> 2 \<and> num_ipv4 \<ge> 1
          | (True, False) \<Rightarrow> num_ipv4 \<ge> 2
          | (False, True) \<Rightarrow> num_ipv6 \<ge> 2
          | (False, False) \<Rightarrow> False)
       else
         (case (have_v4, have_v6) of
            (True, True) \<Rightarrow> num_ipv4 \<ge> 1 \<and> num_ipv6 \<ge> 1
          | (True, False) \<Rightarrow> num_ipv4 \<ge> 1
          | (False, True) \<Rightarrow> num_ipv6 \<ge> 1
          | (False, False) \<Rightarrow> False)) \<or>
      num_https \<ge> num_relays)"

text \<open>
  Collecting the messages of the report generator; before each of them, and before the end, the QAD
  connections may report new addresses.
\<close>

definition next_updates :: "probe_report list list \<Rightarrow> probe_report list" where
  "next_updates updates = (case updates of [] \<Rightarrow> [] | us # _ \<Rightarrow> us)"

fun report_loop :: "(report \<Rightarrow> bool) \<Rightarrow> probe_report list list \<Rightarrow> probe_finished list \<Rightarrow> report \<Rightarrow> report" where
  "report_loop enough updates [] r = fold report_update (next_updates updates) r"
| "report_loop enough updates (m # ms) r =
     (let r1 = fold report_update (next_updates updates) r in
      case m of
        Regular (Inr p) \<Rightarrow>
          (let r2 = report_update p r1 in if enough r2 then r2 else report_loop enough (tl updates) ms r2)
      | Regular (Inl _) \<Rightarrow> report_loop enough (tl updates) ms r1
      | CaptivePortal portal \<Rightarrow> report_loop enough (tl updates) ms (r1\<lparr>captive_portal := portal\<rparr>))"

definition watched :: "qad_conns \<Rightarrow> probe_report \<Rightarrow> bool" where
  "watched c u =
     (case u of R_Qad4 _ \<Rightarrow> qc_v4 c \<noteq> None | R_Qad6 _ \<Rightarrow> qc_v6 c \<noteq> None | R_Https _ _ \<Rightarrow> False)"

section \<open>The preferred relay\<close>

definition recent_reports :: "nat \<Rightarrow> (nat \<times> report) list \<Rightarrow> (nat \<times> report) list" where
  "recent_reports now prev = filter (\<lambda>(t, _). \<not> now - t > MAX_AGE) prev"

definition best_recent :: "nat \<Rightarrow> (nat \<times> report) list \<Rightarrow> report \<Rightarrow> relay_latencies" where
  "best_recent now prev r =
     latencies_merge (relay_latency r)
       (fold (\<lambda>(_, pr). latencies_merge (relay_latency pr)) (recent_reports now prev) latencies_default)"

record pick_state =
  pk_preferred :: "relay_url option"
  pk_best_any :: duration
  pk_old_latency :: duration

definition pick_relay :: "relay_url option \<Rightarrow> relay_latencies \<Rightarrow> probe \<times> relay_url \<times> duration \<Rightarrow> pick_state \<Rightarrow> pick_state" where
  "pick_relay prev_relay best entry s =
     (case entry of (_, url, d) \<Rightarrow>
       (let s1 = (if Some url = prev_relay then s\<lparr>pk_old_latency := d\<rparr> else s) in
        case latencies_get best url of
          Some b \<Rightarrow>
            (if pk_preferred s1 = None \<or> b < pk_best_any s1
             then s1\<lparr>pk_best_any := b, pk_preferred := Some url\<rparr> else s1)
        | None \<Rightarrow> s1))"

definition keep_previous :: "relay_url option \<Rightarrow> pick_state \<Rightarrow> relay_url option" where
  "keep_previous prev_relay s =
     (if prev_relay \<noteq> None \<and> pk_preferred s \<noteq> prev_relay \<and> pk_old_latency s \<noteq> 0 \<and>
         pk_best_any s > pk_old_latency s div 3 * 2
      then prev_relay else pk_preferred s)"

definition copy_mapping :: "report option \<Rightarrow> report \<Rightarrow> report" where
  "copy_mapping latest r =
     (case latest of
        None \<Rightarrow> r
      | Some l \<Rightarrow>
         r\<lparr>mapping_varies_by_dest_ipv4 :=
              (if mapping_varies_by_dest_ipv4 r = None then mapping_varies_by_dest_ipv4 l else mapping_varies_by_dest_ipv4 r),
            mapping_varies_by_dest_ipv6 :=
              (if mapping_varies_by_dest_ipv6 r = None then mapping_varies_by_dest_ipv6 l else mapping_varies_by_dest_ipv6 r)\<rparr>)"

definition add_report_history_and_set_preferred_relay :: "nat \<Rightarrow> report \<Rightarrow> reports \<Rightarrow> report \<times> reports" where
  "add_report_history_and_set_preferred_relay now r0 rs =
     (let prev_relay = Option.bind (last_report rs) preferred_relay;
          r = copy_mapping (last_report rs) r0;
          best = best_recent now (prev_reports rs) r;
          s = fold (pick_relay prev_relay best) (latencies_iter (relay_latency r))
                \<lparr>pk_preferred = preferred_relay r, pk_best_any = 0, pk_old_latency = 0\<rparr>;
          r1 = r\<lparr>preferred_relay := keep_previous prev_relay s\<rparr> in
      (r1, rs\<lparr>prev_reports := bt_update now r1 (recent_reports now (prev_reports rs)), last_report := Some r1\<rparr>))"

section \<open>One report\<close>

text \<open>What the outside contributes to one report.\<close>

record report_env =
  re_now :: nat
  re_is_major :: bool
  re_have_v4 :: bool
  re_have_v6 :: bool
  re_qad :: qad_view
  re_qad_events :: "qad_event list"
  re_completions :: "completion list"
  re_updates :: "probe_report list list"
  re_end :: nat

datatype report_result = Report_Ready report net_client | Report_Waiting | Report_Panicked

definition collect_report :: "report_env \<Rightarrow> bool \<Rightarrow> net_client \<Rightarrow> qad_state \<Rightarrow> report" where
  "collect_report env do_full cl q =
     (let enough = have_enough_reports (re_have_v4 env) (re_have_v6 env) do_full (relay_map_len (nc_relay_map cl));
          r = fold report_update (ql_reports q) report_default in
      if enough r then r
      else report_loop enough (map (filter (watched (ql_conns q))) (re_updates env))
             (gs_sent (reportgen_run (last_report (nc_reports cl)) (nc_relay_map cl) (nc_probes cl)
                        (nc_captive_portal_check cl) (re_completions env))) r)"

definition get_report :: "report_env \<Rightarrow> net_client \<Rightarrow> report_result" where
  "get_report env cl =
     (case report_begin (re_now env) (re_is_major env) cl of (do_full, cl1) \<Rightarrow>
       (let enough_relays = min (relay_map_len (nc_relay_map cl1)) ENOUGH_ENDPOINTS in
        case spawn_qad_probes (re_qad env) (nc_quic_client cl1) (re_have_v4 env) (re_have_v6 env) enough_relays
               do_full (nc_relay_map cl1) (re_qad_events env) (nc_qad_conns cl1) of
          Qad_Waiting _ \<Rightarrow> Report_Waiting
        | Qad_Panicked \<Rightarrow> Report_Panicked
        | Qad_Done q \<Rightarrow>
           (case add_report_history_and_set_preferred_relay (re_end env) (collect_report env do_full cl1 q) (nc_reports cl1) of
              (r, rs) \<Rightarrow> Report_Ready r (cl1\<lparr>nc_qad_conns := ql_conns q, nc_reports := rs\<rparr>))))"

end
