(* ===== verification/Report_Behaviour.thy ===== *)
theory Report_Behaviour
  imports Net_Report
begin

text \<open>
  What network reports say: recorded latencies are the least ones measured, a report is determined by
  the addresses its probes observed, the preferred relay is the one with the least recent latency
  unless the previous one is not much worse, and address discovery ends once its probes have finished.
\<close>

section \<open>Least latencies\<close>

fun min_opt :: "duration option \<Rightarrow> duration option \<Rightarrow> duration option" where
  "min_opt None b = b"
| "min_opt a None = a"
| "min_opt (Some a) (Some b) = Some (min a b)"

lemma min_opt_None [simp]: "min_opt a None = a"
  by (cases a) simp_all

lemma min_opt_assoc: "min_opt (min_opt a b) c = min_opt a (min_opt b c)"
  by (cases a; cases b; cases c) (simp_all add: min.assoc)

lemma min_opt_left_commute: "min_opt a (min_opt b c) = min_opt b (min_opt a c)"
  by (cases a; cases b; cases c) (simp_all add: min.left_commute)

lemma min_opt_commute: "min_opt a b = min_opt b a"
  by (cases a; cases b) (simp_all add: min.commute)

lemmas min_opt_ac = min_opt_assoc min_opt_left_commute min_opt_commute

lemma min_opt_Some_iff: "min_opt a b = None \<longleftrightarrow> a = None \<and> b = None"
  by (cases a; cases b) simp_all

lemma list_min_Nil [simp]: "list_min [] = None"
  by (simp add: list_min_def)

lemma fold_min: "fold min ds (min a b) = min a (fold min ds (b :: duration))"
  by (induction ds arbitrary: b) (simp, metis fold_simps(2) min.left_commute)

lemma list_min_Cons [simp]: "list_min (d # ds) = min_opt (Some d) (list_min ds)"
proof (cases ds)
  case (Cons a rest)
  then show ?thesis using fold_min [of rest d a] by (simp add: list_min_def min.commute)
qed (simp add: list_min_def)

lemma list_min_map_filter_Cons:
  "list_min (List.map_filter f (x # xs)) = min_opt (f x) (list_min (List.map_filter f xs))"
  by (cases "f x") (simp_all add: List.map_filter_simps)

lemma list_min_map_filter_Nil: "list_min (List.map_filter f []) = None"
  by (simp add: List.map_filter_simps)

lemma latencies_get_min:
  "latencies_get l u = min_opt (map_of (lat_https l) u) (min_opt (map_of (lat_ipv4 l) u) (map_of (lat_ipv6 l) u))"
  by (simp only: latencies_get_def list_min_map_filter_Cons list_min_map_filter_Nil min_opt_None)

definition latencies_ok :: "relay_latencies \<Rightarrow> bool" where
  "latencies_ok l \<longleftrightarrow> bt_ok (lat_https l) \<and> bt_ok (lat_ipv4 l) \<and> bt_ok (lat_ipv6 l)"

lemma latencies_ok_default [simp]: "latencies_ok latencies_default"
  by (simp add: latencies_ok_def latencies_default_def)

lemma bt_ok_lower [simp]: "bt_ok l \<Longrightarrow> bt_ok (lower u d l)"
  by (simp add: lower_def split: option.splits)

lemma map_of_lower: "map_of (lower u d l) v = (if v = u then min_opt (Some d) (map_of l u) else map_of l v)"
  by (auto simp: lower_def min_def split: option.splits)

lemma latencies_ok_update [simp]: "latencies_ok l \<Longrightarrow> latencies_ok (update_relay u d p l)"
  by (cases p) (simp_all add: latencies_ok_def)

lemma update_relay_get:
  "map_of (latencies_of p' (update_relay u d p l)) v =
     (if p' = p \<and> v = u then min_opt (Some d) (map_of (latencies_of p l) u) else map_of (latencies_of p' l) v)"
  by (cases p; cases p') (simp_all add: map_of_lower)

lemma latencies_ok_merge_list: "latencies_ok l \<Longrightarrow> latencies_ok (merge_list p xs l)"
  unfolding merge_list_def by (induction xs arbitrary: l) auto

lemma latencies_ok_merge [simp]: "latencies_ok l \<Longrightarrow> latencies_ok (latencies_merge other l)"
  by (simp add: latencies_merge_def latencies_ok_merge_list)

lemma merge_list_get:
  "distinct (map fst xs) \<Longrightarrow> map_of (latencies_of p' (merge_list p xs l)) v =
     (if p' = p then min_opt (map_of xs v) (map_of (latencies_of p l) v) else map_of (latencies_of p' l) v)"
proof (induction xs arbitrary: l)
  case (Cons x xs)
  obtain u d where x: "x = (u, d)" by (cases x)
  have "u \<notin> fst ` set xs" "distinct (map fst xs)" using Cons.prems by (simp_all add: x)
  moreover from calculation have "map_of xs u = None" by (simp add: map_of_eq_None_iff)
  ultimately show ?case using Cons.IH [of "update_relay u d p l"]
    by (auto simp: merge_list_def x update_relay_get)
qed (simp add: merge_list_def)

lemma latencies_merge_get:
  assumes "latencies_ok other"
  shows "latencies_get (latencies_merge other l) u = min_opt (latencies_get other u) (latencies_get l u)"
proof -
  have d: "distinct (map fst (lat_https other))" "distinct (map fst (lat_ipv4 other))" "distinct (map fst (lat_ipv6 other))"
    using assms by (simp_all add: latencies_ok_def bt_ok_distinct)
  let ?m = "latencies_merge other l"
  note g = merge_list_get [OF d(1)] merge_list_get [OF d(2)] merge_list_get [OF d(3)]
  have "map_of (latencies_of Https ?m) u = min_opt (map_of (lat_https other) u) (map_of (lat_https l) u)"
    "map_of (latencies_of QadIpv4 ?m) u = min_opt (map_of (lat_ipv4 other) u) (map_of (lat_ipv4 l) u)"
    "map_of (latencies_of QadIpv6 ?m) u = min_opt (map_of (lat_ipv6 other) u) (map_of (lat_ipv6 l) u)"
    unfolding latencies_merge_def g by simp_all
  then show ?thesis by (simp add: latencies_get_min min_opt_ac)
qed

text \<open>The best recent latency of a relay is the least one over the recent reports and the current one.\<close>

definition least_latency :: "report list \<Rightarrow> relay_url \<Rightarrow> duration option" where
  "least_latency reps u = list_min (List.map_filter (\<lambda>r. latencies_get (relay_latency r) u) reps)"

lemma least_latency_simps [simp]:
  "least_latency [] u = None"
  "least_latency (r # reps) u = min_opt (latencies_get (relay_latency r) u) (least_latency reps u)"
  by (simp_all only: least_latency_def list_min_map_filter_Cons list_min_map_filter_Nil)

lemma best_recent_get:
  assumes "latencies_ok (relay_latency r)" "\<forall>(t, pr) \<in> set prev. latencies_ok (relay_latency pr)"
  shows "latencies_get (best_recent now prev r) u = least_latency (r # map snd (recent_reports now prev)) u"
proof -
  have "latencies_get (fold (\<lambda>(_, pr). latencies_merge (relay_latency pr)) ps l) u =
      min_opt (least_latency (map snd ps) u) (latencies_get l u)"
    if "\<forall>(t, pr) \<in> set ps. latencies_ok (relay_latency pr)" for ps :: "(nat \<times> report) list" and l
    using that
  proof (induction ps arbitrary: l)
    case (Cons p ps)
    then show ?case by (cases p) (simp add: latencies_merge_get min_opt_ac)
  qed simp
  moreover have "latencies_get latencies_default u = None"
    by (simp add: latencies_get_min latencies_default_def)
  moreover have "\<forall>(t, pr) \<in> set (recent_reports now prev). latencies_ok (relay_latency pr)"
    using assms(2) by (auto simp: recent_reports_def)
  ultimately show ?thesis using assms(1) by (simp add: best_recent_def latencies_merge_get)
qed

section \<open>Picking the relay\<close>

definition iter_urls :: "(probe \<times> relay_url \<times> duration) list \<Rightarrow> relay_url set" where
  "iter_urls es = (\<lambda>(_, u, _). u) ` set es"

lemma iter_urls_snoc [simp]: "iter_urls (es @ [(p, u, d)]) = insert u (iter_urls es)"
  by (simp add: iter_urls_def)

text \<open>The latency of the previous relay that the choice looks at: the last one of the iteration.\<close>

definition current_latency :: "relay_url option \<Rightarrow> (probe \<times> relay_url \<times> duration) list \<Rightarrow> duration" where
  "current_latency prev es =
     (let fs = filter (\<lambda>(_, u, _). Some u = prev) es in if fs = [] then 0 else snd (snd (last fs)))"

lemma current_latency_snoc:
  "current_latency prev (es @ [(p, u, d)]) = (if Some u = prev then d else current_latency prev es)"
  by (simp add: current_latency_def Let_def)

lemma current_latency_measured: "current_latency prev es \<noteq> 0 \<Longrightarrow> \<exists>u. prev = Some u \<and> u \<in> iter_urls es"
proof (induction es rule: rev_induct)
  case (snoc e es)
  then show ?case by (cases e) (auto simp: current_latency_snoc split: if_splits)
qed (simp add: current_latency_def)

lemma pick_fold:
  assumes "\<forall>u \<in> iter_urls es. latencies_get best u = Some (b u)"
    and "s = fold (pick_relay prev best) es \<lparr>pk_preferred = None, pk_best_any = 0, pk_old_latency = 0\<rparr>"
  shows "(pk_preferred s = None \<longleftrightarrow> es = []) \<and> pk_old_latency s = current_latency prev es \<and>
    (\<forall>c. pk_preferred s = Some c \<longrightarrow> c \<in> iter_urls es \<and> pk_best_any s = b c \<and> (\<forall>u \<in> iter_urls es. b c \<le> b u))"
  using assms(1) unfolding assms(2)
proof (induction es rule: rev_induct)
  case Nil
  then show ?case by (simp add: current_latency_def)
next
  case (snoc e es)
  obtain p u d where e: "e = (p, u, d)" by (cases e)
  have u: "latencies_get best u = Some (b u)" "\<forall>u \<in> iter_urls es. latencies_get best u = Some (b u)"
    using snoc.prems by (simp_all add: e)
  define t where "t = fold (pick_relay prev best) es \<lparr>pk_preferred = None, pk_best_any = 0, pk_old_latency = 0\<rparr>"
  have IH: "pk_preferred t = None \<longleftrightarrow> es = []" "pk_old_latency t = current_latency prev es"
    "pk_preferred t = Some c \<Longrightarrow> c \<in> iter_urls es \<and> pk_best_any t = b c \<and> (\<forall>u \<in> iter_urls es. b c \<le> b u)" for c
    using snoc.IH [OF u(2)] unfolding t_def by simp_all
  have step: "fold (pick_relay prev best) (es @ [e]) \<lparr>pk_preferred = None, pk_best_any = 0, pk_old_latency = 0\<rparr> = pick_relay prev best e t"
    by (simp add: t_def)
  show ?case
  proof (cases "pk_preferred t")
    case None
    then have "iter_urls es = {}" using IH(1) by (simp add: iter_urls_def)
    then show ?thesis unfolding step using None u(1) IH(2) by (auto simp: e pick_relay_def Let_def current_latency_snoc)
  next
    case (Some c)
    then show ?thesis unfolding step using u(1) IH(2) IH(3) [OF Some]
      by (cases "b u < b c") (force simp: e pick_relay_def Let_def current_latency_snoc)+
  qed
qed

lemma keep_previous_cases:
  "keep_previous prev s = pk_preferred s \<or>
   (keep_previous prev s = prev \<and> prev \<noteq> None \<and> pk_old_latency s \<noteq> 0 \<and> pk_best_any s > pk_old_latency s div 3 * 2)"
  by (simp add: keep_previous_def)

section \<open>Collecting a report\<close>

lemma report_update_captive [simp]:
  "report_update pr (r\<lparr>captive_portal := c\<rparr>) = (report_update pr r)\<lparr>captive_portal := c\<rparr>"
  by (auto simp: report_update_def record_latency_def Let_def split: probe_report.splits socket_addr.splits prod.splits)

lemma report_update_fold_captive [simp]:
  "fold report_update prs (r\<lparr>captive_portal := c\<rparr>) = (fold report_update prs r)\<lparr>captive_portal := c\<rparr>"
  by (induction prs arbitrary: r) simp_all

lemma report_update_preferred [simp]: "preferred_relay (report_update pr r) = preferred_relay r"
  by (auto simp: report_update_def record_latency_def Let_def split: probe_report.splits socket_addr.splits prod.splits)

lemma report_update_latency:
  "relay_latency (report_update pr r) =
     (case pr of
        R_Https u d \<Rightarrow> update_relay u d Https (relay_latency r)
      | R_Qad4 q \<Rightarrow> update_relay (qr_relay q) (qr_latency q) QadIpv4 (relay_latency r)
      | R_Qad6 q \<Rightarrow> update_relay (qr_relay q) (qr_latency q) QadIpv6 (relay_latency r))"
  by (auto simp: report_update_def record_latency_def Let_def split: probe_report.splits socket_addr.splits prod.splits)

lemma report_update_latencies_ok: "latencies_ok (relay_latency r) \<Longrightarrow> latencies_ok (relay_latency (report_update pr r))"
  by (simp add: report_update_latency latencies_ok_def split: probe_report.splits)

lemma report_fold_facts:
  "preferred_relay (fold report_update prs r) = preferred_relay r"
  "latencies_ok (relay_latency r) \<Longrightarrow> latencies_ok (relay_latency (fold report_update prs r))"
  by (induction prs arbitrary: r) (simp_all add: report_update_latencies_ok)

text \<open>Every collected report is the probe reports seen, one after the other, and a captive portal.\<close>

lemma report_loop_fold: "\<exists>prs c. report_loop enough ups ms r = (fold report_update prs r)\<lparr>captive_portal := c\<rparr>"
proof (induction enough ups ms r rule: report_loop.induct)
  case (1 enough ups r)
  have "fold report_update (next_updates ups) r =
      (fold report_update (next_updates ups) r)\<lparr>captive_portal := captive_portal (fold report_update (next_updates ups) r)\<rparr>" by simp
  then show ?case by (metis report_loop.simps(1))
next
  case (2 enough ups m ms r)
  let ?r1 = "fold report_update (next_updates ups) r"
  have same: "x = x\<lparr>captive_portal := captive_portal x\<rparr>" for x :: report by simp
  show ?case
  proof (cases m)
    case (Regular res)
    show ?thesis
    proof (cases res)
      case (Inl e)
      obtain prs c where "report_loop enough (tl ups) ms ?r1 = (fold report_update prs ?r1)\<lparr>captive_portal := c\<rparr>"
        using 2(1) [OF refl Regular Inl] by blast
      then have "report_loop enough ups (m # ms) r = (fold report_update (next_updates ups @ prs) r)\<lparr>captive_portal := c\<rparr>"
        by (simp add: Regular Inl Let_def)
      then show ?thesis by blast
    next
      case (Inr p)
      show ?thesis
      proof (cases "enough (report_update p ?r1)")
        case True
        have "report_loop enough ups (m # ms) r = fold report_update (next_updates ups @ [p]) r"
          using True by (simp add: Regular Inr Let_def)
        then show ?thesis using same by metis
      next
        case False
        obtain prs c where "report_loop enough (tl ups) ms (report_update p ?r1) = (fold report_update prs (report_update p ?r1))\<lparr>captive_portal := c\<rparr>"
          using 2(2) [OF refl Regular Inr refl False] by blast
        then have "report_loop enough ups (m # ms) r = (fold report_update (next_updates ups @ p # prs) r)\<lparr>captive_portal := c\<rparr>"
          using False by (simp add: Regular Inr Let_def)
        then show ?thesis by blast
      qed
    qed
  next
    case (CaptivePortal portal)
    obtain prs c where "report_loop enough (tl ups) ms (?r1\<lparr>captive_portal := portal\<rparr>) =
        (fold report_update prs (?r1\<lparr>captive_portal := portal\<rparr>))\<lparr>captive_portal := c\<rparr>"
      using 2(3) [OF refl CaptivePortal] by blast
    then have "report_loop enough ups (m # ms) r = (fold report_update (next_updates ups @ prs) r)\<lparr>captive_portal := c\<rparr>"
      by (simp add: CaptivePortal Let_def)
    then show ?thesis by blast
  qed
qed

lemma collect_report_fold: "\<exists>prs c. collect_report env do_full cl q = (fold report_update prs report_default)\<lparr>captive_portal := c\<rparr>"
proof -
  let ?r = "fold report_update (ql_reports q) report_default"
  have "?r = ?r\<lparr>captive_portal := captive_portal ?r\<rparr>" by simp
  moreover obtain prs c where "collect_report env do_full cl q = ?r \<or>
      collect_report env do_full cl q = (fold report_update (ql_reports q @ prs) report_default)\<lparr>captive_portal := c\<rparr>"
    using report_loop_fold by (fastforce simp: collect_report_def Let_def)
  ultimately show ?thesis by metis
qed

section \<open>Observed addresses\<close>

definition qad_addr :: "probe_report \<Rightarrow> socket_addr option" where
  "qad_addr pr =
     (case pr of
        R_Https _ _ \<Rightarrow> None
      | R_Qad4 q \<Rightarrow> (case qr_addr q of SocketV4 _ _ \<Rightarrow> Some (qr_addr q) | _ \<Rightarrow> None)
      | R_Qad6 q \<Rightarrow> (case qr_addr q of SocketV6 _ _ _ _ \<Rightarrow> Some (qr_addr q) | _ \<Rightarrow> None))"

definition is_v4 :: "socket_addr \<Rightarrow> bool" where
  "is_v4 a = (case a of SocketV4 _ _ \<Rightarrow> True | _ \<Rightarrow> False)"

definition v4_addrs :: "probe_report list \<Rightarrow> socket_addr list" where
  "v4_addrs prs = filter is_v4 (List.map_filter qad_addr prs)"

definition v6_addrs :: "probe_report list \<Rightarrow> socket_addr list" where
  "v6_addrs prs = filter (\<lambda>a. \<not> is_v4 a) (List.map_filter qad_addr prs)"

text \<open>The first address seen, and from the second on whether any differs from it.\<close>

definition first_addr :: "socket_addr list \<Rightarrow> socket_addr option" where
  "first_addr as = (case as of [] \<Rightarrow> None | a # _ \<Rightarrow> Some a)"

definition addr_varies :: "socket_addr list \<Rightarrow> bool option" where
  "addr_varies as = (if length as < 2 then None else Some (\<exists>a \<in> set as. a \<noteq> hd as))"

lemma observe_fold: "fold observe as (None, None) = (first_addr as, addr_varies as)"
proof (induction as rule: rev_induct)
  case (snoc a as)
  show ?case
  proof (cases as)
    case (Cons b bs)
    then show ?thesis using snoc by (auto simp: observe_def first_addr_def addr_varies_def)
  qed (simp add: observe_def first_addr_def addr_varies_def)
qed (simp add: first_addr_def addr_varies_def)

lemma report_update_addrs:
  "(global_v4 (report_update pr r), mapping_varies_by_dest_ipv4 (report_update pr r)) =
     fold observe (v4_addrs [pr]) (global_v4 r, mapping_varies_by_dest_ipv4 r)"
  "udp_v4 (report_update pr r) \<longleftrightarrow> udp_v4 r \<or> v4_addrs [pr] \<noteq> []"
  "(global_v6 (report_update pr r), mapping_varies_by_dest_ipv6 (report_update pr r)) =
     fold observe (v6_addrs [pr]) (global_v6 r, mapping_varies_by_dest_ipv6 r)"
  "udp_v6 (report_update pr r) \<longleftrightarrow> udp_v6 r \<or> v6_addrs [pr] \<noteq> []"
  by (auto simp: report_update_def record_latency_def Let_def v4_addrs_def v6_addrs_def qad_addr_def is_v4_def List.map_filter_simps
      split: probe_report.splits socket_addr.splits prod.splits)

lemma addrs_Cons: "v4_addrs (pr # prs) = v4_addrs [pr] @ v4_addrs prs" "v6_addrs (pr # prs) = v6_addrs [pr] @ v6_addrs prs"
  by (simp_all add: v4_addrs_def v6_addrs_def List.map_filter_simps split: option.splits)

lemma report_fold_addrs:
  "(global_v4 (fold report_update prs r), mapping_varies_by_dest_ipv4 (fold report_update prs r)) =
     fold observe (v4_addrs prs) (global_v4 r, mapping_varies_by_dest_ipv4 r)"
  "udp_v4 (fold report_update prs r) \<longleftrightarrow> udp_v4 r \<or> v4_addrs prs \<noteq> []"
  "(global_v6 (fold report_update prs r), mapping_varies_by_dest_ipv6 (fold report_update prs r)) =
     fold observe (v6_addrs prs) (global_v6 r, mapping_varies_by_dest_ipv6 r)"
  "udp_v6 (fold report_update prs r) \<longleftrightarrow> udp_v6 r \<or> v6_addrs prs \<noteq> []"
proof (induction prs arbitrary: r)
  case (Cons pr prs)
  {
    case 1 then show ?case
      by (simp only: fold_Cons o_def Cons.IH(1) report_update_addrs(1) addrs_Cons(1) [of pr prs] fold_append)
  next
    case 2 then show ?case using Cons.IH(2) [of "report_update pr r"] report_update_addrs(2) [of pr r] addrs_Cons(1) [of pr prs] by auto
  next
    case 3 then show ?case
      by (simp only: fold_Cons o_def Cons.IH(3) report_update_addrs(3) addrs_Cons(2) [of pr prs] fold_append)
  next
    case 4 then show ?case using Cons.IH(4) [of "report_update pr r"] report_update_addrs(4) [of pr r] addrs_Cons(2) [of pr prs] by auto
  }
qed (simp_all add: v4_addrs_def v6_addrs_def List.map_filter_simps)

text \<open>A fresh report: UDP works once an address was observed, the first address is the global one.\<close>

lemma report_of_probes:
  assumes "r = fold report_update prs report_default"
  shows "global_v4 r = first_addr (v4_addrs prs)" "mapping_varies_by_dest_ipv4 r = addr_varies (v4_addrs prs)"
    "udp_v4 r \<longleftrightarrow> v4_addrs prs \<noteq> []" "global_v6 r = first_addr (v6_addrs prs)"
    "mapping_varies_by_dest_ipv6 r = addr_varies (v6_addrs prs)" "udp_v6 r \<longleftrightarrow> v6_addrs prs \<noteq> []"
  using report_fold_addrs [of prs report_default] observe_fold
  by (simp_all add: assms report_default_def)

section \<open>The choice over time\<close>

definition measured :: "report \<Rightarrow> relay_url set" where
  "measured r = iter_urls (latencies_iter (relay_latency r))"

lemma ex_probe: "(\<exists>p. P p) \<longleftrightarrow> P Https \<or> P QadIpv4 \<or> P QadIpv6"
  by (metis probe.exhaust)

lemma measured_iff: "u \<in> measured r \<longleftrightarrow> (\<exists>p. map_of (latencies_of p (relay_latency r)) u \<noteq> None)"
proof -
  have "u \<in> measured r \<longleftrightarrow> u \<in> fst ` set (lat_https (relay_latency r)) \<or> u \<in> fst ` set (lat_ipv4 (relay_latency r)) \<or>
      u \<in> fst ` set (lat_ipv6 (relay_latency r))"
    by (force simp: measured_def iter_urls_def latencies_iter_def)
  also have "\<dots> \<longleftrightarrow> (\<exists>p. map_of (latencies_of p (relay_latency r)) u \<noteq> None)"
    unfolding ex_probe by (simp add: map_of_eq_None_iff del: not_None_eq)
  finally show ?thesis .
qed

lemma measured_get: "u \<in> measured r \<Longrightarrow> latencies_get (relay_latency r) u \<noteq> None"
  unfolding measured_iff ex_probe latencies_get_min by (auto simp: min_opt_Some_iff simp del: not_None_eq)

lemma measured_empty: "measured r = {} \<longleftrightarrow> latencies_is_empty (relay_latency r)"
  by (auto simp: measured_def iter_urls_def latencies_iter_def latencies_is_empty_def)

definition reports_ok :: "reports \<Rightarrow> bool" where
  "reports_ok rs \<longleftrightarrow> bt_ok (prev_reports rs) \<and> (\<forall>(t, pr) \<in> set (prev_reports rs). latencies_ok (relay_latency pr))"

text \<open>
  The preferred relay of a report, from the relays it measured, the least latencies over the recent
  reports and the previously preferred relay.
\<close>

definition chosen_relay :: "relay_url option \<Rightarrow> report \<Rightarrow> report list \<Rightarrow> relay_url option \<Rightarrow> bool" where
  "chosen_relay prev r recent choice \<longleftrightarrow>
     (let latency = (\<lambda>u. the (least_latency (r # recent) u));
          current = current_latency prev (latencies_iter (relay_latency r)) in
      if measured r = {} then choice = None
      else (\<exists>c \<in> measured r. (\<forall>u \<in> measured r. latency c \<le> latency u) \<and>
             choice = (if prev \<noteq> None \<and> prev \<noteq> Some c \<and> current \<noteq> 0 \<and> latency c > current div 3 * 2 then prev else Some c)))"

lemma chosen_relay_measured: "chosen_relay prev r recent (Some u) \<Longrightarrow> u \<in> measured r"
  using current_latency_measured [of prev "latencies_iter (relay_latency r)"]
  by (auto simp: chosen_relay_def Let_def measured_def split: if_splits)

lemma copy_mapping_same [simp]:
  "relay_latency (copy_mapping l r) = relay_latency r" "preferred_relay (copy_mapping l r) = preferred_relay r"
  by (simp_all add: copy_mapping_def split: option.splits)

lemma least_latency_cong: "relay_latency r = relay_latency r' \<Longrightarrow> least_latency (r # reps) u = least_latency (r' # reps) u"
  by simp

lemma bt_update_set: "set (bt_update k v m) \<subseteq> insert (k, v) (set m)"
proof (induction m)
  case (Cons p m)
  then show ?case by (cases p) auto
qed simp

lemma bt_ok_filter: "bt_ok m \<Longrightarrow> bt_ok (filter P m)"
  by (induction m) (auto simp: bt_ok_def)

lemma picked_relay_chosen:
  assumes best: "\<And>u. latencies_get best u = least_latency (r # recent) u"
    and s: "s = fold (pick_relay prev best) (latencies_iter (relay_latency r)) \<lparr>pk_preferred = None, pk_best_any = 0, pk_old_latency = 0\<rparr>"
  shows "chosen_relay prev r recent (keep_previous prev s)"
proof -
  let ?es = "latencies_iter (relay_latency r)" and ?latency = "\<lambda>u. the (least_latency (r # recent) u)"
  have "\<forall>u \<in> iter_urls ?es. latencies_get best u = Some (?latency u)"
    using measured_get [of _ r] unfolding best by (fastforce simp: measured_def min_opt_Some_iff)
  note pick = pick_fold [OF this s]
  have empty: "?es = [] \<longleftrightarrow> measured r = {}" by (simp add: measured_def iter_urls_def)
  show ?thesis
  proof (cases "pk_preferred s")
    case None
    then have "?es = []" using pick by simp
    then have "keep_previous prev s = None" using pick None by (simp add: keep_previous_def current_latency_def)
    then show ?thesis using \<open>?es = []\<close> empty by (simp add: chosen_relay_def)
  next
    case (Some c)
    have "measured r \<noteq> {}" using pick Some empty by simp
    moreover have c: "c \<in> measured r" "\<forall>u \<in> measured r. ?latency c \<le> ?latency u" and
      p: "pk_best_any s = ?latency c" "pk_old_latency s = current_latency prev ?es"
      using pick Some unfolding measured_def by blast+
    moreover have "keep_previous prev s =
        (if prev \<noteq> None \<and> prev \<noteq> Some c \<and> current_latency prev ?es \<noteq> 0 \<and> ?latency c > current_latency prev ?es div 3 * 2
         then prev else Some c)"
      unfolding p [symmetric] by (auto simp: keep_previous_def Some)
    ultimately show ?thesis unfolding chosen_relay_def Let_def by (simp only: if_False) blast
  qed
qed

lemma add_report_history:
  assumes "reports_ok rs" "latencies_ok (relay_latency r0)" "preferred_relay r0 = None"
    "add_report_history_and_set_preferred_relay now r0 rs = (r, rs')"
  shows "r = (copy_mapping (last_report rs) r0)\<lparr>preferred_relay := preferred_relay r\<rparr>"
    "chosen_relay (Option.bind (last_report rs) preferred_relay) r (map snd (recent_reports now (prev_reports rs))) (preferred_relay r)"
    "reports_ok rs'" "last_report rs' = Some r" "prev_reports rs' = bt_update now r (recent_reports now (prev_reports rs))"
    "next_full rs' = next_full rs" "last_full rs' = last_full rs"
proof -
  let ?prev = "Option.bind (last_report rs) preferred_relay" and ?r = "copy_mapping (last_report rs) r0"
  let ?recent = "recent_reports now (prev_reports rs)" and ?best = "best_recent now (prev_reports rs) ?r"
  define s where "s = fold (pick_relay ?prev ?best) (latencies_iter (relay_latency r0)) \<lparr>pk_preferred = None, pk_best_any = 0, pk_old_latency = 0\<rparr>"
  have r: "r = ?r\<lparr>preferred_relay := keep_previous ?prev s\<rparr>" and rs': "rs' = rs\<lparr>prev_reports := bt_update now r ?recent, last_report := Some r\<rparr>"
    using assms(3,4) by (auto simp: add_report_history_and_set_preferred_relay_def Let_def s_def)
  have lat: "relay_latency r = relay_latency r0" by (simp add: r)
  have prevs: "\<forall>(t, pr) \<in> set (prev_reports rs). latencies_ok (relay_latency pr)" using assms(1) by (simp add: reports_ok_def)
  have "latencies_get ?best u = least_latency (r # map snd ?recent) u" for u
    using best_recent_get [of ?r "prev_reports rs" now u] assms(2) prevs lat by simp
  then have "chosen_relay ?prev r (map snd ?recent) (keep_previous ?prev s)"
    by (rule picked_relay_chosen) (simp add: s_def lat)
  then show "chosen_relay ?prev r (map snd ?recent) (preferred_relay r)" by (simp add: r)
  show "r = ?r\<lparr>preferred_relay := preferred_relay r\<rparr>" by (simp add: r)
  show "reports_ok rs'"
    using bt_update_set [of now r ?recent] prevs assms(1,2) lat
    by (fastforce simp: reports_ok_def rs' recent_reports_def bt_ok_filter)
qed (use assms(4) in \<open>auto simp: add_report_history_and_set_preferred_relay_def Let_def\<close>)

section \<open>Address discovery ends\<close>

definition joins_v4 :: "qad_event list \<Rightarrow> nat" where
  "joins_v4 evs = length (filter (\<lambda>e. case e of Join_V4 _ \<Rightarrow> True | _ \<Rightarrow> False) evs)"

definition joins_v6 :: "qad_event list \<Rightarrow> nat" where
  "joins_v6 evs = length (filter (\<lambda>e. case e of Join_V6 _ \<Rightarrow> True | _ \<Rightarrow> False) evs)"

lemma qad_join_buf:
  "qad_join_v4 j q = Some q' \<Longrightarrow> ql_v4_buf q' = ql_v4_buf q - 1 \<and> ql_v6_buf q' = ql_v6_buf q"
  "qad_join_v6 j q = Some q' \<Longrightarrow> ql_v6_buf q' = ql_v6_buf q - 1 \<and> ql_v4_buf q' = ql_v4_buf q"
  by (auto simp: qad_join_v4_def qad_join_v6_def Let_def split: qad_join.splits if_splits)

lemma qad_join_panic:
  "qad_join_v4 j q = None \<longleftrightarrow> j = QJ_Panicked" "qad_join_v6 j q = None \<longleftrightarrow> j = QJ_Panicked"
  by (auto simp: qad_join_v4_def qad_join_v6_def Let_def split: qad_join.splits)

definition qad_finished :: "nat \<Rightarrow> qad_state \<Rightarrow> bool" where
  "qad_finished enough q \<longleftrightarrow> (ql_v4_buf q = 0 \<and> ql_v6_buf q = 0) \<or>
     (length (ql_reports q) \<ge> enough \<and> \<not> ql_ipv4_pending q \<and> \<not> ql_ipv6_pending q)"

lemma qad_loop_simps:
  "qad_loop enough [] q = (if qad_finished enough q then Qad_Done q else Qad_Waiting q)"
  "qad_loop enough (Qad_Shutdown # evs) q = Qad_Done q"
  "qad_loop enough (Join_V4 j # evs) q =
     (if qad_finished enough q then Qad_Done q
      else if ql_v4_buf q = 0 then qad_loop enough evs q
      else case qad_join_v4 j q of None \<Rightarrow> Qad_Panicked | Some q' \<Rightarrow> qad_loop enough evs q')"
  "qad_loop enough (Join_V6 j # evs) q =
     (if qad_finished enough q then Qad_Done q
      else if ql_v6_buf q = 0 then qad_loop enough evs q
      else case qad_join_v6 j q of None \<Rightarrow> Qad_Panicked | Some q' \<Rightarrow> qad_loop enough evs q')"
  by (subst qad_loop.simps, simp add: qad_finished_def)+

lemma joins_simps [simp]:
  "joins_v4 [] = 0" "joins_v6 [] = 0" "joins_v4 (Join_V4 j # evs) = Suc (joins_v4 evs)" "joins_v6 (Join_V4 j # evs) = joins_v6 evs"
  "joins_v4 (Join_V6 j # evs) = joins_v4 evs" "joins_v6 (Join_V6 j # evs) = Suc (joins_v6 evs)"
  by (simp_all add: joins_v4_def joins_v6_def)

text \<open>Once every spawned probe has been joined the loop has ended, and it panics only with a probe.\<close>

lemma qad_loop_ends:
  assumes "ql_v4_buf q \<le> joins_v4 evs" "ql_v6_buf q \<le> joins_v6 evs"
  shows "qad_loop enough evs q \<noteq> Qad_Waiting q'"
  using assms
proof (induction evs arbitrary: q)
  case Nil
  then show ?case by (simp add: qad_loop_simps qad_finished_def)
next
  case (Cons e evs)
  show ?case
  proof (cases e)
    case (Join_V4 j)
    then show ?thesis using Cons qad_join_buf(1) [of j q]
      by (cases "qad_join_v4 j q") (simp_all add: qad_loop_simps)
  next
    case (Join_V6 j)
    then show ?thesis using Cons qad_join_buf(2) [of j q]
      by (cases "qad_join_v6 j q") (simp_all add: qad_loop_simps)
  qed (simp add: qad_loop_simps)
qed

lemma qad_loop_panics:
  assumes "Join_V4 QJ_Panicked \<notin> set evs" "Join_V6 QJ_Panicked \<notin> set evs"
  shows "qad_loop enough evs q \<noteq> Qad_Panicked"
  using assms
proof (induction evs arbitrary: q)
  case Nil
  then show ?case by (simp add: qad_loop_simps)
next
  case (Cons e evs)
  show ?case
  proof (cases e)
    case (Join_V4 j)
    then show ?thesis using Cons qad_join_panic(1) [of j q] by (cases "qad_join_v4 j q") (simp_all add: qad_loop_simps)
  next
    case (Join_V6 j)
    then show ?thesis using Cons qad_join_panic(2) [of j q] by (cases "qad_join_v6 j q") (simp_all add: qad_loop_simps)
  qed (simp add: qad_loop_simps)
qed

text \<open>Probes that all fail leave the reports and the connections as they were.\<close>

definition qad_blocked :: "qad_event list \<Rightarrow> bool" where
  "qad_blocked evs \<longleftrightarrow> set evs \<subseteq> {Join_V4 QJ_Failed, Join_V6 QJ_Failed, Qad_Shutdown}"

lemma qad_loop_blocked:
  assumes "qad_blocked evs" "qad_loop enough evs q = Qad_Done q'"
  shows "ql_reports q' = ql_reports q \<and> ql_conns q' = ql_conns q"
  using assms
proof (induction evs arbitrary: q)
  case Nil
  then show ?case by (simp add: qad_loop_simps split: if_splits)
next
  case (Cons e evs)
  have rest: "qad_blocked evs" using Cons.prems(1) by (simp add: qad_blocked_def)
  consider "e = Join_V4 QJ_Failed" | "e = Join_V6 QJ_Failed" | "e = Qad_Shutdown"
    using Cons.prems(1) by (auto simp: qad_blocked_def)
  then show ?case
    using Cons.prems(2) Cons.IH [OF rest]
    by cases (fastforce simp: qad_loop_simps qad_join_v4_def qad_join_v6_def Let_def split: if_splits)+
qed

section \<open>One report\<close>

lemma spawn_qad_probes_ends:
  assumes "MAX_RELAYS \<le> joins_v4 evs" "MAX_RELAYS \<le> joins_v6 evs" "Join_V4 QJ_Panicked \<notin> set evs" "Join_V6 QJ_Panicked \<notin> set evs"
  shows "\<exists>q. spawn_qad_probes V quic v4 v6 enough do_full relays evs conns = Qad_Done q"
proof -
  have "\<exists>q'. qad_loop enough evs q = Qad_Done q'" if "ql_v4_buf q \<le> MAX_RELAYS" "ql_v6_buf q \<le> MAX_RELAYS" for q
    using qad_loop_ends [of q evs enough] qad_loop_panics [OF assms(3,4), of enough q] that assms(1,2)
    by (cases "qad_loop enough evs q") auto
  then show ?thesis by (simp add: spawn_qad_probes_def Let_def case_prod_beta)
qed

lemma get_report_returns:
  assumes "MAX_RELAYS \<le> joins_v4 (re_qad_events env)" "MAX_RELAYS \<le> joins_v6 (re_qad_events env)"
    "Join_V4 QJ_Panicked \<notin> set (re_qad_events env)" "Join_V6 QJ_Panicked \<notin> set (re_qad_events env)"
  shows "\<exists>r cl'. get_report env cl = Report_Ready r cl'"
proof -
  obtain do_full cl1 where b: "report_begin (re_now env) (re_is_major env) cl = (do_full, cl1)" by force
  obtain q where "spawn_qad_probes (re_qad env) (nc_quic_client cl1) (re_have_v4 env) (re_have_v6 env)
      (min (relay_map_len (nc_relay_map cl1)) ENOUGH_ENDPOINTS) do_full (nc_relay_map cl1) (re_qad_events env) (nc_qad_conns cl1) = Qad_Done q"
    using spawn_qad_probes_ends [OF assms] by blast
  then show ?thesis by (simp add: get_report_def b Let_def case_prod_beta)
qed

lemma report_begin_reports:
  assumes "report_begin now is_major cl = (do_full, cl1)"
  shows "do_full = wants_full now is_major (nc_reports cl)" "prev_reports (nc_reports cl1) = prev_reports (nc_reports cl)"
    "last_report (nc_reports cl1) = (if do_full then None else last_report (nc_reports cl))"
    "nc_relay_map cl1 = nc_relay_map cl" "nc_probes cl1 = nc_probes cl" "nc_qad_conns cl1 = nc_qad_conns cl"
    "nc_quic_client cl1 = nc_quic_client cl"
  using assms by (auto simp: report_begin_def Let_def)

lemma collect_report_facts:
  "preferred_relay (collect_report env do_full cl q) = None" "latencies_ok (relay_latency (collect_report env do_full cl q))"
proof -
  obtain prs c where "collect_report env do_full cl q = (fold report_update prs report_default)\<lparr>captive_portal := c\<rparr>"
    using collect_report_fold by blast
  then show "preferred_relay (collect_report env do_full cl q) = None" "latencies_ok (relay_latency (collect_report env do_full cl q))"
    using report_fold_facts [where prs = prs and r = report_default] by (simp_all add: report_default_def)
qed

lemma get_report_ReadyD:
  assumes "get_report env cl = Report_Ready r cl'"
  obtains do_full cl1 q rs where "report_begin (re_now env) (re_is_major env) cl = (do_full, cl1)"
    "spawn_qad_probes (re_qad env) (nc_quic_client cl1) (re_have_v4 env) (re_have_v6 env)
       (min (relay_map_len (nc_relay_map cl1)) ENOUGH_ENDPOINTS) do_full (nc_relay_map cl1) (re_qad_events env) (nc_qad_conns cl1) = Qad_Done q"
    "add_report_history_and_set_preferred_relay (re_end env) (collect_report env do_full cl1 q) (nc_reports cl1) = (r, rs)"
    "cl' = cl1\<lparr>nc_qad_conns := ql_conns q, nc_reports := rs\<rparr>"
  using assms by (auto simp: get_report_def Let_def split: prod.splits qad_result.splits)

definition previous_relay :: "report_env \<Rightarrow> net_client \<Rightarrow> relay_url option" where
  "previous_relay env cl =
     (if wants_full (re_now env) (re_is_major env) (nc_reports cl) then None
      else Option.bind (last_report (nc_reports cl)) preferred_relay)"

text \<open>The result of a report: its measurements, its preferred relay and what is kept of it.\<close>

lemma get_report_result:
  assumes "reports_ok (nc_reports cl)" "get_report env cl = Report_Ready r cl'"
  shows "chosen_relay (previous_relay env cl) r (map snd (recent_reports (re_end env) (prev_reports (nc_reports cl)))) (preferred_relay r)"
    "reports_ok (nc_reports cl')" "last_report (nc_reports cl') = Some r"
    "prev_reports (nc_reports cl') = bt_update (re_end env) r (recent_reports (re_end env) (prev_reports (nc_reports cl)))"
    "\<exists>prs. relay_latency r = relay_latency (fold report_update prs report_default) \<and>
       global_v4 r = first_addr (v4_addrs prs) \<and> global_v6 r = first_addr (v6_addrs prs) \<and>
       (udp_v4 r \<longleftrightarrow> v4_addrs prs \<noteq> []) \<and> (udp_v6 r \<longleftrightarrow> v6_addrs prs \<noteq> [])"
proof -
  obtain do_full cl1 q rs where b: "report_begin (re_now env) (re_is_major env) cl = (do_full, cl1)" and
    h: "add_report_history_and_set_preferred_relay (re_end env) (collect_report env do_full cl1 q) (nc_reports cl1) = (r, rs)" and
    cl': "cl' = cl1\<lparr>nc_qad_conns := ql_conns q, nc_reports := rs\<rparr>"
    using assms(2) by (rule get_report_ReadyD)
  note b' = report_begin_reports [OF b]
  have "reports_ok (nc_reports cl1)" using assms(1) by (simp add: reports_ok_def b')
  note res = add_report_history [OF this collect_report_facts(2,1) h]
  have "Option.bind (last_report (nc_reports cl1)) preferred_relay = previous_relay env cl"
    by (simp add: previous_relay_def b')
  then show "chosen_relay (previous_relay env cl) r (map snd (recent_reports (re_end env) (prev_reports (nc_reports cl)))) (preferred_relay r)"
    using res(2) by (simp add: b')
  show "reports_ok (nc_reports cl')" "last_report (nc_reports cl') = Some r"
    "prev_reports (nc_reports cl') = bt_update (re_end env) r (recent_reports (re_end env) (prev_reports (nc_reports cl)))"
    using res by (simp_all add: cl' b')
  obtain prs c where c: "collect_report env do_full cl1 q = (fold report_update prs report_default)\<lparr>captive_portal := c\<rparr>"
    using collect_report_fold by blast
  obtain l where r: "r = (copy_mapping l ((fold report_update prs report_default)\<lparr>captive_portal := c\<rparr>))\<lparr>preferred_relay := preferred_relay r\<rparr>"
    using res(1) c by metis
  have "relay_latency r = relay_latency (fold report_update prs report_default)" by (subst r) simp
  moreover have "global_v4 r = global_v4 (fold report_update prs report_default)" "global_v6 r = global_v6 (fold report_update prs report_default)"
    "udp_v4 r = udp_v4 (fold report_update prs report_default)" "udp_v6 r = udp_v6 (fold report_update prs report_default)"
    by (subst r, simp add: copy_mapping_def split: option.splits)+
  ultimately show "\<exists>prs. relay_latency r = relay_latency (fold report_update prs report_default) \<and>
       global_v4 r = first_addr (v4_addrs prs) \<and> global_v6 r = first_addr (v6_addrs prs) \<and>
       (udp_v4 r \<longleftrightarrow> v4_addrs prs \<noteq> []) \<and> (udp_v6 r \<longleftrightarrow> v6_addrs prs \<noteq> [])"
    using report_of_probes [of "fold report_update prs report_default" prs] by auto
qed

section \<open>Incremental reports without QUIC\<close>

lemma reportgen_nothing:
  assumes "\<not> latencies_is_empty (relay_latency l)"
  shows "gs_sent (reportgen_run (Some l) relays protocols check completions) = []"
proof -
  have "completion_join [] False c = None" for c by (simp add: completion_join_def split: completion.splits)
  then have "List.map_filter (completion_join [] False) completions = []"
    by (induction completions) (simp_all add: List.map_filter_simps)
  then show ?thesis using assms
    by (simp add: reportgen_run_def reportgen_plan_def plan_with_last_report_def plan_tasks_def)
qed

lemma report_default_not_enough: "0 < n \<Longrightarrow> \<not> have_enough_reports v4 v6 full n report_default"
  by (cases v4; cases v6) (simp_all add: have_enough_reports_def count_probe_def report_default_def latencies_default_def latencies_iter_def)

lemma spawn_qad_probes_blocked:
  assumes "qad_blocked evs" "spawn_qad_probes V quic v4 v6 enough do_full relays evs \<lparr>qc_v4 = None, qc_v6 = None\<rparr> = Qad_Done q"
  shows "ql_reports q = []" "ql_conns q = \<lparr>qc_v4 = None, qc_v6 = None\<rparr>"
  using assms qad_loop_blocked [OF assms(1)]
  by (auto simp: spawn_qad_probes_def Let_def qad_clear_def drop_closed_def qad_current_def split: if_splits)

lemma blocked_incremental_report:
  assumes "\<not> wants_full (re_now env) (re_is_major env) (nc_reports cl)" "last_report (nc_reports cl) = Some l"
    "\<not> latencies_is_empty (relay_latency l)" "nc_relay_map cl \<noteq> []" "nc_qad_conns cl = \<lparr>qc_v4 = None, qc_v6 = None\<rparr>"
    "qad_blocked (re_qad_events env)" "report_begin (re_now env) (re_is_major env) cl = (do_full, cl1)"
    "spawn_qad_probes (re_qad env) (nc_quic_client cl1) (re_have_v4 env) (re_have_v6 env)
       (min (relay_map_len (nc_relay_map cl1)) ENOUGH_ENDPOINTS) do_full (nc_relay_map cl1) (re_qad_events env) (nc_qad_conns cl1) = Qad_Done q"
  shows "collect_report env do_full cl1 q = report_default"
proof -
  note b = report_begin_reports [OF assms(7)]
  have q: "ql_reports q = []" "ql_conns q = \<lparr>qc_v4 = None, qc_v6 = None\<rparr>"
    using spawn_qad_probes_blocked [OF assms(6)] assms(8) by (simp_all add: b assms(5))
  have "filter (watched (ql_conns q)) us = []" for us
    by (induction us) (auto simp: watched_def q split: probe_report.splits)
  then have "next_updates (map (filter (watched (ql_conns q))) ups) = []" for ups
    by (cases ups) (simp_all add: next_updates_def)
  then show ?thesis
    using assms(1-4) report_default_not_enough reportgen_nothing by (simp add: collect_report_def Let_def q(1) b relay_map_len_def)
qed

section \<open>The captive portal check\<close>

lemma plan_https: "set (reportgen_plan l relays protocols) \<subseteq> {s. ps_proto s = Https}"
proof -
  have "set (fold (\<lambda>relay. add_if_enabled protocols (https_probe_set relay)) rs plan) \<subseteq> {s. ps_proto s = Https}"
    if "set plan \<subseteq> {s. ps_proto s = Https}" for rs plan
    using that
  proof (induction rs arbitrary: plan)
    case (Cons r rs)
    have "set (add_if_enabled protocols (https_probe_set r) plan) \<subseteq> {s. ps_proto s = Https}"
      using Cons.prems by (auto simp: add_if_enabled_def plan_insert_def set_insort_key https_probe_set_def)
    then show ?case using Cons.IH by simp
  qed simp
  then have "set (plan_initial relays protocols) \<subseteq> {s. ps_proto s = Https}" by (simp add: plan_initial_def)
  then show ?thesis by (auto simp: reportgen_plan_def plan_with_last_report_def split: option.splits if_splits)
qed

lemma gen_loop_no_udp:
  assumes "\<forall>res. Joined (Regular (Inr res)) \<in> set js \<longrightarrow> \<not> is_udp res" "\<not> gs_have_udp s" "\<not> gs_captive_cancelled s"
  shows "\<not> gs_captive_cancelled (gen_loop js s)"
  using assms
proof (induction js s rule: gen_loop.induct)
  case (2 rep js s)
  have "\<not> gs_have_udp (gen_finished rep s)" "\<not> gs_captive_cancelled (gen_finished rep s)"
    using "2.prems" by (auto simp: gen_finished_def Let_def split: probe_finished.splits sum.splits)
  then show ?case using 2 by simp
qed auto

text \<open>The report generator runs HTTPS probes only, so it never cancels the captive portal check.\<close>

lemma captive_never_cancelled: "\<not> gs_captive_cancelled (reportgen_run l relays protocols check completions)"
proof -
  let ?tasks = "plan_tasks (reportgen_plan l relays protocols)"
  have tasks: "fst t = Https" if "t \<in> set ?tasks" for t
    using that plan_https [of l relays protocols] by (auto simp: plan_tasks_def)
  have "\<not> is_udp res" if "completion_join ?tasks b c = Some (Joined (Regular (Inr res)))" for b c res
    using that by (auto simp: completion_join_def probe_join_def split: completion.splits task_outcome.splits if_splits prod.splits)
  then have "\<forall>res. Joined (Regular (Inr res)) \<in> set (List.map_filter (completion_join ?tasks b) completions) \<longrightarrow> \<not> is_udp res" for b
    by (induction completions) (auto simp: List.map_filter_simps split: option.splits)
  then show ?thesis unfolding reportgen_run_def Let_def by (intro gen_loop_no_udp) simp_all
qed

end
