(* ===== verification/Router.thy ===== *)
theory Router
  imports Relay_Map
begin

text \<open>
  The router that hands incoming connections to protocol handlers (\<open>iroh/src/protocol.rs\<close>): the map of
  protocols by ALPN, the run loop with its filter and its tasks, the handling of one connection, and
  shutting down. The endpoint, the connections and the handlers are outside; their answers are inputs
  of the steps. Lemmas: an invariant of the reachable states, and that a router can always be shut down.
\<close>

section \<open>Protocols\<close>

type_synonym alpn = bytes
type_synonym protocol_map = "(alpn \<times> nat) list"

definition protocol_get :: "protocol_map \<Rightarrow> alpn \<Rightarrow> nat option" where
  "protocol_get m a = map_of m a"

definition protocol_insert :: "alpn \<Rightarrow> nat \<Rightarrow> protocol_map \<Rightarrow> protocol_map" where
  "protocol_insert a h m = bt_update a h m"

definition protocol_alpns :: "protocol_map \<Rightarrow> alpn list" where
  "protocol_alpns m = map fst m"

datatype filter_outcome = F_Accept | F_Retry | F_Reject | F_Ignore

record router_builder =
  rb_protocols :: protocol_map
  rb_incoming_filter :: "(nat \<Rightarrow> filter_outcome) option"

definition router_builder_new :: router_builder where
  "router_builder_new = \<lparr>rb_protocols = [], rb_incoming_filter = None\<rparr>"

definition builder_incoming_filter :: "(nat \<Rightarrow> filter_outcome) \<Rightarrow> router_builder \<Rightarrow> router_builder" where
  "builder_incoming_filter f b = b\<lparr>rb_incoming_filter := Some f\<rparr>"

definition builder_accept :: "alpn \<Rightarrow> nat \<Rightarrow> router_builder \<Rightarrow> router_builder" where
  "builder_accept a h b = b\<lparr>rb_protocols := protocol_insert a h (rb_protocols b)\<rparr>"

section \<open>One connection\<close>

text \<open>
  The task of a connection at the points where it waits, with what it is given there: whether the
  connection was accepted, its ALPN, and whether the handler's two functions succeeded. A handler may
  panic.
\<close>

datatype task_result = Task_Finished | Task_Cancelled | Task_Panic | Task_Abort

datatype task_state =
  T_Incoming
| T_Alpn
| T_On_Accepting alpn
| T_Accept alpn
| T_Done task_result

datatype task_input =
  In_Accept bool
| In_Alpn "alpn option"
| In_On_Accepting bool
| In_Handled bool
| In_Panic

datatype router_event =
  Ev_Retried nat
| Ev_Refused nat
| Ev_Ignored nat
| Ev_On_Accepting alpn nat nat
| Ev_Accept alpn nat nat
| Ev_Shutdown alpn
| Ev_Close

fun handle_connection :: "protocol_map \<Rightarrow> nat \<Rightarrow> task_state \<Rightarrow> task_input \<Rightarrow> (task_state \<times> router_event list) option" where
  "handle_connection m i T_Incoming (In_Accept ok) = Some (if ok then T_Alpn else T_Done Task_Finished, [])"
| "handle_connection m i T_Alpn (In_Alpn None) = Some (T_Done Task_Finished, [])"
| "handle_connection m i T_Alpn (In_Alpn (Some a)) =
     (case protocol_get m a of
        None \<Rightarrow> Some (T_Done Task_Finished, [])
      | Some h \<Rightarrow> Some (T_On_Accepting a, [Ev_On_Accepting a h i]))"
| "handle_connection m i (T_On_Accepting a) (In_On_Accepting ok) =
     (if ok then Some (T_Accept a, case protocol_get m a of Some h \<Rightarrow> [Ev_Accept a h i] | None \<Rightarrow> [])
      else Some (T_Done Task_Finished, []))"
| "handle_connection m i (T_Accept a) (In_Handled ok) = Some (T_Done Task_Finished, [])"
| "handle_connection m i (T_On_Accepting a) In_Panic = Some (T_Done Task_Panic, [])"
| "handle_connection m i (T_Accept a) In_Panic = Some (T_Done Task_Panic, [])"
| "handle_connection m i _ _ = None"

section \<open>The run loop\<close>

datatype router_phase = Running | Protocols_Stopping | Endpoint_Closing | Draining | Stopped | Loop_Panicked

text \<open>A call of \<open>shutdown\<close> that found the router cancelled, one that waits, and one that has waited.\<close>

datatype shutdown_call = Call_Immediate | Call_Waiting | Call_Returned bool

record router =
  rt_phase :: router_phase
  rt_cancelled :: bool
  rt_handler_cancelled :: bool
  rt_tasks :: "(nat \<times> task_state) list"
  rt_incoming :: nat
  rt_stopped :: "alpn list"
  rt_endpoint_closed :: bool
  rt_endpoint_alpns :: "alpn list"
  rt_handle_taken :: bool
  rt_calls :: "shutdown_call list"
  rt_events :: "router_event list"

definition router_spawn :: "router_builder \<Rightarrow> router" where
  "router_spawn b = \<lparr>rt_phase = Running, rt_cancelled = False, rt_handler_cancelled = False, rt_tasks = [], rt_incoming = 0,
     rt_stopped = [], rt_endpoint_closed = False, rt_endpoint_alpns = protocol_alpns (rb_protocols b),
     rt_handle_taken = False, rt_calls = [], rt_events = []\<rparr>"

definition router_log :: "router_event list \<Rightarrow> router \<Rightarrow> router" where
  "router_log es s = s\<lparr>rt_events := rt_events s @ es\<rparr>"

definition spawn_task :: "nat \<Rightarrow> router \<Rightarrow> router" where
  "spawn_task i s = s\<lparr>rt_tasks := rt_tasks s @ [(i, T_Incoming)]\<rparr>"

text \<open>An incoming connection, numbered in order of arrival; \<open>retry_ok\<close> is whether a retry can be sent.\<close>

definition on_incoming :: "router_builder \<Rightarrow> bool \<Rightarrow> router \<Rightarrow> router" where
  "on_incoming b retry_ok s =
     (let i = rt_incoming s; s1 = s\<lparr>rt_incoming := i + 1\<rparr> in
      case rb_incoming_filter b of
        None \<Rightarrow> spawn_task i s1
      | Some f \<Rightarrow>
         (case f i of
            F_Accept \<Rightarrow> spawn_task i s1
          | F_Retry \<Rightarrow> router_log [if retry_ok then Ev_Retried i else Ev_Refused i] s1
          | F_Reject \<Rightarrow> router_log [Ev_Refused i] s1
          | F_Ignore \<Rightarrow> router_log [Ev_Ignored i] s1))"

text \<open>Joining a finished task: a panic ends the loop.\<close>

definition on_joined :: "nat \<Rightarrow> task_result \<Rightarrow> router \<Rightarrow> router" where
  "on_joined i res s =
     (let s1 = s\<lparr>rt_tasks := al_remove i (rt_tasks s)\<rparr> in
      case res of
        Task_Panic \<Rightarrow> s1\<lparr>rt_phase := Protocols_Stopping\<rparr>
      | _ \<Rightarrow> s1)"

definition end_tasks :: "task_result \<Rightarrow> (nat \<times> task_state) list \<Rightarrow> (nat \<times> task_state) list" where
  "end_tasks res ts = map (\<lambda>(i, t). (i, case t of T_Done r \<Rightarrow> T_Done r | _ \<Rightarrow> T_Done res)) ts"

text \<open>
  After the loop: once every handler has shut down, the tasks are cancelled, the endpoint is closed,
  and the remaining tasks are aborted and joined; dropping the guard cancels the token.
\<close>

definition protocols_stopped :: "router \<Rightarrow> router" where
  "protocols_stopped s = s\<lparr>rt_phase := Endpoint_Closing, rt_handler_cancelled := True\<rparr>"

definition endpoint_closed :: "router \<Rightarrow> router" where
  "endpoint_closed s = router_log [Ev_Close]
     (s\<lparr>rt_phase := Draining, rt_endpoint_closed := True, rt_tasks := end_tasks Task_Abort (rt_tasks s)\<rparr>)"

definition loop_stopped :: "router \<Rightarrow> router" where
  "loop_stopped s = s\<lparr>rt_phase := Stopped, rt_cancelled := True\<rparr>"

text \<open>A handler that panics while shutting down ends the loop's task and everything it owns.\<close>

definition loop_panicked :: "router \<Rightarrow> router" where
  "loop_panicked s = s\<lparr>rt_phase := Loop_Panicked, rt_cancelled := True, rt_tasks := []\<rparr>"

text \<open>\<open>Router::shutdown\<close>: the call, and its return once the task it waits for has ended.\<close>

definition shutdown_begin :: "router \<Rightarrow> router" where
  "shutdown_begin s =
     (if rt_cancelled s then s\<lparr>rt_calls := rt_calls s @ [Call_Immediate]\<rparr>
      else s\<lparr>rt_cancelled := True, rt_handle_taken := True,
             rt_calls := rt_calls s @ [if rt_handle_taken s then Call_Immediate else Call_Waiting]\<rparr>)"

definition shutdown_return :: "nat \<Rightarrow> router \<Rightarrow> router" where
  "shutdown_return c s = s\<lparr>rt_calls := (rt_calls s)[c := Call_Returned (rt_phase s = Stopped)]\<rparr>"

inductive router_step :: "router_builder \<Rightarrow> router \<Rightarrow> router \<Rightarrow> bool" for b where
  rs_cancelled: "rt_phase s = Running \<Longrightarrow> rt_cancelled s \<Longrightarrow> router_step b s (s\<lparr>rt_phase := Protocols_Stopping\<rparr>)"
| rs_joined: "rt_phase s = Running \<Longrightarrow> \<not> rt_cancelled s \<Longrightarrow> map_of (rt_tasks s) i = Some (T_Done res) \<Longrightarrow>
     router_step b s (on_joined i res s)"
| rs_incoming: "rt_phase s = Running \<Longrightarrow> \<not> rt_cancelled s \<Longrightarrow> \<not> rt_endpoint_closed s \<Longrightarrow>
     (\<forall>res. T_Done res \<notin> snd ` set (rt_tasks s)) \<Longrightarrow> router_step b s (on_incoming b retry_ok s)"
| rs_no_incoming: "rt_phase s = Running \<Longrightarrow> \<not> rt_cancelled s \<Longrightarrow> rt_endpoint_closed s \<Longrightarrow>
     (\<forall>res. T_Done res \<notin> snd ` set (rt_tasks s)) \<Longrightarrow> router_step b s (s\<lparr>rt_phase := Protocols_Stopping\<rparr>)"
| rs_task: "map_of (rt_tasks s) i = Some t \<Longrightarrow> handle_connection (rb_protocols b) i t inp = Some (t', es) \<Longrightarrow>
     router_step b s (router_log es (s\<lparr>rt_tasks := al_update i t' (rt_tasks s)\<rparr>))"
| rs_task_cancelled: "map_of (rt_tasks s) i = Some t \<Longrightarrow> rt_handler_cancelled s \<Longrightarrow> (\<forall>res. t \<noteq> T_Done res) \<Longrightarrow>
     router_step b s (s\<lparr>rt_tasks := al_update i (T_Done Task_Cancelled) (rt_tasks s)\<rparr>)"
| rs_handler_stopped: "rt_phase s = Protocols_Stopping \<Longrightarrow> a \<in> set (protocol_alpns (rb_protocols b)) \<Longrightarrow> a \<notin> set (rt_stopped s) \<Longrightarrow>
     router_step b s (router_log [Ev_Shutdown a] (s\<lparr>rt_stopped := rt_stopped s @ [a]\<rparr>))"
| rs_handler_panic: "rt_phase s = Protocols_Stopping \<Longrightarrow> a \<in> set (protocol_alpns (rb_protocols b)) \<Longrightarrow> a \<notin> set (rt_stopped s) \<Longrightarrow>
     router_step b s (loop_panicked s)"
| rs_protocols_stopped: "rt_phase s = Protocols_Stopping \<Longrightarrow> set (protocol_alpns (rb_protocols b)) \<subseteq> set (rt_stopped s) \<Longrightarrow>
     router_step b s (protocols_stopped s)"
| rs_endpoint_closed: "rt_phase s = Endpoint_Closing \<Longrightarrow> router_step b s (endpoint_closed s)"
| rs_drain: "rt_phase s = Draining \<Longrightarrow> map_of (rt_tasks s) i = Some (T_Done res) \<Longrightarrow>
     router_step b s (s\<lparr>rt_tasks := al_remove i (rt_tasks s)\<rparr>)"
| rs_stopped: "rt_phase s = Draining \<Longrightarrow> rt_tasks s = [] \<Longrightarrow> router_step b s (loop_stopped s)"
| rs_close_outside: "router_step b s (s\<lparr>rt_endpoint_closed := True\<rparr>)"
| rs_shutdown: "router_step b s (shutdown_begin s)"
| rs_shutdown_return: "c < length (rt_calls s) \<Longrightarrow> rt_calls s ! c = Call_Waiting \<Longrightarrow> rt_phase s \<in> {Stopped, Loop_Panicked} \<Longrightarrow>
     router_step b s (shutdown_return c s)"

section \<open>Invariant\<close>

definition accepted :: "router_builder \<Rightarrow> nat \<Rightarrow> bool" where
  "accepted b i \<longleftrightarrow> (case rb_incoming_filter b of None \<Rightarrow> True | Some f \<Rightarrow> f i = F_Accept)"

text \<open>A handler is called only for accepted connections with an ALPN it is registered for.\<close>

definition event_ok :: "router_builder \<Rightarrow> router_event \<Rightarrow> bool" where
  "event_ok b e \<longleftrightarrow>
     (case e of
        Ev_On_Accepting a h i \<Rightarrow> accepted b i \<and> protocol_get (rb_protocols b) a = Some h
      | Ev_Accept a h i \<Rightarrow> accepted b i \<and> protocol_get (rb_protocols b) a = Some h
      | Ev_Retried i \<Rightarrow> \<not> accepted b i
      | Ev_Refused i \<Rightarrow> \<not> accepted b i
      | Ev_Ignored i \<Rightarrow> \<not> accepted b i
      | Ev_Shutdown a \<Rightarrow> a \<in> set (protocol_alpns (rb_protocols b))
      | Ev_Close \<Rightarrow> True)"

definition tasks_inv :: "router_builder \<Rightarrow> router \<Rightarrow> bool" where
  "tasks_inv b s \<longleftrightarrow> distinct (al_keys (rt_tasks s)) \<and>
     (\<forall>i t. map_of (rt_tasks s) i = Some t \<longrightarrow> i < rt_incoming s \<and> accepted b i) \<and>
     (\<forall>e \<in> set (rt_events s). event_ok b e)"

text \<open>No task is cancelled or aborted before every handler has shut down.\<close>

definition ending_inv :: "router \<Rightarrow> bool" where
  "ending_inv s \<longleftrightarrow>
     (rt_handler_cancelled s \<longleftrightarrow> rt_phase s \<in> {Endpoint_Closing, Draining, Stopped}) \<and>
     (\<not> rt_handler_cancelled s \<longrightarrow> (\<forall>i. map_of (rt_tasks s) i \<notin> {Some (T_Done Task_Cancelled), Some (T_Done Task_Abort)})) \<and>
     (rt_phase s = Draining \<longrightarrow> (\<forall>i t. map_of (rt_tasks s) i = Some t \<longrightarrow> (\<exists>res. t = T_Done res))) \<and>
     (rt_phase s \<in> {Stopped, Loop_Panicked} \<longrightarrow> rt_tasks s = [] \<and> rt_cancelled s)"

definition stopping_inv :: "router_builder \<Rightarrow> router \<Rightarrow> bool" where
  "stopping_inv b s \<longleftrightarrow>
     (rt_phase s = Running \<longrightarrow> rt_stopped s = []) \<and> distinct (rt_stopped s) \<and>
     (\<forall>a. Ev_Shutdown a \<in> set (rt_events s) \<longleftrightarrow> a \<in> set (rt_stopped s)) \<and>
     set (rt_stopped s) \<subseteq> set (protocol_alpns (rb_protocols b)) \<and>
     (rt_phase s \<in> {Endpoint_Closing, Draining, Stopped} \<longrightarrow> set (protocol_alpns (rb_protocols b)) \<subseteq> set (rt_stopped s)) \<and>
     (rt_phase s \<in> {Draining, Stopped} \<longrightarrow> rt_endpoint_closed s) \<and>
     (Ev_Close \<in> set (rt_events s) \<longrightarrow> rt_phase s \<in> {Draining, Stopped})"

definition calls_inv :: "router \<Rightarrow> bool" where
  "calls_inv s \<longleftrightarrow>
     (rt_handle_taken s \<longrightarrow> rt_cancelled s) \<and>
     length (filter (\<lambda>c. c \<noteq> Call_Immediate) (rt_calls s)) = (if rt_handle_taken s then 1 else 0) \<and>
     (Call_Returned True \<in> set (rt_calls s) \<longrightarrow> rt_phase s = Stopped) \<and>
     (Call_Returned False \<in> set (rt_calls s) \<longrightarrow> rt_phase s = Loop_Panicked)"

definition router_inv :: "router_builder \<Rightarrow> router \<Rightarrow> bool" where
  "router_inv b s \<longleftrightarrow> tasks_inv b s \<and> ending_inv s \<and> stopping_inv b s \<and> calls_inv s"

lemma router_inv_spawn: "router_inv b (router_spawn b)"
  by (simp add: router_inv_def tasks_inv_def ending_inv_def stopping_inv_def calls_inv_def router_spawn_def)

text \<open>What a task does: it stays within the calls of its handler and never cancels itself.\<close>

lemma handle_connection_result:
  assumes "handle_connection m i t inp = Some (t', es)"
  shows "t' \<noteq> T_Done Task_Cancelled" "t' \<noteq> T_Done Task_Abort" "t \<noteq> T_Done res" "Ev_Shutdown a \<notin> set es" "Ev_Close \<notin> set es"
    "e \<in> set es \<Longrightarrow> \<exists>a h. protocol_get m a = Some h \<and> (e = Ev_On_Accepting a h i \<or> e = Ev_Accept a h i)"
  using assms by (induction m i t inp rule: handle_connection.induct) (auto split: option.splits if_splits)

lemma router_step_tasks: "router_step b s t \<Longrightarrow> tasks_inv b s \<Longrightarrow> tasks_inv b t"
proof (induction rule: router_step.induct)
  case (rs_joined s i res)
  then show ?case by (cases res) (auto simp: tasks_inv_def on_joined_def Let_def split: if_splits)
next
  case (rs_incoming s retry_ok)
  then have fresh: "map_of (rt_tasks s) (rt_incoming s) = None" unfolding tasks_inv_def by (metis not_None_eq less_irrefl)
  then have "rt_incoming s \<notin> fst ` set (rt_tasks s)" by (simp add: map_of_eq_None_iff)
  then show ?case using rs_incoming.prems fresh
    by (auto simp: tasks_inv_def on_incoming_def Let_def spawn_task_def router_log_def accepted_def event_ok_def map_add_def
        split: option.splits filter_outcome.splits if_splits dest: less_SucI)
next
  case (rs_task s i t inp t' es)
  note h = handle_connection_result [OF rs_task.hyps(2)]
  have "accepted b i" using rs_task unfolding tasks_inv_def by blast
  then have "event_ok b e" if "e \<in> set es" for e using h(6) [OF that] by (auto simp: event_ok_def)
  then show ?case using rs_task by (auto simp: tasks_inv_def router_log_def split: if_splits)
qed (auto simp: tasks_inv_def router_log_def protocols_stopped_def endpoint_closed_def loop_stopped_def loop_panicked_def
    shutdown_begin_def shutdown_return_def event_ok_def end_tasks_def map_of_map comp_def case_prod_beta split: if_splits)

lemmas router_ops = router_log_def protocols_stopped_def endpoint_closed_def loop_stopped_def loop_panicked_def
  shutdown_begin_def shutdown_return_def

lemma map_of_end_tasks:
  "map_of (end_tasks res ts) i = map_option (\<lambda>t. case t of T_Done r \<Rightarrow> T_Done r | _ \<Rightarrow> T_Done res) (map_of ts i)"
  by (induction ts) (auto simp: end_tasks_def)

lemma end_tasks_done: "map_of (end_tasks res ts) i = Some t \<Longrightarrow> \<exists>r. t = T_Done r"
proof -
  assume "map_of (end_tasks res ts) i = Some t"
  then obtain z where "t = (case z of T_Done r \<Rightarrow> T_Done r | _ \<Rightarrow> T_Done res)" by (auto simp: map_of_end_tasks)
  then show ?thesis by (cases z) auto
qed

lemma on_incoming_same [simp]:
  "rt_phase (on_incoming b ok s) = rt_phase s" "rt_handler_cancelled (on_incoming b ok s) = rt_handler_cancelled s"
  "rt_cancelled (on_incoming b ok s) = rt_cancelled s" "rt_stopped (on_incoming b ok s) = rt_stopped s"
  "rt_endpoint_closed (on_incoming b ok s) = rt_endpoint_closed s" "rt_calls (on_incoming b ok s) = rt_calls s"
  "rt_handle_taken (on_incoming b ok s) = rt_handle_taken s"
  "Ev_Shutdown a \<in> set (rt_events (on_incoming b ok s)) \<longleftrightarrow> Ev_Shutdown a \<in> set (rt_events s)"
  "Ev_Close \<in> set (rt_events (on_incoming b ok s)) \<longleftrightarrow> Ev_Close \<in> set (rt_events s)"
  by (auto simp: on_incoming_def Let_def spawn_task_def router_log_def split: option.splits filter_outcome.splits)

lemma on_incoming_tasks: "rt_tasks (on_incoming b ok s) \<in> {rt_tasks s, rt_tasks s @ [(rt_incoming s, T_Incoming)]}"
  by (auto simp: on_incoming_def Let_def spawn_task_def router_log_def split: option.splits filter_outcome.splits)

lemma on_joined_same [simp]:
  "rt_handler_cancelled (on_joined i res s) = rt_handler_cancelled s" "rt_cancelled (on_joined i res s) = rt_cancelled s"
  "rt_stopped (on_joined i res s) = rt_stopped s" "rt_endpoint_closed (on_joined i res s) = rt_endpoint_closed s"
  "rt_calls (on_joined i res s) = rt_calls s" "rt_handle_taken (on_joined i res s) = rt_handle_taken s"
  "rt_events (on_joined i res s) = rt_events s" "rt_tasks (on_joined i res s) = al_remove i (rt_tasks s)"
  "rt_phase (on_joined i res s) = (if res = Task_Panic then Protocols_Stopping else rt_phase s)"
  by (cases res; simp add: on_joined_def)+

lemma router_step_ending: "router_step b s t \<Longrightarrow> ending_inv s \<Longrightarrow> ending_inv t"
proof (induction rule: router_step.induct)
  case (rs_incoming s retry_ok)
  then show ?case using on_incoming_tasks [of b retry_ok s]
    by (auto simp: ending_inv_def map_add_def split: option.splits if_splits)
next
  case (rs_joined s i res)
  then show ?case by (auto simp: ending_inv_def split: if_splits)
next
  case (rs_task s i t inp t' es)
  have "rt_phase s \<noteq> Draining"
    using rs_task handle_connection_result(3) [OF rs_task.hyps(2)] unfolding ending_inv_def by blast
  then show ?case using rs_task handle_connection_result(1,2) [OF rs_task.hyps(2)]
    by (auto simp: ending_inv_def router_log_def split: if_splits)
next
  case (rs_endpoint_closed s)
  then show ?case by (auto simp: ending_inv_def router_ops dest: end_tasks_done)
qed (auto simp: ending_inv_def router_ops split: if_splits)

lemma router_step_stopping: "router_step b s t \<Longrightarrow> stopping_inv b s \<Longrightarrow> stopping_inv b t"
proof (induction rule: router_step.induct)
  case (rs_task s i t inp t' es)
  then show ?case using handle_connection_result(4,5) [OF rs_task.hyps(2)]
    by (auto simp: stopping_inv_def router_log_def)
next
  case (rs_joined s i res)
  then show ?case by (auto simp: stopping_inv_def split: if_splits)
next
  case (rs_incoming s retry_ok)
  then show ?case by (simp add: stopping_inv_def)
qed (auto simp: stopping_inv_def router_ops split: if_splits)

lemma calls_inv_return:
  assumes "calls_inv s" "c < length (rt_calls s)" "rt_calls s ! c = Call_Waiting" "rt_phase s \<in> {Stopped, Loop_Panicked}"
  shows "calls_inv (shutdown_return c s)"
proof -
  have cs: "rt_calls s = take c (rt_calls s) @ Call_Waiting # drop (Suc c) (rt_calls s)"
    using assms(2,3) id_take_nth_drop by metis
  have "(rt_calls s)[c := x] = take c (rt_calls s) @ x # drop (Suc c) (rt_calls s)" for x
    using assms(2) by (simp add: upd_conv_take_nth_drop)
  moreover have "length (filter P (rt_calls s)) = length (filter P (take c (rt_calls s))) + (if P Call_Waiting then 1 else 0) +
      length (filter P (drop (Suc c) (rt_calls s)))" for P
    by (subst cs) simp
  ultimately show ?thesis using assms(1,4)
    by (auto simp: calls_inv_def shutdown_return_def dest: in_set_takeD in_set_dropD)
qed

lemma router_step_calls: "router_step b s t \<Longrightarrow> calls_inv s \<Longrightarrow> ending_inv s \<Longrightarrow> calls_inv t"
proof (induction rule: router_step.induct)
  case (rs_shutdown_return c s)
  then show ?case by (intro calls_inv_return)
next
  case (rs_joined s i res)
  then show ?case by (auto simp: calls_inv_def)
next
  case (rs_incoming s retry_ok)
  then show ?case by (simp add: calls_inv_def)
next
  case (rs_shutdown s)
  then show ?case by (auto simp: calls_inv_def router_ops split: if_splits)
qed (auto simp: calls_inv_def router_ops split: if_splits)

lemma router_reachable_inv: "(router_step b)\<^sup>*\<^sup>* (router_spawn b) s \<Longrightarrow> router_inv b s"
proof (induction rule: rtranclp_induct)
  case (step s t)
  then show ?case
    using router_step_tasks router_step_ending router_step_stopping router_step_calls unfolding router_inv_def by blast
qed (rule router_inv_spawn)

section \<open>Shutting down\<close>

lemma stop_protocols:
  assumes "rt_phase s = Protocols_Stopping"
  shows "\<exists>t. (router_step b)\<^sup>*\<^sup>* s t \<and> rt_phase t = Endpoint_Closing"
  using assms
proof (induction "card (set (protocol_alpns (rb_protocols b)) - set (rt_stopped s))" arbitrary: s rule: less_induct)
  case less
  let ?missing = "set (protocol_alpns (rb_protocols b)) - set (rt_stopped s)"
  show ?case
  proof (cases "?missing = {}")
    case True
    then have "router_step b s (protocols_stopped s)" using less.prems by (intro rs_protocols_stopped) auto
    then show ?thesis by (intro exI [of _ "protocols_stopped s"]) (auto simp: protocols_stopped_def)
  next
    case False
    then obtain a where a: "a \<in> ?missing" by blast
    let ?s = "router_log [Ev_Shutdown a] (s\<lparr>rt_stopped := rt_stopped s @ [a]\<rparr>)"
    have step: "router_step b s ?s" using less.prems a by (intro rs_handler_stopped) auto
    have "set (protocol_alpns (rb_protocols b)) - set (rt_stopped ?s) = ?missing - {a}" by (auto simp: router_log_def)
    then have "card (set (protocol_alpns (rb_protocols b)) - set (rt_stopped ?s)) < card ?missing"
      using a card_Diff1_less [of ?missing a] by simp
    moreover have "rt_phase ?s = Protocols_Stopping" using less.prems by (simp add: router_log_def)
    ultimately obtain t where "(router_step b)\<^sup>*\<^sup>* ?s t" "rt_phase t = Endpoint_Closing" using less.hyps by blast
    then show ?thesis using step by (meson converse_rtranclp_into_rtranclp)
  qed
qed

lemma drain_tasks:
  assumes "rt_phase s = Draining" "ending_inv s"
  shows "\<exists>t. (router_step b)\<^sup>*\<^sup>* s t \<and> rt_phase t = Stopped"
  using assms
proof (induction "length (rt_tasks s)" arbitrary: s rule: less_induct)
  case less
  show ?case
  proof (cases "rt_tasks s")
    case Nil
    then have "router_step b s (loop_stopped s)" using less.prems by (intro rs_stopped)
    then show ?thesis by (intro exI [of _ "loop_stopped s"]) (auto simp: loop_stopped_def)
  next
    case (Cons p ps)
    obtain i t where p: "p = (i, t)" by (cases p)
    then have t: "map_of (rt_tasks s) i = Some t" by (simp add: Cons)
    then obtain res where "map_of (rt_tasks s) i = Some (T_Done res)" using less.prems unfolding ending_inv_def by metis
    then have step: "router_step b s (s\<lparr>rt_tasks := al_remove i (rt_tasks s)\<rparr>)" using less.prems by (intro rs_drain)
    have "length (al_remove i (rt_tasks s)) < length (rt_tasks s)"
      using length_filter_le [of _ ps] by (simp add: Cons p al_remove_def le_imp_less_Suc)
    moreover have "ending_inv (s\<lparr>rt_tasks := al_remove i (rt_tasks s)\<rparr>)" using step less.prems(2) router_step_ending by blast
    ultimately obtain u where "(router_step b)\<^sup>*\<^sup>* (s\<lparr>rt_tasks := al_remove i (rt_tasks s)\<rparr>) u" "rt_phase u = Stopped"
      using less.hyps [of "s\<lparr>rt_tasks := al_remove i (rt_tasks s)\<rparr>"] less.prems(1) by auto
    then show ?thesis using step by (meson converse_rtranclp_into_rtranclp)
  qed
qed

lemma ending_inv_steps: "(router_step b)\<^sup>*\<^sup>* s t \<Longrightarrow> ending_inv s \<Longrightarrow> ending_inv t"
  by (induction rule: rtranclp_induct) (auto intro: router_step_ending)

text \<open>A router whose handlers do not panic while shutting down can always be stopped.\<close>

lemma router_can_stop:
  assumes "ending_inv s" "rt_phase s \<noteq> Loop_Panicked"
  shows "\<exists>t. (router_step b)\<^sup>*\<^sup>* s t \<and> rt_phase t = Stopped"
proof -
  have draining: "\<exists>t. (router_step b)\<^sup>*\<^sup>* u t \<and> rt_phase t = Stopped" if "rt_phase u = Endpoint_Closing" "ending_inv u" for u
  proof -
    have step: "router_step b u (endpoint_closed u)" using that(1) by (rule rs_endpoint_closed)
    have "rt_phase (endpoint_closed u) = Draining" by (simp add: endpoint_closed_def router_log_def)
    then show ?thesis using drain_tasks router_step_ending [OF step that(2)] step by (meson converse_rtranclp_into_rtranclp)
  qed
  have stopping: "\<exists>t. (router_step b)\<^sup>*\<^sup>* u t \<and> rt_phase t = Stopped" if "rt_phase u = Protocols_Stopping" "ending_inv u" for u
    using stop_protocols [OF that(1), of b] draining ending_inv_steps [OF _ that(2)] by (meson rtranclp_trans)
  have cancelled: "\<exists>t. (router_step b)\<^sup>*\<^sup>* u t \<and> rt_phase t = Stopped"
    if "rt_phase u = Running" "rt_cancelled u" "ending_inv u" for u
  proof -
    have step: "router_step b u (u\<lparr>rt_phase := Protocols_Stopping\<rparr>)" using that(1,2) by (rule rs_cancelled)
    then show ?thesis using stopping router_step_ending [OF step that(3)] by (metis (no_types, lifting) converse_rtranclp_into_rtranclp router.select_convs(1) router.surjective router.update_convs(1))
  qed
  show ?thesis
  proof (cases "rt_phase s")
    case Running
    have step: "router_step b s (shutdown_begin s)" by (rule rs_shutdown)
    have "rt_phase (shutdown_begin s) = Running" "rt_cancelled (shutdown_begin s)" using Running by (simp_all add: shutdown_begin_def)
    then show ?thesis using cancelled router_step_ending [OF step assms(1)] step by (meson converse_rtranclp_into_rtranclp)
  qed (use assms draining stopping drain_tasks in auto)
qed

end
