(* ===== verification/Net_Properties.thy ===== *)
theory Net_Properties
  imports Report_Behaviour Router
begin

text \<open>
  The properties of network reports and of the protocol router, with concrete networks and routers on
  which they are evaluated.
\<close>

section \<open>Reports\<close>


definition example_relays :: relay_map where
  "example_relays = relay_map_of_urls [''https://a'', ''https://b'']"

definition example_env :: "qad_event list \<Rightarrow> completion list \<Rightarrow> report_env" where
  "example_env evs completions =
     \<lparr>re_now = 1, re_is_major = False, re_have_v4 = True, re_have_v6 = True,
      re_qad = \<lparr>conn_closed = (\<lambda>_. False), conn_observed = (\<lambda>_. None), conn_rtt = (\<lambda>_. None)\<rparr>,
      re_qad_events = evs, re_completions = completions, re_updates = [], re_end = 2\<rparr>"

definition failing_probes :: "qad_event list" where
  "failing_probes = replicate 5 (Join_V4 QJ_Failed) @ replicate 5 (Join_V6 QJ_Failed)"

lemma failing_probes_facts:
  "MAX_RELAYS \<le> joins_v4 failing_probes" "MAX_RELAYS \<le> joins_v6 failing_probes" "qad_blocked failing_probes"
  "Join_V4 QJ_Panicked \<notin> set failing_probes" "Join_V6 QJ_Panicked \<notin> set failing_probes"
  by (simp_all add: failing_probes_def MAX_RELAYS_def joins_v4_def joins_v6_def qad_blocked_def)

lemma example_env_events [simp]: "re_qad_events (example_env evs cs) = evs"
  by (simp add: example_env_def)


text \<open>C33: Where QUIC is blocked, the incremental report after one that measured relays runs no probe at all:
  it measures nothing and names no preferred relay, although relays are reachable over HTTPS; the next
  incremental report then probes every relay again.\<close>

theorem incremental_report_blind:
  assumes ok: "reports_ok (nc_reports cl)"
    and incremental: "\<not> wants_full (re_now env) (re_is_major env) (nc_reports cl)"
    and measured: "last_report (nc_reports cl) = Some l" "\<not> latencies_is_empty (relay_latency l)"
    and relays: "nc_relay_map cl \<noteq> []"
    and blocked: "nc_qad_conns cl = \<lparr>qc_v4 = None, qc_v6 = None\<rparr>" "qad_blocked (re_qad_events env)"
    and ready: "get_report env cl = Report_Ready r cl'"
  shows "measured r = {} \<and> preferred_relay r = None \<and> \<not> has_udp r \<and>
    reportgen_plan (last_report (nc_reports cl')) (nc_relay_map cl') (nc_probes cl') = plan_initial (nc_relay_map cl) (nc_probes cl)"
proof -
  obtain do_full cl1 q rs where b: "report_begin (re_now env) (re_is_major env) cl = (do_full, cl1)" and
    q: "spawn_qad_probes (re_qad env) (nc_quic_client cl1) (re_have_v4 env) (re_have_v6 env)
       (min (relay_map_len (nc_relay_map cl1)) ENOUGH_ENDPOINTS) do_full (nc_relay_map cl1) (re_qad_events env) (nc_qad_conns cl1) = Qad_Done q" and
    h: "add_report_history_and_set_preferred_relay (re_end env) (collect_report env do_full cl1 q) (nc_reports cl1) = (r, rs)" and
    cl': "cl' = cl1\<lparr>nc_qad_conns := ql_conns q, nc_reports := rs\<rparr>"
    using ready by (rule get_report_ReadyD)
  note b' = report_begin_reports [OF b]
  have c: "collect_report env do_full cl1 q = report_default"
    using incremental measured relays blocked b q by (rule blocked_incremental_report)
  have "reports_ok (nc_reports cl1)" using ok by (simp add: reports_ok_def b')
  note res = add_report_history [OF this collect_report_facts(2,1) h, unfolded c]
  have lat: "latencies_is_empty (relay_latency r)" "\<not> has_udp r"
    by (subst res(1), simp add: report_default_def latencies_default_def latencies_is_empty_def copy_mapping_def has_udp_def split: option.splits)+
  moreover have "preferred_relay r = None" using res(2) lat(1) by (simp add: chosen_relay_def measured_empty)
  ultimately show ?thesis
    using res(4) by (simp add: cl' b' reportgen_plan_def plan_with_last_report_def measured_empty)
qed

definition measured_client :: net_client where
  "measured_client = (net_client_new 0 example_relays (Some (True, True)) True True)
     \<lparr>nc_reports := \<lparr>next_full = False, prev_reports = [], last_report = Some (report_update (R_Https ''https://a'' 7) report_default), last_full = 0\<rparr>\<rparr>"

theorem incremental_report_blind_witness:
  "\<exists>r cl'. get_report (example_env failing_probes []) measured_client = Report_Ready r cl' \<and> measured r = {} \<and> preferred_relay r = None"
proof -
  let ?env = "example_env failing_probes []"
  obtain r cl' where ready: "get_report ?env measured_client = Report_Ready r cl'"
    using get_report_returns [of ?env] failing_probes_facts by (metis example_env_events)
  have "reports_ok (nc_reports measured_client)" "nc_qad_conns measured_client = \<lparr>qc_v4 = None, qc_v6 = None\<rparr>"
    "nc_relay_map measured_client \<noteq> []"
    by (simp_all add: measured_client_def net_client_new_def reports_ok_def example_relays_def relay_map_of_urls_def)
  moreover have "\<not> wants_full (re_now ?env) (re_is_major ?env) (nc_reports measured_client)"
    by (simp add: wants_full_def measured_client_def example_env_def FULL_REPORT_INTERVAL_def from_secs_def
        report_update_def record_latency_def report_default_def)
  moreover have "last_report (nc_reports measured_client) = Some (report_update (R_Https ''https://a'' 7) report_default)"
    "\<not> latencies_is_empty (relay_latency (report_update (R_Https ''https://a'' 7) report_default))"
    by (simp_all add: measured_client_def report_update_def record_latency_def report_default_def latencies_default_def
        latencies_is_empty_def lower_def)
  moreover have "qad_blocked (re_qad_events ?env)" using failing_probes_facts by simp
  ultimately show ?thesis using incremental_report_blind ready by blast
qed

section \<open>The router\<close>




text \<open>
  A second call of \<open>shutdown\<close> returns at once, also while no handler has shut down and the endpoint is
  open.
\<close>

lemma second_shutdown_returns_early:
  "\<exists>s. (router_step b)\<^sup>*\<^sup>* (router_spawn b) s \<and> Call_Immediate \<in> set (rt_calls s) \<and> rt_stopped s = [] \<and> \<not> rt_endpoint_closed s"
proof -
  let ?s = "shutdown_begin (shutdown_begin (router_spawn b))"
  have "router_step b (router_spawn b) (shutdown_begin (router_spawn b))" "router_step b (shutdown_begin (router_spawn b)) ?s"
    by (rule rs_shutdown)+
  then have "(router_step b)\<^sup>*\<^sup>* (router_spawn b) ?s" by (meson converse_rtranclp_into_rtranclp rtranclp.rtrancl_refl)
  moreover have "Call_Immediate \<in> set (rt_calls ?s)" "rt_stopped ?s = []" "\<not> rt_endpoint_closed ?s"
    by (simp_all add: shutdown_begin_def router_spawn_def)
  ultimately show ?thesis by blast
qed

end
