(* ===== verification/Tunnel_Frames.thy ===== *)
theory Tunnel_Frames
  imports Keys "HOL-Library.Sublist"
begin

text \<open>
  The compressed frames a tunnel carries (\<open>iroh/examples/tunnel-listen.rs\<close>, with the same code in
  \<open>iroh/examples/tunnel-send.rs\<close>): both copying loops between a TCP connection and a QUIC stream. The
  compressor is a third-party library and a parameter. A reader is the data it delivers and the way it
  ends, a writer is what it has taken and how much it takes before it fails. Lemmas: what one side
  writes the other side restores, whatever the sizes of the reads, and what a cut stream gives.
\<close>

section \<open>Compression\<close>

record lz4 =
  lz4_compress :: "bytes \<Rightarrow> bytes"
  lz4_decompress :: "bytes \<Rightarrow> nat \<Rightarrow> bytes option"

text \<open>
  Documented behaviour of \<open>lz4_flex\<close>: a block decompresses to what was compressed when the announced
  size is at least its size, and a compressed block is at most a tenth and twenty octets larger.
\<close>

definition lz4_ok :: "lz4 \<Rightarrow> bool" where
  "lz4_ok L \<longleftrightarrow>
     (\<forall>b n. length b \<le> n \<longrightarrow> lz4_decompress L (lz4_compress L b) n = Some b) \<and>
     (\<forall>b. length (lz4_compress L b) \<le> 20 + length b * 110 div 100)"

definition FRAME_BUFFER :: nat where "FRAME_BUFFER = 16 * 1024"
definition MAX_DECOMPRESSED :: nat where "MAX_DECOMPRESSED = 128 * 1024"

section \<open>Readers and writers\<close>

datatype io_error = Read_Error | Write_Error | Unexpected_Eof | Invalid_Data | Connect_Error | Socket_Error

datatype stream_end = At_Eof | At_Error

record stream_writer =
  wr_out :: bytes
  wr_limit :: "nat option"
  wr_shutdown :: bool

definition writer_new :: "nat option \<Rightarrow> stream_writer" where
  "writer_new limit = \<lparr>wr_out = [], wr_limit = limit, wr_shutdown = False\<rparr>"

definition write_all :: "bytes \<Rightarrow> stream_writer \<Rightarrow> (io_error + unit) \<times> stream_writer" where
  "write_all d w =
     (case wr_limit w of
        None \<Rightarrow> (Inr (), w\<lparr>wr_out := wr_out w @ d\<rparr>)
      | Some l \<Rightarrow>
         (if length (wr_out w) + length d \<le> l then (Inr (), w\<lparr>wr_out := wr_out w @ d\<rparr>)
          else (Inl Write_Error, w\<lparr>wr_out := wr_out w @ take (l - length (wr_out w)) d\<rparr>)))"

definition shutdown_writer :: "stream_writer \<Rightarrow> (io_error + unit) \<times> stream_writer" where
  "shutdown_writer w = (Inr (), w\<lparr>wr_shutdown := True\<rparr>)"

section \<open>The two loops\<close>

text \<open>The chunks are what the reads return; an empty one is the end of the stream.\<close>

fun compress_and_forward :: "lz4 \<Rightarrow> bytes list \<Rightarrow> stream_end \<Rightarrow> stream_writer \<Rightarrow> (io_error + unit) \<times> stream_writer" where
  "compress_and_forward L [] ending w =
     (case ending of At_Eof \<Rightarrow> shutdown_writer w | At_Error \<Rightarrow> (Inl Read_Error, w))"
| "compress_and_forward L (chunk # chunks) ending w =
     (if chunk = [] then shutdown_writer w
      else
        (let compressed = lz4_compress L chunk; len = (of_nat (length compressed) :: u32) in
         case write_all (u32_to_be len) w of
           (Inl e, w1) \<Rightarrow> (Inl e, w1)
         | (Inr _, w1) \<Rightarrow>
            (case write_all compressed w1 of
               (Inl e, w2) \<Rightarrow> (Inl e, w2)
             | (Inr _, w2) \<Rightarrow> compress_and_forward L chunks ending w2)))"

text \<open>The data is what the stream still delivers before it ends.\<close>

function decompress_and_forward :: "lz4 \<Rightarrow> bytes \<Rightarrow> stream_end \<Rightarrow> stream_writer \<Rightarrow> (io_error + unit) \<times> stream_writer" where
  "decompress_and_forward L input ending w =
     (if length input < 4
      then (case ending of At_Eof \<Rightarrow> shutdown_writer w | At_Error \<Rightarrow> (Inl Read_Error, w))
      else
        (let len = unat (u32_of_be (take 4 input)); rest = drop 4 input in
         if length rest < len then (Inl (case ending of At_Eof \<Rightarrow> Unexpected_Eof | At_Error \<Rightarrow> Read_Error), w)
         else
           (case lz4_decompress L (take len rest) MAX_DECOMPRESSED of
              None \<Rightarrow> (Inl Invalid_Data, w)
            | Some d \<Rightarrow>
               (case write_all d w of
                  (Inl e, w1) \<Rightarrow> (Inl e, w1)
                | (Inr _, w1) \<Rightarrow> decompress_and_forward L (drop len rest) ending w1))))"
  by pat_completeness auto
termination by (relation "measure (\<lambda>(L, input, ending, w). length input)") auto

declare decompress_and_forward.simps [simp del]

text \<open>
  Both directions of a bridge, side by side: it succeeds when both have, and otherwise ends with an
  error of one of them.
\<close>

definition bridge_compressed ::
  "lz4 \<Rightarrow> bytes list \<Rightarrow> stream_end \<Rightarrow> stream_writer \<Rightarrow> bytes \<Rightarrow> stream_end \<Rightarrow> stream_writer \<Rightarrow> (io_error + unit) list" where
  "bridge_compressed L tcp_in tcp_end iroh_send iroh_in iroh_end tcp_send =
     (case (fst (compress_and_forward L tcp_in tcp_end iroh_send), fst (decompress_and_forward L iroh_in iroh_end tcp_send)) of
        (Inr _, Inr _) \<Rightarrow> [Inr ()]
      | (Inl e, Inr _) \<Rightarrow> [Inl e]
      | (Inr _, Inl e) \<Rightarrow> [Inl e]
      | (Inl e, Inl e') \<Rightarrow> [Inl e, Inl e'])"

section \<open>Frames\<close>

definition frame :: "lz4 \<Rightarrow> bytes \<Rightarrow> bytes" where
  "frame L chunk = u32_to_be (of_nat (length (lz4_compress L chunk))) @ lz4_compress L chunk"

definition chunk_ok :: "bytes \<Rightarrow> bool" where
  "chunk_ok c \<longleftrightarrow> c \<noteq> [] \<and> length c \<le> FRAME_BUFFER"

lemma compressed_length:
  assumes "lz4_ok L" "length c \<le> FRAME_BUFFER"
  shows "unat (of_nat (length (lz4_compress L c)) :: u32) = length (lz4_compress L c)"
proof -
  have "length (lz4_compress L c) \<le> 20 + length c * 110 div 100" using assms(1) by (simp add: lz4_ok_def)
  also have "\<dots> < 2 ^ 32" using assms(2) by (simp add: FRAME_BUFFER_def)
  finally show ?thesis by (simp add: unat_of_nat)
qed

lemma compress_frames:
  assumes "\<forall>c \<in> set chunks. chunk_ok c" "wr_limit w = None"
  shows "compress_and_forward L chunks At_Eof w = (Inr (), w\<lparr>wr_out := wr_out w @ concat (map (frame L) chunks), wr_shutdown := True\<rparr>)"
  using assms
  by (induction chunks arbitrary: w) (simp_all add: shutdown_writer_def write_all_def frame_def chunk_ok_def Let_def)

text \<open>One whole frame in front of the stream.\<close>

lemma decompress_frame:
  assumes "lz4_ok L" "chunk_ok c"
  shows "decompress_and_forward L (frame L c @ rest) ending w =
    (case write_all c w of (Inl e, w1) \<Rightarrow> (Inl e, w1) | (Inr _, w1) \<Rightarrow> decompress_and_forward L rest ending w1)"
proof -
  have len: "unat (of_nat (length (lz4_compress L c)) :: u32) = length (lz4_compress L c)"
    using assms compressed_length by (simp add: chunk_ok_def)
  have "lz4_decompress L (lz4_compress L c) MAX_DECOMPRESSED = Some c"
    using assms by (simp add: lz4_ok_def chunk_ok_def FRAME_BUFFER_def MAX_DECOMPRESSED_def)
  then show ?thesis
    by (subst decompress_and_forward.simps) (simp add: frame_def len split: prod.splits sum.splits)
qed

lemma decompress_frames:
  assumes "lz4_ok L" "\<forall>c \<in> set chunks. chunk_ok c" "wr_limit w = None"
  shows "decompress_and_forward L (concat (map (frame L) chunks) @ rest) ending w =
    decompress_and_forward L rest ending (w\<lparr>wr_out := wr_out w @ concat chunks\<rparr>)"
  using assms(2,3)
proof (induction chunks arbitrary: w)
  case (Cons c chunks)
  have "decompress_and_forward L (concat (map (frame L) (c # chunks)) @ rest) ending w =
      decompress_and_forward L (concat (map (frame L) chunks) @ rest) ending (w\<lparr>wr_out := wr_out w @ c\<rparr>)"
    using Cons.prems decompress_frame [OF assms(1), of c] by (simp add: write_all_def)
  then show ?case using Cons by simp
qed simp

section \<open>A cut stream\<close>

text \<open>What is left of a frame that did not arrive completely.\<close>

lemma decompress_partial:
  assumes "lz4_ok L" "chunk_ok c" "strict_prefix p (frame L c)"
  shows "decompress_and_forward L p At_Eof w =
    (if length p < 4 then (Inr (), w\<lparr>wr_shutdown := True\<rparr>) else (Inl Unexpected_Eof, w))"
proof (cases "length p < 4")
  case True
  then show ?thesis by (subst decompress_and_forward.simps) (simp add: shutdown_writer_def)
next
  case False
  let ?body = "lz4_compress L c"
  obtain q where q: "frame L c = p @ q" "q \<noteq> []" using assms(3) by (auto simp: strict_prefix_def prefix_def)
  have "take 4 p = u32_to_be (of_nat (length ?body))"
    using arg_cong [OF q(1), of "take 4"] False by (simp add: frame_def)
  then have "unat (u32_of_be (take 4 p)) = length ?body" using assms compressed_length by (simp add: chunk_ok_def)
  moreover have "length (drop 4 p) < length ?body"
    using arg_cong [OF q(1), of length] q(2) False by (cases q) (simp_all add: frame_def)
  ultimately show ?thesis using False by (subst decompress_and_forward.simps) (simp add: Let_def)
qed

text \<open>A proper prefix of frames is some whole frames and a proper prefix of the next one.\<close>

lemma prefix_of_frames:
  assumes "strict_prefix p (concat (map (frame L) chunks))"
  obtains whole c more q where "chunks = whole @ c # more" "p = concat (map (frame L) whole) @ q" "strict_prefix q (frame L c)"
  using assms
proof (induction chunks arbitrary: p thesis)
  case (Cons c chunks)
  show ?case
  proof (cases "prefix (frame L c) p")
    case True
    then obtain r where r: "p = frame L c @ r" by (auto simp: prefix_def)
    then have "strict_prefix r (concat (map (frame L) chunks))" using Cons.prems(2) by (auto simp: strict_prefix_def)
    then obtain whole d more q where "chunks = whole @ d # more" "r = concat (map (frame L) whole) @ q" "strict_prefix q (frame L d)"
      using Cons.IH by blast
    then show ?thesis using Cons.prems(1) [of "c # whole" d more q] r by simp
  next
    case False
    have "prefix p (frame L c @ concat (map (frame L) chunks))" using Cons.prems(2) by (simp add: strict_prefix_def)
    then have "strict_prefix p (frame L c)" using False by (metis prefix_append prefixI strict_prefix_def)
    then show ?thesis using Cons.prems(1) [of "[]" c chunks p] by simp
  qed
qed simp

end
