(* ===== verification/Tunnel_Server.thy ===== *)
theory Tunnel_Server
  imports Tunnel_Frames Text_Format
begin

text \<open>
  The listening side of the tunnel (\<open>iroh/examples/tunnel-listen.rs\<close>): its command line and key file,
  the handler that admits clients and starts a bridge for each of their streams, and the connection to
  the local service with its retries. Command line strings are taken as ASCII where white space is
  trimmed. Lemmas: which clients are served, how many bridges run, and how long a bridge waits for the
  local service.
\<close>

section \<open>The key file\<close>

text \<open>The file and a fresh key; a failing write leaves some first octets.\<close>

datatype fs_outcome = Fs_Ok | Fs_Failed nat

datatype key_error = Key_Io | Key_Invalid

definition load_or_create_key :: "fs_outcome \<Rightarrow> secret_key \<Rightarrow> bytes option \<Rightarrow> (key_error + secret_key) \<times> bytes option" where
  "load_or_create_key fs fresh file =
     (case file of
        Some bytes \<Rightarrow>
          (if fs \<noteq> Fs_Ok then (Inl Key_Io, file)
           else if length bytes = 32 then (Inr bytes, file) else (Inl Key_Invalid, file))
      | None \<Rightarrow>
          (case fs of
             Fs_Ok \<Rightarrow> (Inr fresh, Some fresh)
           | Fs_Failed n \<Rightarrow> (Inl Key_Io, Some (take n fresh))))"

lemma key_file_stable:
  assumes "load_or_create_key fs fresh file = (Inr key, file')" "length fresh = 32"
  shows "load_or_create_key Fs_Ok fresh' file' = (Inr key, file')"
  using assms by (auto simp: load_or_create_key_def split: option.splits fs_outcome.splits if_splits)

section \<open>The command line\<close>

record server_args =
  sa_local_service_addr :: string
  sa_alpn :: bytes
  sa_whitelist :: "public_key list"

datatype 'a args_result = Args_Help | Args_Error | Args_Ok 'a

definition is_whitespace :: "char \<Rightarrow> bool" where
  "is_whitespace c \<longleftrightarrow> c = CHR '' '' \<or> c \<in> set [CHR 0x09, CHR 0x0A, CHR 0x0B, CHR 0x0C, CHR 0x0D]"

definition trim :: "string \<Rightarrow> string" where
  "trim s = rev (dropWhile is_whitespace (rev (dropWhile is_whitespace s)))"

fun whitelist_of :: "ed25519 \<Rightarrow> text_encodings \<Rightarrow> string list \<Rightarrow> public_key list \<Rightarrow> key_parsing_error + public_key list" where
  "whitelist_of C T [] acc = Inr acc"
| "whitelist_of C T (s # ss) acc =
     (if trim s = [] then whitelist_of C T ss acc
      else and_then (public_key_from_str C T (trim s)) (\<lambda>k. whitelist_of C T ss (List.insert k acc)))"

definition DEFAULT_CLIENT :: string where
  "DEFAULT_CLIENT = ''c2381bc8c69ce7ca39804b9b3edb04c014170500866272867ccc0a7daae505ad''"

definition server_args_default :: "ed25519 \<Rightarrow> text_encodings \<Rightarrow> server_args" where
  "server_args_default C T =
     \<lparr>sa_local_service_addr = ''127.0.0.1:11435'', sa_alpn = string_bytes ''ranyitech.com/port-forwarding/v1'',
      sa_whitelist = (case public_key_from_str C T DEFAULT_CLIENT of Inr k \<Rightarrow> [k] | Inl _ \<Rightarrow> [])\<rparr>"

fun parse_server_loop :: "ed25519 \<Rightarrow> text_encodings \<Rightarrow> string list \<Rightarrow> server_args \<Rightarrow> server_args args_result" where
  "parse_server_loop C T [] a = Args_Ok a"
| "parse_server_loop C T (arg # rest) a =
     (if arg = ''--'' then parse_server_loop C T rest a
      else if arg = ''--local-addr'' \<or> arg = ''-l'' then
        (case rest of v # others \<Rightarrow> parse_server_loop C T others (a\<lparr>sa_local_service_addr := v\<rparr>) | [] \<Rightarrow> Args_Error)
      else if arg = ''--alpn'' \<or> arg = ''-a'' then
        (case rest of v # others \<Rightarrow> parse_server_loop C T others (a\<lparr>sa_alpn := string_bytes v\<rparr>) | [] \<Rightarrow> Args_Error)
      else if arg = ''--whitelist'' \<or> arg = ''-w'' then
        (case rest of
           v # others \<Rightarrow>
             (case whitelist_of C T (split_char (CHR '','') v) [] of
                Inl _ \<Rightarrow> Args_Error
              | Inr ks \<Rightarrow> parse_server_loop C T others (a\<lparr>sa_whitelist := ks\<rparr>))
         | [] \<Rightarrow> Args_Error)
      else Args_Error)"

definition parse_server_args :: "ed25519 \<Rightarrow> text_encodings \<Rightarrow> string list \<Rightarrow> server_args args_result" where
  "parse_server_args C T args =
     (if ''-h'' \<in> set args \<or> ''--help'' \<in> set args then Args_Help
      else parse_server_loop C T (drop 1 args) (server_args_default C T))"

text \<open>The keys of a list are those of its entries that are not blank.\<close>

lemma whitelist_of_set:
  "whitelist_of C T ss acc = Inr ks \<Longrightarrow> set ks = set acc \<union> {k. \<exists>s \<in> set ss. trim s \<noteq> [] \<and> public_key_from_str C T (trim s) = Inr k}"
proof (induction ss arbitrary: acc)
  case (Cons s ss)
  show ?case
  proof (cases "trim s = []")
    case False
    then obtain k where "public_key_from_str C T (trim s) = Inr k" "whitelist_of C T ss (List.insert k acc) = Inr ks"
      using Cons.prems by (auto simp: and_then_Inr_iff)
    then show ?thesis using Cons.IH False by auto
  qed (use Cons in auto)
qed simp

lemma parse_server_whitelist:
  "parse_server_loop C T args a = Args_Ok r \<Longrightarrow>
     sa_whitelist r = sa_whitelist a \<or> (\<exists>v \<in> set args. whitelist_of C T (split_char (CHR '','') v) [] = Inr (sa_whitelist r))"
proof (induction "length args" arbitrary: args a rule: less_induct)
  case less
  show ?case
  proof (cases args)
    case (Cons arg rest)
    have "\<exists>b others. parse_server_loop C T others b = Args_Ok r \<and> length others < length args \<and> set others \<subseteq> set args \<and>
        (sa_whitelist b = sa_whitelist a \<or> (\<exists>v \<in> set args. whitelist_of C T (split_char (CHR '','') v) [] = Inr (sa_whitelist b)))"
    proof (cases rest)
      case Nil
      then have "arg = ''--''" using less.prems Cons by (simp split: if_splits)
      then show ?thesis using less.prems Cons by auto
    next
      case (Cons v others)
      have rest: "length others < length args" "set others \<subseteq> set args" "v \<in> set args" "set rest \<subseteq> set args" "length rest < length args"
        using \<open>args = arg # rest\<close> Cons by auto
      consider "parse_server_loop C T rest a = Args_Ok r" |
        b where "parse_server_loop C T others b = Args_Ok r"
          "sa_whitelist b = sa_whitelist a \<or> whitelist_of C T (split_char (CHR '','') v) [] = Inr (sa_whitelist b)"
        using less.prems \<open>args = arg # rest\<close> Cons
        by (simp split: if_splits sum.splits)
      then show ?thesis using rest by cases blast+
    qed
    then obtain b others where o: "parse_server_loop C T others b = Args_Ok r" "length others < length args" "set others \<subseteq> set args"
      "sa_whitelist b = sa_whitelist a \<or> (\<exists>v \<in> set args. whitelist_of C T (split_char (CHR '','') v) [] = Inr (sa_whitelist b))"
      by blast
    show ?thesis using less.hyps [OF o(2,1)] o(3,4) by (elim disjE) auto
  qed (use less.prems in simp)
qed

lemma parse_server_no_whitelist:
  "parse_server_loop C T args a = Args_Ok r \<Longrightarrow> ''-w'' \<notin> set args \<Longrightarrow> ''--whitelist'' \<notin> set args \<Longrightarrow>
     sa_whitelist r = sa_whitelist a"
  by (induction C T args a rule: parse_server_loop.induct) (auto split: if_splits list.splits)

lemma blank_whitelist: "parse_server_args C T [''tunnel'', ''-w'', ''''] = Args_Ok ((server_args_default C T)\<lparr>sa_whitelist := []\<rparr>)"
  by (simp add: parse_server_args_def trim_def)

section \<open>Admission and bridges\<close>

text \<open>
  The handler runs once per connection: it waits for the next stream, then for a permit, and starts a
  bridge that holds the permit. Permits are shared by all connections.
\<close>

definition CONCURRENCY_LIMIT :: nat where "CONCURRENCY_LIMIT = 2000"

definition proxy_allows :: "public_key list \<Rightarrow> public_key \<Rightarrow> bool" where
  "proxy_allows whitelist client_id \<longleftrightarrow> \<not> (whitelist \<noteq> [] \<and> client_id \<notin> set whitelist)"

datatype conn_state = Conn_Accepting | Conn_Permit | Conn_Ended | Conn_Rejected

record proxy =
  px_permits :: nat
  px_conns :: "(public_key \<times> conn_state) list"
  px_bridges :: "public_key list"

definition proxy_new :: proxy where
  "proxy_new = \<lparr>px_permits = CONCURRENCY_LIMIT, px_conns = [], px_bridges = []\<rparr>"

definition proxy_accept :: "public_key list \<Rightarrow> public_key \<Rightarrow> proxy \<Rightarrow> proxy" where
  "proxy_accept whitelist client_id p =
     p\<lparr>px_conns := px_conns p @ [(client_id, if proxy_allows whitelist client_id then Conn_Accepting else Conn_Rejected)]\<rparr>"

definition conn_set :: "nat \<Rightarrow> conn_state \<Rightarrow> proxy \<Rightarrow> proxy" where
  "conn_set c st p = p\<lparr>px_conns := (px_conns p)[c := (fst (px_conns p ! c), st)]\<rparr>"

inductive proxy_step :: "public_key list \<Rightarrow> proxy \<Rightarrow> proxy \<Rightarrow> bool" for whitelist where
  px_connect: "proxy_step whitelist p (proxy_accept whitelist client_id p)"
| px_stream: "c < length (px_conns p) \<Longrightarrow> snd (px_conns p ! c) = Conn_Accepting \<Longrightarrow> proxy_step whitelist p (conn_set c Conn_Permit p)"
| px_closed: "c < length (px_conns p) \<Longrightarrow> snd (px_conns p ! c) = Conn_Accepting \<Longrightarrow> proxy_step whitelist p (conn_set c Conn_Ended p)"
| px_permit: "c < length (px_conns p) \<Longrightarrow> snd (px_conns p ! c) = Conn_Permit \<Longrightarrow> 0 < px_permits p \<Longrightarrow>
     proxy_step whitelist p ((conn_set c Conn_Accepting p)
       \<lparr>px_permits := px_permits p - 1, px_bridges := px_bridges p @ [fst (px_conns p ! c)]\<rparr>)"
| px_bridge_end: "i < length (px_bridges p) \<Longrightarrow>
     proxy_step whitelist p (p\<lparr>px_permits := px_permits p + 1, px_bridges := take i (px_bridges p) @ drop (Suc i) (px_bridges p)\<rparr>)"

definition proxy_inv :: "public_key list \<Rightarrow> proxy \<Rightarrow> bool" where
  "proxy_inv whitelist p \<longleftrightarrow> px_permits p + length (px_bridges p) = CONCURRENCY_LIMIT \<and>
     (\<forall>k \<in> set (px_bridges p). proxy_allows whitelist k) \<and>
     (\<forall>(k, st) \<in> set (px_conns p). st \<noteq> Conn_Rejected \<longleftrightarrow> proxy_allows whitelist k)"

lemma conn_set_inv:
  assumes "proxy_inv whitelist p" "c < length (px_conns p)" "snd (px_conns p ! c) \<noteq> Conn_Rejected" "st \<noteq> Conn_Rejected"
  shows "proxy_inv whitelist (conn_set c st p)" "proxy_allows whitelist (fst (px_conns p ! c))"
proof -
  have "px_conns p ! c \<in> set (px_conns p)" using assms(2) by simp
  then show a: "proxy_allows whitelist (fst (px_conns p ! c))"
    using assms(1,3) unfolding proxy_inv_def by (metis (mono_tags, lifting) case_prod_beta)
  have "set ((px_conns p)[c := (fst (px_conns p ! c), st)]) \<subseteq> insert (fst (px_conns p ! c), st) (set (px_conns p))"
    by (rule set_update_subset_insert)
  then show "proxy_inv whitelist (conn_set c st p)" using assms(1,4) a by (fastforce simp: proxy_inv_def conn_set_def)
qed

lemma proxy_step_inv: "proxy_step whitelist p q \<Longrightarrow> proxy_inv whitelist p \<Longrightarrow> proxy_inv whitelist q"
proof (induction rule: proxy_step.induct)
  case (px_connect p client_id)
  then show ?case by (auto simp: proxy_inv_def proxy_accept_def)
next
  case (px_stream c p)
  then show ?case by (intro conn_set_inv) auto
next
  case (px_closed c p)
  then show ?case by (intro conn_set_inv) auto
next
  case (px_permit c p)
  then have "proxy_inv whitelist (conn_set c Conn_Accepting p)" "proxy_allows whitelist (fst (px_conns p ! c))"
    using conn_set_inv [of whitelist p c Conn_Accepting] by auto
  then show ?case using px_permit.hyps(3) by (auto simp: proxy_inv_def conn_set_def)
next
  case (px_bridge_end i p)
  then show ?case by (auto simp: proxy_inv_def dest: in_set_takeD in_set_dropD)
qed

lemma proxy_reachable_inv: "(proxy_step whitelist)\<^sup>*\<^sup>* proxy_new p \<Longrightarrow> proxy_inv whitelist p"
proof (induction rule: rtranclp_induct)
  case base
  show ?case by (simp add: proxy_inv_def proxy_new_def)
qed (rule proxy_step_inv)

section \<open>Connecting to the local service\<close>

text \<open>Each attempt ends connected, refused or timed out; times are milliseconds.\<close>

definition MAX_LOCAL_RETRIES :: nat where "MAX_LOCAL_RETRIES = 30"
definition CONNECT_TIMEOUT_MS :: nat where "CONNECT_TIMEOUT_MS = 2000"
definition RETRY_SLEEP_MS :: nat where "RETRY_SLEEP_MS = 1000"

datatype local_attempt = Attempt_Connected nat | Attempt_Refused nat | Attempt_Timeout

fun attempt_ms :: "local_attempt \<Rightarrow> nat" where
  "attempt_ms (Attempt_Connected ms) = ms"
| "attempt_ms (Attempt_Refused ms) = ms"
| "attempt_ms Attempt_Timeout = CONNECT_TIMEOUT_MS"

datatype local_result = Local_Connected nat | Local_Failed nat | Local_Waiting nat

fun connect_local :: "nat \<Rightarrow> nat \<Rightarrow> local_attempt list \<Rightarrow> local_result" where
  "connect_local local_retries elapsed [] = Local_Waiting elapsed"
| "connect_local local_retries elapsed (a # as) =
     (let retries = local_retries + 1; now = elapsed + attempt_ms a in
      case a of
        Attempt_Connected _ \<Rightarrow> Local_Connected now
      | _ \<Rightarrow> (if retries \<ge> MAX_LOCAL_RETRIES then Local_Failed now else connect_local retries (now + RETRY_SLEEP_MS) as))"

text \<open>The loop ends after thirty attempts, and succeeds as soon as one of them does.\<close>

lemma connect_local_ends:
  assumes "MAX_LOCAL_RETRIES - n \<le> length as" "n < MAX_LOCAL_RETRIES"
  shows "connect_local n t as \<noteq> Local_Waiting u"
  using assms
proof (induction as arbitrary: n t)
  case (Cons a as)
  then show ?case by (cases a) (simp_all add: Let_def)
qed simp

lemma connect_local_connected:
  assumes "n < MAX_LOCAL_RETRIES" "i < length as" "n + i < MAX_LOCAL_RETRIES" "as ! i = Attempt_Connected ms"
  shows "\<exists>u. connect_local n t as = Local_Connected u"
  using assms
proof (induction as arbitrary: n t i)
  case (Cons a as)
  show ?case
  proof (cases i)
    case 0
    then show ?thesis using Cons.prems by simp
  next
    case (Suc j)
    then show ?thesis using Cons.prems Cons.IH [of "Suc n" j] by (cases a) (simp_all add: Let_def)
  qed
qed simp

lemma connect_local_time:
  assumes "\<forall>a \<in> set as. attempt_ms a \<le> CONNECT_TIMEOUT_MS" "n < MAX_LOCAL_RETRIES"
    "connect_local n t as \<in> {Local_Connected u, Local_Failed u}"
  shows "u \<le> t + (MAX_LOCAL_RETRIES - n) * CONNECT_TIMEOUT_MS + (MAX_LOCAL_RETRIES - Suc n) * RETRY_SLEEP_MS"
  using assms
proof (induction as arbitrary: n t)
  case (Cons a as)
  let ?bound = "\<lambda>n. (MAX_LOCAL_RETRIES - n) * CONNECT_TIMEOUT_MS + (MAX_LOCAL_RETRIES - Suc n) * RETRY_SLEEP_MS"
  have a: "attempt_ms a \<le> CONNECT_TIMEOUT_MS" using Cons.prems(1) by simp
  have first: "CONNECT_TIMEOUT_MS \<le> ?bound n" using Cons.prems(2) by (simp add: MAX_LOCAL_RETRIES_def CONNECT_TIMEOUT_MS_def)
  consider "u = t + attempt_ms a" | "Suc n < MAX_LOCAL_RETRIES" "connect_local (Suc n) (t + attempt_ms a + RETRY_SLEEP_MS) as \<in> {Local_Connected u, Local_Failed u}"
    using Cons.prems(3) by (cases a) (auto simp: Let_def split: if_splits)
  then show ?case
  proof cases
    case 2
    then have "u \<le> t + attempt_ms a + RETRY_SLEEP_MS + ?bound (Suc n)" using Cons.IH [OF _ 2(1,2)] Cons.prems(1) by simp
    then show ?thesis using a 2(1) by (simp add: MAX_LOCAL_RETRIES_def CONNECT_TIMEOUT_MS_def RETRY_SLEEP_MS_def)
  qed (use a first in simp)
qed simp

text \<open>
  A bridge: no result while it still connects, an error when the local service cannot be reached or the
  socket option cannot be set, and otherwise a result of the two copying loops.
\<close>

definition bridge_streams_to_local ::
  "lz4 \<Rightarrow> local_attempt list \<Rightarrow> bool \<Rightarrow> bytes list \<Rightarrow> stream_end \<Rightarrow> stream_writer \<Rightarrow> bytes \<Rightarrow> stream_end \<Rightarrow> stream_writer \<Rightarrow>
   (io_error + unit) list" where
  "bridge_streams_to_local L attempts nodelay tcp_in tcp_end iroh_send iroh_in iroh_end tcp_send =
     (case connect_local 0 0 attempts of
        Local_Waiting _ \<Rightarrow> []
      | Local_Failed _ \<Rightarrow> [Inl Connect_Error]
      | Local_Connected _ \<Rightarrow>
         (if nodelay then bridge_compressed L tcp_in tcp_end iroh_send iroh_in iroh_end tcp_send else [Inl Socket_Error]))"

lemma bridge_streams_ends:
  assumes "MAX_LOCAL_RETRIES \<le> length attempts"
  shows "bridge_streams_to_local L attempts nodelay tcp_in tcp_end iroh_send iroh_in iroh_end tcp_send \<noteq> []"
  using connect_local_ends [of 0 attempts 0] assms
  by (auto simp: bridge_streams_to_local_def bridge_compressed_def MAX_LOCAL_RETRIES_def
      split: local_result.splits sum.splits)

end
