(* ===== verification/Tunnel_Client.thy ===== *)
theory Tunnel_Client
  imports Tunnel_Frames Endpoint_Addr
begin

text \<open>
  The sending side of the tunnel (\<open>iroh/examples/tunnel-send.rs\<close>): its command line, the session that
  caches one connection to the server behind a lock, and the task that forwards one TCP connection with
  its retries. The tasks run side by side and wait for the lock, the endpoint and the connection.
  Lemmas: at most one task connects at a time, and every task ends after a bounded number of its steps.
\<close>

section \<open>The command line\<close>

record client_args =
  ca_server_addr :: endpoint_addr
  ca_expose_local_port :: string
  ca_alpn :: bytes

datatype 'a client_result = Client_Help | Client_Error | Client_Ok 'a

fun parse_client_loop :: "string list \<Rightarrow> client_args \<Rightarrow> client_args client_result" where
  "parse_client_loop [] a = Client_Ok a"
| "parse_client_loop (arg # rest) a =
     (if arg = ''--'' then parse_client_loop rest a
      else if arg = ''--expose-port'' \<or> arg = ''-p'' then
        (case rest of v # others \<Rightarrow> parse_client_loop others (a\<lparr>ca_expose_local_port := v\<rparr>) | [] \<Rightarrow> Client_Error)
      else if arg = ''--alpn'' \<or> arg = ''-a'' then
        (case rest of v # others \<Rightarrow> parse_client_loop others (a\<lparr>ca_alpn := string_bytes v\<rparr>) | [] \<Rightarrow> Client_Error)
      else Client_Error)"

text \<open>The JSON form of an address is a parameter.\<close>

definition parse_client_args :: "(string \<Rightarrow> endpoint_addr option) \<Rightarrow> string list \<Rightarrow> client_args client_result" where
  "parse_client_args from_json args =
     (if length args < 2 \<or> ''-h'' \<in> set args \<or> ''--help'' \<in> set args then Client_Help
      else
        (case from_json (args ! 1) of
           None \<Rightarrow> Client_Error
         | Some addr \<Rightarrow>
            parse_client_loop (drop 2 args)
              \<lparr>ca_server_addr = addr, ca_expose_local_port = ''0.0.0.0:15444'',
               ca_alpn = string_bytes ''ranyitech.com/port-forwarding/v1''\<rparr>))"

section \<open>The session and its tasks\<close>

definition MAX_RETRIES :: nat where "MAX_RETRIES = 10"

definition CLIENT_LIMIT :: nat where "CLIENT_LIMIT = 2000"

text \<open>The delay before the next attempt, in milliseconds.\<close>

definition retry_delay :: "nat \<Rightarrow> nat" where
  "retry_delay retries = min (100 * 2 ^ (retries - 1)) 2000"

text \<open>
  A task at the points where it waits, with its number of attempts: for its permit, for the read lock, for
  the write lock, for the connection (holding the write lock), for a stream of a connection, for the lock
  that clears the cache, asleep, for the end of the bridge. A task that returned has dropped its permit.
\<close>

datatype client_task =
  C_Waiting
| C_Begin nat
| C_Lock nat
| C_Connecting nat
| C_Opening nat nat
| C_Invalidate nat
| C_Sleeping nat
| C_Bridging nat
| C_Returned

record session =
  ss_active_conn :: "nat option"
  ss_locked :: "nat option"
  ss_permits :: nat
  ss_next_conn :: nat
  ss_tasks :: "client_task list"

definition session_new :: session where
  "session_new = \<lparr>ss_active_conn = None, ss_locked = None, ss_permits = CLIENT_LIMIT, ss_next_conn = 0, ss_tasks = []\<rparr>"

definition task_set :: "nat \<Rightarrow> client_task \<Rightarrow> session \<Rightarrow> session" where
  "task_set i t s = s\<lparr>ss_tasks := (ss_tasks s)[i := t]\<rparr>"

text \<open>The accept loop spawns a task for every TCP connection.\<close>

definition accept_tcp :: "session \<Rightarrow> session" where
  "accept_tcp s = s\<lparr>ss_tasks := ss_tasks s @ [C_Waiting]\<rparr>"

definition acquire_permit :: "nat \<Rightarrow> session \<Rightarrow> session" where
  "acquire_permit i s = (task_set i (C_Begin 0) s)\<lparr>ss_permits := ss_permits s - 1\<rparr>"

definition task_returns :: "nat \<Rightarrow> session \<Rightarrow> session" where
  "task_returns i s = (task_set i C_Returned s)\<lparr>ss_permits := ss_permits s + 1\<rparr>"

text \<open>\<open>get_connection\<close>: the cached connection under the read lock, and again under the write lock.\<close>

definition get_connection_read :: "nat \<Rightarrow> nat \<Rightarrow> session \<Rightarrow> session" where
  "get_connection_read i n s =
     task_set i (case ss_active_conn s of Some c \<Rightarrow> C_Opening n c | None \<Rightarrow> C_Lock n) s"

definition get_connection_write :: "nat \<Rightarrow> nat \<Rightarrow> session \<Rightarrow> session" where
  "get_connection_write i n s =
     (case ss_active_conn s of
        Some c \<Rightarrow> task_set i (C_Opening n c) s
      | None \<Rightarrow> (task_set i (C_Connecting n) s)\<lparr>ss_locked := Some i\<rparr>)"

definition connected :: "nat \<Rightarrow> nat \<Rightarrow> session \<Rightarrow> session" where
  "connected i n s =
     (task_set i (C_Opening n (ss_next_conn s)) s)
       \<lparr>ss_active_conn := Some (ss_next_conn s), ss_locked := None, ss_next_conn := ss_next_conn s + 1\<rparr>"

text \<open>A failed attempt: the task returns its error after the last one.\<close>

definition connect_failed :: "nat \<Rightarrow> nat \<Rightarrow> session \<Rightarrow> session" where
  "connect_failed i n s =
     (if n \<ge> MAX_RETRIES then task_returns i s else task_set i (C_Sleeping n) s)\<lparr>ss_locked := None\<rparr>"

definition open_failed :: "nat \<Rightarrow> nat \<Rightarrow> session \<Rightarrow> session" where
  "open_failed i n s = (if n \<ge> MAX_RETRIES then task_returns i s else task_set i (C_Invalidate n) s)"

definition invalidate_connection :: "nat \<Rightarrow> nat \<Rightarrow> session \<Rightarrow> session" where
  "invalidate_connection i n s = (task_set i (C_Sleeping n) s)\<lparr>ss_active_conn := None\<rparr>"

text \<open>Events: a connection accepted, or a task moving, with the time it slept before.\<close>

datatype client_event = Accepted | Moved nat nat

inductive session_step :: "client_event \<Rightarrow> session \<Rightarrow> session \<Rightarrow> bool" where
  cs_accept: "session_step Accepted s (accept_tcp s)"
| cs_permit: "i < length (ss_tasks s) \<Longrightarrow> ss_tasks s ! i = C_Waiting \<Longrightarrow> ss_permits s > 0 \<Longrightarrow>
     session_step (Moved i 0) s (acquire_permit i s)"
| cs_nodelay_failed: "i < length (ss_tasks s) \<Longrightarrow> ss_tasks s ! i = C_Begin 0 \<Longrightarrow> session_step (Moved i 0) s (task_returns i s)"
| cs_attempt: "i < length (ss_tasks s) \<Longrightarrow> ss_tasks s ! i = C_Begin n \<Longrightarrow> ss_locked s = None \<Longrightarrow>
     session_step (Moved i 0) s (get_connection_read i (n + 1) s)"
| cs_lock: "i < length (ss_tasks s) \<Longrightarrow> ss_tasks s ! i = C_Lock n \<Longrightarrow> ss_locked s = None \<Longrightarrow>
     session_step (Moved i 0) s (get_connection_write i n s)"
| cs_connected: "i < length (ss_tasks s) \<Longrightarrow> ss_tasks s ! i = C_Connecting n \<Longrightarrow>
     session_step (Moved i 0) s (connected i n s)"
| cs_connect_failed: "i < length (ss_tasks s) \<Longrightarrow> ss_tasks s ! i = C_Connecting n \<Longrightarrow>
     session_step (Moved i 0) s (connect_failed i n s)"
| cs_opened: "i < length (ss_tasks s) \<Longrightarrow> ss_tasks s ! i = C_Opening n c \<Longrightarrow>
     session_step (Moved i 0) s (task_set i (C_Bridging c) s)"
| cs_open_failed: "i < length (ss_tasks s) \<Longrightarrow> ss_tasks s ! i = C_Opening n c \<Longrightarrow>
     session_step (Moved i 0) s (open_failed i n s)"
| cs_invalidate: "i < length (ss_tasks s) \<Longrightarrow> ss_tasks s ! i = C_Invalidate n \<Longrightarrow> ss_locked s = None \<Longrightarrow>
     session_step (Moved i 0) s (invalidate_connection i n s)"
| cs_awake: "i < length (ss_tasks s) \<Longrightarrow> ss_tasks s ! i = C_Sleeping n \<Longrightarrow>
     session_step (Moved i (retry_delay n)) s (task_set i (C_Begin n) s)"
| cs_bridge_ended: "i < length (ss_tasks s) \<Longrightarrow> ss_tasks s ! i = C_Bridging c \<Longrightarrow>
     session_step (Moved i 0) s (task_returns i s)"

inductive session_run :: "client_event list \<Rightarrow> session \<Rightarrow> bool" where
  run_start: "session_run [] session_new"
| run_step: "session_run es s \<Longrightarrow> session_step e s t \<Longrightarrow> session_run (es @ [e]) t"

inductive_cases accepted_cases: "session_step Accepted s t"

section \<open>What a step does to its task\<close>

fun is_connecting :: "client_task \<Rightarrow> bool" where
  "is_connecting (C_Connecting _) = True"
| "is_connecting _ = False"

definition holds_permit :: "client_task \<Rightarrow> bool" where
  "holds_permit t \<longleftrightarrow> t \<noteq> C_Waiting \<and> t \<noteq> C_Returned"

fun task_ok :: "client_task \<Rightarrow> bool" where
  "task_ok (C_Begin n) \<longleftrightarrow> n < MAX_RETRIES"
| "task_ok (C_Sleeping n) \<longleftrightarrow> n < MAX_RETRIES"
| "task_ok (C_Invalidate n) \<longleftrightarrow> n < MAX_RETRIES"
| "task_ok (C_Lock n) \<longleftrightarrow> n \<le> MAX_RETRIES"
| "task_ok (C_Connecting n) \<longleftrightarrow> n \<le> MAX_RETRIES"
| "task_ok (C_Opening n c) \<longleftrightarrow> n \<le> MAX_RETRIES"
| "task_ok _ \<longleftrightarrow> True"

text \<open>The steps a task has left: six for every further attempt, and the rest of the current one.\<close>

fun task_left :: "client_task \<Rightarrow> nat" where
  "task_left C_Waiting = 6 * MAX_RETRIES + 2"
| "task_left (C_Begin n) = 6 * (MAX_RETRIES - n) + 1"
| "task_left (C_Lock n) = 6 * (MAX_RETRIES - n) + 6"
| "task_left (C_Connecting n) = 6 * (MAX_RETRIES - n) + 5"
| "task_left (C_Opening n c) = 6 * (MAX_RETRIES - n) + 4"
| "task_left (C_Invalidate n) = 6 * (MAX_RETRIES - n) + 3"
| "task_left (C_Sleeping n) = 6 * (MAX_RETRIES - n) + 2"
| "task_left (C_Bridging c) = 1"
| "task_left C_Returned = 0"

text \<open>The time a task may still sleep.\<close>

definition sleep_from :: "nat \<Rightarrow> nat" where
  "sleep_from n = sum_list (map retry_delay [n..<MAX_RETRIES])"

fun sleep_left :: "client_task \<Rightarrow> nat" where
  "sleep_left C_Waiting = sleep_from 1"
| "sleep_left (C_Begin n) = sleep_from (n + 1)"
| "sleep_left (C_Lock n) = sleep_from n"
| "sleep_left (C_Connecting n) = sleep_from n"
| "sleep_left (C_Opening n c) = sleep_from n"
| "sleep_left (C_Invalidate n) = sleep_from n"
| "sleep_left (C_Sleeping n) = sleep_from n"
| "sleep_left _ = 0"

lemma sleep_from_Cons: "n < MAX_RETRIES \<Longrightarrow> sleep_from n = retry_delay n + sleep_from (Suc n)"
  by (simp add: sleep_from_def upt_conv_Cons)

text \<open>The change of one task, with the lock and the permits it takes or gives back.\<close>

definition task_moves :: "nat \<Rightarrow> nat \<Rightarrow> client_task \<Rightarrow> session \<Rightarrow> session \<Rightarrow> bool" where
  "task_moves i d new s t \<longleftrightarrow>
     i < length (ss_tasks s) \<and> ss_tasks t = (ss_tasks s)[i := new] \<and> task_ok new \<and>
     task_left new < task_left (ss_tasks s ! i) \<and> d + sleep_left new \<le> sleep_left (ss_tasks s ! i) \<and>
     ss_locked t = (if is_connecting new then Some i else if is_connecting (ss_tasks s ! i) then None else ss_locked s) \<and>
     (is_connecting new \<longrightarrow> ss_locked s = None) \<and>
     ss_permits t + of_bool (holds_permit new) = ss_permits s + of_bool (holds_permit (ss_tasks s ! i))"

lemmas task_defs = acquire_permit_def task_returns_def get_connection_read_def get_connection_write_def connected_def
  connect_failed_def open_failed_def invalidate_connection_def task_set_def holds_permit_def

lemma step_moves:
  assumes step: "session_step (Moved i d) s t" and ok: "\<forall>x \<in> set (ss_tasks s). task_ok x"
  obtains new where "task_moves i d new s t"
  using step
proof cases
  case cs_permit
  then show ?thesis by (intro that [of "C_Begin 0"]) (auto simp: task_moves_def task_defs MAX_RETRIES_def)
next
  case cs_nodelay_failed
  then show ?thesis by (intro that [of C_Returned]) (auto simp: task_moves_def task_defs)
next
  case (cs_attempt n)
  then have "n < MAX_RETRIES" using ok by (metis nth_mem task_ok.simps(1))
  then show ?thesis using cs_attempt
    by (intro that [of "case ss_active_conn s of Some c \<Rightarrow> C_Opening (n + 1) c | None \<Rightarrow> C_Lock (n + 1)"])
      (auto simp: task_moves_def task_defs split: option.splits)
next
  case (cs_lock n)
  then have "n \<le> MAX_RETRIES" using ok by (metis nth_mem task_ok.simps(4))
  then show ?thesis using cs_lock
    by (intro that [of "case ss_active_conn s of Some c \<Rightarrow> C_Opening n c | None \<Rightarrow> C_Connecting n"])
      (auto simp: task_moves_def task_defs split: option.splits)
next
  case (cs_connected n)
  then have "n \<le> MAX_RETRIES" using ok by (metis nth_mem task_ok.simps(5))
  then show ?thesis using cs_connected by (intro that [of "C_Opening n (ss_next_conn s)"]) (auto simp: task_moves_def task_defs)
next
  case (cs_connect_failed n)
  then show ?thesis
    by (intro that [of "if n \<ge> MAX_RETRIES then C_Returned else C_Sleeping n"]) (auto simp: task_moves_def task_defs)
next
  case (cs_opened n c)
  then show ?thesis by (intro that [of "C_Bridging c"]) (auto simp: task_moves_def task_defs)
next
  case (cs_open_failed n c)
  then show ?thesis
    by (intro that [of "if n \<ge> MAX_RETRIES then C_Returned else C_Invalidate n"]) (auto simp: task_moves_def task_defs)
next
  case (cs_invalidate n)
  then have "n < MAX_RETRIES" using ok by (metis nth_mem task_ok.simps(3))
  then show ?thesis using cs_invalidate by (intro that [of "C_Sleeping n"]) (auto simp: task_moves_def task_defs)
next
  case (cs_awake n)
  then have "n < MAX_RETRIES" using ok by (metis nth_mem task_ok.simps(2))
  then show ?thesis using cs_awake by (intro that [of "C_Begin n"]) (auto simp: task_moves_def task_defs sleep_from_Cons)
next
  case (cs_bridge_ended c)
  then show ?thesis by (intro that [of C_Returned]) (auto simp: task_moves_def task_defs)
qed

section \<open>The invariant of a session\<close>

definition tasks_ok :: "session \<Rightarrow> bool" where
  "tasks_ok s \<longleftrightarrow> (\<forall>t \<in> set (ss_tasks s). task_ok t)"

text \<open>The write lock is held across a waiting point exactly by the task that connects.\<close>

definition lock_ok :: "session \<Rightarrow> bool" where
  "lock_ok s \<longleftrightarrow> (\<forall>i < length (ss_tasks s). is_connecting (ss_tasks s ! i) \<longleftrightarrow> ss_locked s = Some i) \<and>
     (\<forall>i. ss_locked s = Some i \<longrightarrow> i < length (ss_tasks s))"

definition holders :: "session \<Rightarrow> nat" where
  "holders s = sum_list (map (\<lambda>t. of_bool (holds_permit t)) (ss_tasks s))"

definition permits_ok :: "session \<Rightarrow> bool" where
  "permits_ok s \<longleftrightarrow> ss_permits s + holders s = CLIENT_LIMIT"

definition session_inv :: "session \<Rightarrow> bool" where
  "session_inv s \<longleftrightarrow> tasks_ok s \<and> lock_ok s \<and> permits_ok s"

lemma sum_list_map_update:
  fixes f :: "'a \<Rightarrow> nat"
  assumes "i < length xs"
  shows "sum_list (map f (xs[i := y])) + f (xs ! i) = sum_list (map f xs) + f y"
  using assms by (induction xs arbitrary: i) (auto split: nat.splits)

lemma moves_tasks_ok: "task_moves i d new s t \<Longrightarrow> tasks_ok s \<Longrightarrow> tasks_ok t"
  using set_update_subset_insert [of "ss_tasks s" i new] by (auto simp: tasks_ok_def task_moves_def)

lemma moves_lock_ok:
  assumes "task_moves i d new s t" "lock_ok s"
  shows "lock_ok t"
proof -
  have *: "i < length (ss_tasks s)" "ss_tasks t = (ss_tasks s)[i := new]" "is_connecting new \<longrightarrow> ss_locked s = None"
    "ss_locked t = (if is_connecting new then Some i else if is_connecting (ss_tasks s ! i) then None else ss_locked s)"
    using assms(1) by (simp_all add: task_moves_def)
  have "is_connecting (ss_tasks t ! j) \<longleftrightarrow> ss_locked t = Some j" if "j < length (ss_tasks t)" for j
  proof (cases "j = i")
    case True
    have "is_connecting (ss_tasks s ! i) \<longleftrightarrow> ss_locked s = Some i" using assms(2) * by (simp add: lock_ok_def)
    then show ?thesis using True * by auto
  next
    case False
    have "is_connecting (ss_tasks s ! j) \<longleftrightarrow> ss_locked s = Some j" "is_connecting (ss_tasks s ! i) \<longleftrightarrow> ss_locked s = Some i"
      using assms(2) that * by (simp_all add: lock_ok_def)
    then show ?thesis using False * by auto
  qed
  moreover have "j < length (ss_tasks t)" if "ss_locked t = Some j" for j
    using that assms(2) * by (auto simp: lock_ok_def split: if_splits)
  ultimately show ?thesis by (simp add: lock_ok_def)
qed

lemma moves_permits_ok:
  assumes "task_moves i d new s t" "permits_ok s"
  shows "permits_ok t"
  using assms sum_list_map_update [of i "ss_tasks s" "\<lambda>t. of_bool (holds_permit t)" new]
  by (simp add: task_moves_def permits_ok_def holders_def)

lemma accept_inv: "session_inv s \<Longrightarrow> session_inv (accept_tcp s)"
  by (auto simp: session_inv_def tasks_ok_def lock_ok_def permits_ok_def holders_def accept_tcp_def holds_permit_def
      nth_append less_Suc_eq)

lemma session_step_inv:
  assumes "session_step e s t" "session_inv s"
  shows "session_inv t"
proof (cases e)
  case Accepted
  then show ?thesis using assms accept_inv by (auto elim: accepted_cases)
next
  case (Moved i d)
  then show ?thesis using assms step_moves [of i d s t] moves_tasks_ok moves_lock_ok moves_permits_ok
    by (metis session_inv_def tasks_ok_def)
qed

lemma session_run_inv: "session_run es s \<Longrightarrow> session_inv s"
proof (induction rule: session_run.induct)
  case run_start
  then show ?case by (simp add: session_new_def session_inv_def tasks_ok_def lock_ok_def permits_ok_def holders_def)
next
  case (run_step es s e t)
  then show ?case using session_step_inv by blast
qed

lemma one_connecting:
  assumes "session_inv s" "i < length (ss_tasks s)" "j < length (ss_tasks s)" "is_connecting (ss_tasks s ! i)" "is_connecting (ss_tasks s ! j)"
  shows "i = j"
  using assms by (auto simp: session_inv_def lock_ok_def)

section \<open>Every task ends\<close>

definition moves_of :: "nat \<Rightarrow> client_event list \<Rightarrow> nat" where
  "moves_of i es = length (filter (\<lambda>e. case e of Moved j d \<Rightarrow> j = i | Accepted \<Rightarrow> False) es)"

definition slept_of :: "nat \<Rightarrow> client_event list \<Rightarrow> nat" where
  "slept_of i es = sum_list (map (\<lambda>e. case e of Moved j d \<Rightarrow> if j = i then d else 0 | Accepted \<Rightarrow> 0) es)"

lemma no_moves: "session_run es s \<Longrightarrow> length (ss_tasks s) \<le> i \<Longrightarrow> moves_of i es = 0 \<and> slept_of i es = 0"
proof (induction rule: session_run.induct)
  case run_start
  then show ?case by (simp add: moves_of_def slept_of_def)
next
  case (run_step es s e t)
  then have ok: "\<forall>x \<in> set (ss_tasks s). task_ok x" using session_run_inv by (auto simp: session_inv_def tasks_ok_def)
  show ?case
  proof (cases e)
    case Accepted
    then show ?thesis using run_step by (auto simp: moves_of_def slept_of_def accept_tcp_def elim!: accepted_cases)
  next
    case (Moved j d)
    then obtain new where "task_moves j d new s t" using run_step step_moves ok by blast
    then show ?thesis using run_step Moved by (auto simp: moves_of_def slept_of_def task_moves_def)
  qed
qed

text \<open>What a task has done and what it has left.\<close>

lemma task_budget:
  "session_run es s \<Longrightarrow> i < length (ss_tasks s) \<Longrightarrow>
     moves_of i es + task_left (ss_tasks s ! i) \<le> task_left C_Waiting \<and>
     slept_of i es + sleep_left (ss_tasks s ! i) \<le> sleep_left C_Waiting"
proof (induction rule: session_run.induct)
  case run_start
  then show ?case by (simp add: session_new_def)
next
  case (run_step es s e t)
  then have ok: "\<forall>x \<in> set (ss_tasks s). task_ok x" using session_run_inv by (auto simp: session_inv_def tasks_ok_def)
  show ?case
  proof (cases e)
    case Accepted
    then have t: "t = accept_tcp s" using run_step by (auto elim: accepted_cases)
    show ?thesis
    proof (cases "i < length (ss_tasks s)")
      case True
      then show ?thesis using run_step Accepted t by (auto simp: moves_of_def slept_of_def accept_tcp_def nth_append)
    next
      case False
      then have "i = length (ss_tasks s)" using run_step.prems t by (simp add: accept_tcp_def)
      then show ?thesis using no_moves [OF run_step.hyps(1), of i] Accepted t by (simp add: moves_of_def slept_of_def accept_tcp_def)
    qed
  next
    case (Moved j d)
    then obtain new where "task_moves j d new s t" using run_step step_moves ok by blast
    then show ?thesis using run_step Moved
      by (cases "j = i") (auto simp: moves_of_def slept_of_def task_moves_def)
  qed
qed

lemma sleep_total: "sleep_from 1 = 11100"
  by (simp add: sleep_from_def MAX_RETRIES_def retry_delay_def upt_conv_Cons)

section \<open>No deadlock\<close>

lemma holder_moves:
  assumes "session_inv s" "i < length (ss_tasks s)" "holds_permit (ss_tasks s ! i)"
  shows "\<exists>j d t. session_step (Moved j d) s t"
proof (cases "ss_locked s")
  case None
  have "ss_tasks s ! i \<noteq> C_Waiting" "ss_tasks s ! i \<noteq> C_Returned" using assms by (auto simp: holds_permit_def)
  then show ?thesis using None assms(2)
    by (cases "ss_tasks s ! i") (blast dest: cs_attempt cs_lock cs_connected cs_opened cs_invalidate cs_awake cs_bridge_ended)+
next
  case (Some j)
  then obtain n where "j < length (ss_tasks s)" "ss_tasks s ! j = C_Connecting n"
    using assms(1) by (metis is_connecting.elims(2) lock_ok_def session_inv_def)
  then show ?thesis using cs_connected by blast
qed

lemma session_progress:
  assumes "session_inv s" "t \<in> set (ss_tasks s)" "t \<noteq> C_Returned"
  shows "\<exists>j d u. session_step (Moved j d) s u"
proof -
  obtain i where i: "i < length (ss_tasks s)" "ss_tasks s ! i = t" using assms(2) by (metis in_set_conv_nth)
  consider "holds_permit t" | "t = C_Waiting" "ss_permits s > 0" | "ss_permits s = 0"
    using assms(3) by (auto simp: holds_permit_def)
  then show ?thesis
  proof cases
    case 1
    then show ?thesis using holder_moves assms(1) i by blast
  next
    case 2
    then show ?thesis using cs_permit i by blast
  next
    case 3
    then have "holders s = CLIENT_LIMIT" using assms(1) by (simp add: session_inv_def permits_ok_def)
    then have "holders s \<noteq> 0" by (simp add: CLIENT_LIMIT_def)
    then obtain u where "u \<in> set (ss_tasks s)" "holds_permit u" by (auto simp: holders_def)
    then obtain j where "j < length (ss_tasks s)" "holds_permit (ss_tasks s ! j)" by (metis in_set_conv_nth)
    then show ?thesis using holder_moves assms(1) by blast
  qed
qed

text \<open>
  Clearing the cache does not look at what it holds: a task whose stream failed on an old connection drops
  the connection another task has just made.
\<close>

lemma invalidate_drops_fresh:
  assumes "ss_tasks s ! i = C_Opening n old" "n < MAX_RETRIES" "i < length (ss_tasks s)" "ss_locked s = None"
    "ss_active_conn s = Some fresh" "fresh \<noteq> old"
  shows "\<exists>t u. session_step (Moved i 0) s t \<and> session_step (Moved i 0) t u \<and> ss_active_conn u = None"
proof -
  let ?t = "open_failed i n s"
  have "session_step (Moved i 0) s ?t" using assms by (auto intro: cs_open_failed)
  moreover have "session_step (Moved i 0) ?t (invalidate_connection i n ?t)"
    by (rule cs_invalidate) (use assms in \<open>simp_all add: open_failed_def task_set_def\<close>)
  moreover have "ss_active_conn (invalidate_connection i n ?t) = None" by (simp add: invalidate_connection_def)
  ultimately show ?thesis by blast
qed

end
