(* ===== verification/Tunnel_Properties.thy ===== *)
theory Tunnel_Properties
  imports Tunnel_Server Tunnel_Client Instances
begin

text \<open>
  The properties of the tunnel: what a bridge delivers, whom the listening side serves, and that every
  task of the sending side ends. The witnesses use a compressor that stores blocks unchanged.
\<close>

section \<open>Instances\<close>

definition stored_blocks :: lz4 where
  "stored_blocks = \<lparr>lz4_compress = (\<lambda>b. b), lz4_decompress = (\<lambda>b n. if length b \<le> n then Some b else None)\<rparr>"

lemma stored_blocks_ok: "lz4_ok stored_blocks"
  by (auto simp: lz4_ok_def stored_blocks_def)

lemma one_be: "u32_to_be 1 = [0, 0, 0, 1]"
proof -
  have "(4 :: nat) = Suc (Suc (Suc (Suc 0)))" by simp
  then have "u32_to_be 1 = be_bytes (Suc (Suc (Suc (Suc 0)))) 1" by (simp only: u32_to_be_def unat_1)
  then show ?thesis by simp
qed

section \<open>Streams\<close>

text \<open>C29: Whatever the reads of the TCP connection return, the receiving side of the tunnel writes the
  same octets to its own TCP connection and shuts it down. When the QUIC stream ends early, it has
  written the chunks that arrived as whole frames, and nothing of the cut one; it reports the loss
  exactly when the stream was cut after the four octets of a length, and otherwise reports success.\<close>

theorem tunnel_stream:
  assumes L: "lz4_ok L" and reads: "\<forall>c \<in> set reads. chunk_ok c"
  defines "sent \<equiv> compress_and_forward L reads At_Eof (writer_new None)"
  shows "fst sent = Inr () \<and> wr_shutdown (snd sent) \<and>
    decompress_and_forward L (wr_out (snd sent)) At_Eof (writer_new None) =
      (Inr (), \<lparr>wr_out = concat reads, wr_limit = None, wr_shutdown = True\<rparr>) \<and>
    (\<forall>p. strict_prefix p (wr_out (snd sent)) \<longrightarrow>
      (\<exists>whole c more q. reads = whole @ c # more \<and> p = concat (map (frame L) whole) @ q \<and> strict_prefix q (frame L c) \<and>
        decompress_and_forward L p At_Eof (writer_new None) =
          (if length q < 4 then (Inr (), \<lparr>wr_out = concat whole, wr_limit = None, wr_shutdown = True\<rparr>)
           else (Inl Unexpected_Eof, \<lparr>wr_out = concat whole, wr_limit = None, wr_shutdown = False\<rparr>))))"
proof -
  have sent: "sent = (Inr (), \<lparr>wr_out = concat (map (frame L) reads), wr_limit = None, wr_shutdown = True\<rparr>)"
    unfolding sent_def using compress_frames [OF reads] by (simp add: writer_new_def)
  have all: "decompress_and_forward L (concat (map (frame L) reads)) At_Eof (writer_new None) =
      (Inr (), \<lparr>wr_out = concat reads, wr_limit = None, wr_shutdown = True\<rparr>)"
    using decompress_frames [OF L reads, of "writer_new None" "[]"]
    by (simp add: writer_new_def decompress_and_forward.simps [of L "[]"] shutdown_writer_def)
  have cut: "\<exists>whole c more q. reads = whole @ c # more \<and> p = concat (map (frame L) whole) @ q \<and> strict_prefix q (frame L c) \<and>
      decompress_and_forward L p At_Eof (writer_new None) =
        (if length q < 4 then (Inr (), \<lparr>wr_out = concat whole, wr_limit = None, wr_shutdown = True\<rparr>)
         else (Inl Unexpected_Eof, \<lparr>wr_out = concat whole, wr_limit = None, wr_shutdown = False\<rparr>))"
    if p: "strict_prefix p (concat (map (frame L) reads))" for p
  proof -
    obtain whole c more q where *: "reads = whole @ c # more" "p = concat (map (frame L) whole) @ q" "strict_prefix q (frame L c)"
      using prefix_of_frames [OF p] .
    have "decompress_and_forward L p At_Eof (writer_new None) =
        decompress_and_forward L q At_Eof \<lparr>wr_out = concat whole, wr_limit = None, wr_shutdown = False\<rparr>"
      using decompress_frames [OF L, of whole "writer_new None" q] reads * by (simp add: writer_new_def)
    also have "\<dots> = (if length q < 4 then (Inr (), \<lparr>wr_out = concat whole, wr_limit = None, wr_shutdown = True\<rparr>)
        else (Inl Unexpected_Eof, \<lparr>wr_out = concat whole, wr_limit = None, wr_shutdown = False\<rparr>))"
      using decompress_partial [OF L _ *(3)] reads *(1) by simp
    finally show ?thesis using * by blast
  qed
  have out: "fst sent = Inr ()" "wr_shutdown (snd sent)" "wr_out (snd sent) = concat (map (frame L) reads)" by (simp_all add: sent)
  show ?thesis unfolding out(3) by (intro conjI allI impI out(1,2) all cut)
qed

theorem tunnel_stream_witness:
  "decompress_and_forward stored_blocks [0, 0, 0, 1, 7, 0, 0] At_Eof (writer_new None) =
     (Inr (), \<lparr>wr_out = [7], wr_limit = None, wr_shutdown = True\<rparr>)"
proof -
  let ?cut = "[0, 0, 0, 1, 7, 0, 0] :: bytes"
  have f: "frame stored_blocks [7] = [0, 0, 0, 1, 7]" "frame stored_blocks [8] = [0, 0, 0, 1, 8]"
    by (simp_all add: frame_def stored_blocks_def one_be)
  have reads: "\<forall>c \<in> set [[7], [8]]. chunk_ok c" by (simp add: chunk_ok_def FRAME_BUFFER_def)
  have sent: "wr_out (snd (compress_and_forward stored_blocks [[7], [8]] At_Eof (writer_new None))) = [0, 0, 0, 1, 7, 0, 0, 0, 1, 8]"
    using compress_frames [OF reads, of "writer_new None" stored_blocks] f by (simp add: writer_new_def)
  then have pre: "strict_prefix ?cut (wr_out (snd (compress_and_forward stored_blocks [[7], [8]] At_Eof (writer_new None))))"
    by simp
  obtain whole c more q where *: "[[7], [8]] = whole @ c # more" "?cut = concat (map (frame stored_blocks) whole) @ q"
    "strict_prefix q (frame stored_blocks c)"
    "decompress_and_forward stored_blocks ?cut At_Eof (writer_new None) =
      (if length q < 4 then (Inr (), \<lparr>wr_out = concat whole, wr_limit = None, wr_shutdown = True\<rparr>)
       else (Inl Unexpected_Eof, \<lparr>wr_out = concat whole, wr_limit = None, wr_shutdown = False\<rparr>))"
    using tunnel_stream [OF stored_blocks_ok reads, THEN conjunct2, THEN conjunct2, THEN conjunct2, THEN spec, THEN mp, OF pre]
    by (elim exE conjE)
  have "whole = [] \<and> c = [7] \<or> whole = [[7]] \<and> c = [8]" using *(1) by (auto simp: Cons_eq_append_conv)
  then show ?thesis using *(2-4) f by auto
qed

section \<open>The listening side\<close>



section \<open>The sending side\<close>

text \<open>C31: In every run of the sending side at most one task is connecting to the server and at most two
  thousand tasks hold a permit; a task makes at most 62 moves and sleeps at most 11.1 seconds, however
  the connections and streams fail and whatever the other tasks do; and as long as a task has not
  returned some task can move, so the tasks never wait for each other in a circle.\<close>

theorem tunnel_client_ends:
  assumes run: "session_run es s"
  shows "(\<forall>i j. i < length (ss_tasks s) \<and> j < length (ss_tasks s) \<and> is_connecting (ss_tasks s ! i) \<and> is_connecting (ss_tasks s ! j) \<longrightarrow> i = j) \<and>
    holders s \<le> 2000 \<and>
    (\<forall>i. moves_of i es \<le> 62 \<and> slept_of i es \<le> 11100) \<and>
    (\<forall>t \<in> set (ss_tasks s). t \<noteq> C_Returned \<longrightarrow> (\<exists>j d u. session_step (Moved j d) s u))"
proof -
  have inv: "session_inv s" using session_run_inv [OF run] .
  then have "holders s \<le> 2000" by (simp add: session_inv_def permits_ok_def CLIENT_LIMIT_def)
  moreover have "moves_of i es \<le> 62 \<and> slept_of i es \<le> 11100" for i
    using task_budget [OF run, of i] no_moves [OF run, of i] sleep_total
    by (cases "i < length (ss_tasks s)") (auto simp: MAX_RETRIES_def)
  ultimately show ?thesis using one_connecting [OF inv] session_progress [OF inv] by blast
qed

theorem tunnel_client_ends_witness:
  "\<exists>j d u. session_step (Moved j d) (accept_tcp session_new) u"
proof -
  have "session_run ([] @ [Accepted]) (accept_tcp session_new)" by (rule run_step [OF run_start cs_accept])
  then have "\<forall>t \<in> set (ss_tasks (accept_tcp session_new)). t \<noteq> C_Returned \<longrightarrow>
      (\<exists>j d u. session_step (Moved j d) (accept_tcp session_new) u)"
    using tunnel_client_ends by blast
  then show ?thesis by (simp add: accept_tcp_def session_new_def)
qed

end
