(* ===== verification/Spec2Isabelle.thy ===== *)
theory Spec2Isabelle
  imports Relay_Properties Server_Properties Socket_Properties Dns_Properties Net_Properties Tunnel_Properties
begin

text \<open>
  A verification development of the tunnel's networking stack: the relay server and its wire
  protocol, the socket side of an endpoint that chooses among direct, relay and custom paths, the
  publication of endpoints over signed DNS packets, network reports, the protocol router, and the
  tunnel built on them.

  \<^bold>\<open>The program.\<close> An endpoint is identified by an Ed25519 public key (\<open>iroh-base/src/key.rs\<close>) and is
  reached under an endpoint address, a set of IP, relay and custom addresses
  (\<open>iroh-base/src/endpoint_addr.rs\<close>). A relay (\<open>iroh-relay/src/server\<close>) accepts websocket connections,
  authenticates the client by a handshake (\<open>iroh-relay/src/protos/handshake.rs\<close>), registers it, and
  forwards datagrams between clients in frames (\<open>iroh-relay/src/protos/relay.rs\<close>). On the endpoint one
  actor per remote (\<open>iroh/src/socket/remote_map\<close>) keeps the known paths, punches holes, and selects the
  path that carries the data; QUIC sees relay and custom paths under private addresses
  (\<open>iroh/src/socket/mapped_addrs.rs\<close>). An endpoint publishes where it can be reached in a signed packet
  of TXT records (\<open>iroh-dns\<close>), which a DNS server stores and answers from (\<open>iroh-dns-server\<close>). It measures
  its network and picks a home relay (\<open>iroh/src/net_report\<close>), and hands incoming connections to protocol
  handlers (\<open>iroh/src/protocol.rs\<close>). The tunnel is a pair of programs on top of it: one exposes a local
  TCP service (\<open>iroh/examples/tunnel-listen.rs\<close>), the other forwards TCP connections to it over
  compressed streams (\<open>iroh/examples/tunnel-send.rs\<close>).

  \<^bold>\<open>Conventions.\<close> A Rust \<open>Result\<close> is a sum with the error on the left, a possible panic is an outer
  option whose \<open>None\<close> is the panic, mutable state is passed and returned, maps are association lists
  with distinct keys, times are natural numbers of nanoseconds. Third-party code is a record of
  functions with its documented behaviour as a predicate; \<open>Instances\<close>, \<open>Handshake_Instance\<close>,
  \<open>Socket_Instances\<close> and \<open>Dns_Instances\<close> give concrete ones on which the witnesses are evaluated.

  \<^bold>\<open>Foundations.\<close> \<open>Nexa_Prelude\<close>: words and octets, byte orders, association lists, sums. \<open>Text_Format\<close>:
  hexadecimal numbers, splitting and joining. \<open>Wire_Codec\<close>: the interface of a message codec, with
  what follows from its laws; both directions of the relay protocol are instances.

  \<^bold>\<open>Relay protocol.\<close> \<open>Frame_Type\<close> (\<open>common.rs\<close>, \<open>http.rs\<close>), \<open>Keys\<close> (\<open>key.rs\<close>), \<open>Key_Cache\<close>
  (\<open>key_cache.rs\<close>), \<open>Relay_Proto\<close> (\<open>protos/relay.rs\<close>), \<open>Ws_Stream\<close> (\<open>protos/streams.rs\<close>) and \<open>Handshake\<close>
  (\<open>protos/handshake.rs\<close>, access control of \<open>server.rs\<close>, the accept path of \<open>server/http_server.rs\<close>).
  \<open>Relay_Properties\<close> shows that messages survive the wire and ill-formed ones are refused, that both
  sides of the handshake agree and only holders of a key are authenticated, and that a confirmation
  is sent exactly to the admitted.

  \<^bold>\<open>Relay server.\<close> \<open>Ping_Tracker\<close> (\<open>ping_tracker.rs\<close>), \<open>Rate_Limit\<close> and \<open>Relay_Stream\<close>
  (\<open>server/streams.rs\<close>), \<open>Relay_Clients\<close> (\<open>server/clients.rs\<close>), \<open>Relay_Actor\<close> (\<open>server/client.rs\<close>) and their
  composition \<open>Relay_System\<close>, a step relation over all connections. \<open>Server_Properties\<close> shows the
  invariant of the reachable states, the way of a datagram through the relay, the registry as a
  stack of connections, the bounds of the rate limiter and the cases in which an actor panics.

  \<^bold>\<open>Socket.\<close> \<open>Endpoint_Addr\<close> (\<open>endpoint_addr.rs\<close>), \<open>Mapped_Addrs\<close> (\<open>mapped_addrs.rs\<close>), \<open>Four_Tuple\<close>
  (addresses of \<open>transports.rs\<close>), \<open>Path_Selector\<close> (\<open>biased_rtt_path_selector.rs\<close> and the interface of
  selectors), \<open>Path_State\<close>, \<open>Path_Watcher\<close> and \<open>Remote_State\<close> (the actor of \<open>remote_state.rs\<close> and its
  submodules), \<open>Remote_Invariant\<close> and \<open>Remote_Behaviour\<close> (its invariant, and what it does over time),
  \<open>Remote_Map\<close> (\<open>remote_map.rs\<close>). \<open>Socket_Properties\<close> shows the round trips of addresses, the optimality and
  stability of the selection, what pruning keeps, what every connection is told, the rate of hole
  punching, and that the messages for a remote are handled in order across restarts of its actor.

  \<^bold>\<open>Publishing.\<close> \<open>Socket_Text\<close> (the text of socket addresses), \<open>Signed_Packet\<close> (\<open>pkarr.rs\<close> with the
  monotonic timestamps), \<open>Endpoint_Info\<close> (\<open>attrs.rs\<close>, \<open>endpoint_info.rs\<close>), \<open>Packet_Store\<close>
  (\<open>store/signed_packets.rs\<close>: tables, store actor, eviction) and \<open>Zone_Store\<close> (\<open>store.rs\<close>, zones of \<open>util.rs\<close>).
  \<open>Dns_Properties\<close> shows that packets are authentic and round-trip, that what an endpoint publishes is
  read back and where it is not, that the store refines a map that keeps the most recent packets, that
  calls that do not overlap answer from the stored packet and that overlapping ones may not, and that
  the timestamp loop ends with strictly increasing timestamps.

  \<^bold>\<open>Reports and router.\<close> \<open>Relay_Map\<close> (\<open>relay_map.rs\<close>, ordered maps), \<open>Net_Report\<close> (\<open>net_report.rs\<close>,
  \<open>report.rs\<close>, \<open>probes.rs\<close>, \<open>reportgen.rs\<close>, \<open>options.rs\<close>), \<open>Report_Behaviour\<close> (its lemmas) and \<open>Router\<close>
  (\<open>protocol.rs\<close>). \<open>Net_Properties\<close> shows what the preferred relay is, that reports are returned, that
  incremental reports without QUIC measure nothing, and the order in which a router shuts down.

  \<^bold>\<open>Tunnel.\<close> \<open>Tunnel_Frames\<close> (the copying loops both programs share), \<open>Tunnel_Server\<close> (command line, key
  file, admission, permits and the connection to the local service) and \<open>Tunnel_Client\<close> (command line, the
  shared connection behind its lock, and the forwarding tasks as a step relation). \<open>Tunnel_Properties\<close>
  shows that the octets of a connection arrive however they are read, what a cut stream gives, whom the
  listening side serves, and that the tasks of the sending side end without blocking each other. The
  frames are described once, from the listening side; the other program has the same text.

  \<^bold>\<open>Bounds.\<close> The loops of the source are recursions over lists or steps of a relation; the only count
  is the five parts after which an operation of the zone store is done, more than the four the
  longest one has. Counters of connections and of mapped addresses are 64-bit words; the statements about
  fresh ones assume that they do not wrap around.

  \<^bold>\<open>Not modelled.\<close> Sockets, TLS, HTTP, DNS and QUIC themselves are third-party or input and output: their
  results are arguments. Logging, metrics export, configuration files and the command lines of
  the relay and DNS servers have no effect on the modelled state, and the start-up of both tunnel
  programs (endpoint, relays, printed messages) only calls the endpoint. The endpoint facade and the QUIC wrappers (\<open>iroh/src/endpoint\<close>), the
  polling of transports (\<open>iroh/src/socket/transports\<close>), the lookup services (\<open>iroh/src/address_lookup\<close>), the
  DNS resolver and the HTTP and DNS front ends of the DNS server forward to those and are left out.
\<close>

end
